(* ===== verification/Prelude.thy ===== *)
theory Prelude
  imports Main "HOL-Library.Multiset" "HOL-Library.AList" "HOL-Library.List_Lexorder"
    "HOL-Library.Char_ord"
begin

text \<open>
  Shared ground of the development: the array, map and sort operations of the language the
  front end is written in, the generic facts about them, and the interfaces that several
  components implement (keyed buffers, step machines, codecs).

  A JavaScript \<open>Map\<close> iterates in insertion order and \<open>set\<close> on a present key keeps the
  position of that key, which is \<open>AList.update\<close> on an association list. A \<open>Set\<close> that
  is only tested for membership is a HOL set.
\<close>

named_theorems js_defs \<open>definitions of the array operations\<close>
named_theorems buffer_simps \<open>facts about keyed buffers\<close>

section \<open>Array operations\<close>

text \<open>\<open>xs.slice(s, e)\<close>: a negative position counts from the end, both are clamped.\<close>

definition slice_pos :: "int \<Rightarrow> 'a list \<Rightarrow> nat" where
  "slice_pos p xs =
     (if p < 0 then nat (max (int (length xs) + p) 0) else nat (min p (int (length xs))))"

definition js_slice :: "int \<Rightarrow> int \<Rightarrow> 'a list \<Rightarrow> 'a list" where
  "js_slice s e xs = take (slice_pos e xs - slice_pos s xs) (drop (slice_pos s xs) xs)"

definition js_slice_from :: "int \<Rightarrow> 'a list \<Rightarrow> 'a list" where
  "js_slice_from s xs = drop (slice_pos s xs) xs"

text \<open>The idiom \<open>next.length > cap ? next.slice(0, cap) : next\<close> of every capped buffer.\<close>

definition cap_list :: "int \<Rightarrow> 'a list \<Rightarrow> 'a list" where
  "cap_list cap xs = (if int (length xs) > cap then js_slice 0 cap xs else xs)"

fun find_index :: "('a \<Rightarrow> bool) \<Rightarrow> 'a list \<Rightarrow> nat option" where
  "find_index P [] = None"
| "find_index P (x # xs) = (if P x then Some 0 else map_option Suc (find_index P xs))"

text \<open>\<open>[...new Set(xs)]\<close>: the first occurrence of each value, in order.\<close>

fun uniq_from :: "'a list \<Rightarrow> 'a list \<Rightarrow> 'a list" where
  "uniq_from seen [] = []"
| "uniq_from seen (x # xs) =
     (if x \<in> set seen then uniq_from seen xs else x # uniq_from (x # seen) xs)"

definition uniq :: "'a list \<Rightarrow> 'a list" where
  "uniq xs = uniq_from [] xs"

lemma js_slice_zero [simp]: "0 \<le> n \<Longrightarrow> js_slice 0 n xs = take (nat n) xs"
  by (auto simp: js_slice_def slice_pos_def min_def)

lemma js_slice_from_last:
  "0 < n \<Longrightarrow> js_slice_from (- int n) xs = drop (length xs - n) xs"
  by (auto simp: js_slice_from_def slice_pos_def max_def nat_diff_distrib')

lemma js_slice_from_zero [simp]: "js_slice_from 0 xs = xs"
  by (simp add: js_slice_from_def slice_pos_def)

lemma cap_list_take [simp]: "0 \<le> cap \<Longrightarrow> cap_list cap xs = take (nat cap) xs"
  by (auto simp: cap_list_def)

lemma int_length_take: "0 \<le> cap \<Longrightarrow> int (length (take (nat cap) xs)) \<le> cap"
  by (simp add: min_def) arith

lemma length_cap_list: "0 \<le> cap \<Longrightarrow> int (length (cap_list cap xs)) \<le> cap"
  by (simp only: cap_list_take int_length_take)

lemma find_index_None: "find_index P xs = None \<longleftrightarrow> (\<forall>x \<in> set xs. \<not> P x)"
  by (induction xs) auto

lemma find_index_key_None: "find_index (\<lambda>y. key y = k) xs = None \<longleftrightarrow> k \<notin> key ` set xs"
  by (auto simp: find_index_None)

lemma find_index_SomeD:
  "find_index P xs = Some i \<Longrightarrow> i < length xs \<and> P (xs ! i) \<and> (\<forall>j < i. \<not> P (xs ! j))"
  by (induction xs arbitrary: i) (auto split: if_splits simp: nth_Cons split: nat.splits)

lemma find_index_append:
  "find_index P (xs @ ys) = (case find_index P xs of Some i \<Rightarrow> Some i
     | None \<Rightarrow> map_option (\<lambda>i. length xs + i) (find_index P ys))"
proof (induction xs)
  case Nil
  then show ?case by (cases "find_index P ys") auto
next
  case (Cons x xs)
  then show ?case by (cases "find_index P ys") (auto split: option.splits)
qed

lemma set_uniq_from: "set (uniq_from seen xs) = set xs - set seen"
  by (induction xs arbitrary: seen) auto

lemma set_uniq [simp]: "set (uniq xs) = set xs"
  by (simp add: uniq_def set_uniq_from)

lemma distinct_uniq_from: "distinct (uniq_from seen xs)"
  by (induction xs arbitrary: seen) (auto simp: set_uniq_from)

lemma distinct_uniq [simp]: "distinct (uniq xs)"
  by (simp add: uniq_def distinct_uniq_from)

lemma uniq_from_id: "distinct xs \<Longrightarrow> set xs \<inter> set seen = {} \<Longrightarrow> uniq_from seen xs = xs"
  by (induction xs arbitrary: seen) auto

lemma uniq_id: "distinct xs \<Longrightarrow> uniq xs = xs"
  by (simp add: uniq_def uniq_from_id)

lemma uniq_from_cong: "set a = set b \<Longrightarrow> uniq_from a xs = uniq_from b xs"
proof (induction xs arbitrary: a b)
  case (Cons x xs)
  have "set (x # a) = set (x # b)" using Cons.prems by simp
  then have "uniq_from (x # a) xs = uniq_from (x # b) xs" by (rule Cons.IH)
  with Cons.IH [OF Cons.prems] show ?case by (simp add: Cons.prems)
qed simp

lemma uniq_from_append: "uniq_from s (xs @ ys) = uniq_from s xs @ uniq_from (xs @ s) ys"
proof (induction xs arbitrary: s)
  case (Cons x xs)
  have "uniq_from (xs @ x # s) ys = uniq_from ((x # xs) @ s) ys" by (rule uniq_from_cong) simp
  moreover have "x \<in> set s \<Longrightarrow> uniq_from (xs @ s) ys = uniq_from ((x # xs) @ s) ys"
    by (rule uniq_from_cong) (auto simp: insert_absorb)
  ultimately show ?case using Cons.IH [of s] Cons.IH [of "x # s"] by simp
qed simp

section \<open>Stable comparator sort\<close>

text \<open>
  \<open>toSorted\<close> and \<open>sort\<close> are stable; the comparator returns a negative number, zero or a
  positive one. Where the comparator orders by a key, the result is the library's
  \<open>sort_key\<close>.
\<close>

fun insert_by :: "('a \<Rightarrow> 'a \<Rightarrow> int) \<Rightarrow> 'a \<Rightarrow> 'a list \<Rightarrow> 'a list" where
  "insert_by cmp x [] = [x]"
| "insert_by cmp x (y # ys) = (if cmp x y \<le> 0 then x # y # ys else y # insert_by cmp x ys)"

definition sort_by :: "('a \<Rightarrow> 'a \<Rightarrow> int) \<Rightarrow> 'a list \<Rightarrow> 'a list" where
  "sort_by cmp xs = foldr (insert_by cmp) xs []"

lemma sort_by_simps [simp]:
  "sort_by cmp [] = []"
  "sort_by cmp (x # xs) = insert_by cmp x (sort_by cmp xs)"
  by (simp_all add: sort_by_def)

lemma mset_insert_by [simp]: "mset (insert_by cmp x xs) = add_mset x (mset xs)"
  by (induction xs) auto

lemma mset_sort_by [simp]: "mset (sort_by cmp xs) = mset xs"
  by (induction xs) auto

lemma set_sort_by [simp]: "set (sort_by cmp xs) = set xs"
  by (rule mset_eq_setD) simp

lemma length_sort_by [simp]: "length (sort_by cmp xs) = length xs"
  by (rule mset_eq_length) simp

lemma distinct_map_mset: "mset xs = mset ys \<Longrightarrow> distinct (map f xs) = distinct (map f ys)"
  by (metis mset_eq_imp_distinct_iff mset_map)

lemma distinct_map_sort_by [simp]: "distinct (map f (sort_by cmp xs)) = distinct (map f xs)"
  by (rule distinct_map_mset) simp

lemma insert_by_key:
  "(\<And>a b. cmp a b \<le> 0 \<longleftrightarrow> f a \<le> f b) \<Longrightarrow> insert_by cmp x xs = insort_key f x xs"
  by (induction xs) auto

lemma sort_by_key:
  fixes f :: "'a \<Rightarrow> 'k::linorder"
  assumes "\<And>a b. cmp a b \<le> 0 \<longleftrightarrow> f a \<le> f b"
  shows "sort_by cmp xs = sort_key f xs"
  by (induction xs) (simp_all add: insert_by_key [where f = f, OF assms])

section \<open>Keyed buffers\<close>

text \<open>
  The live buffers merge a delivery into the entry with the same key or add a new entry at the
  end. \<open>list_upsert\<close> is that operation on the list itself; the code reaches the entry
  through an index map it keeps beside the list. \<open>lookup_by\<close> is the abstract view of a
  buffer: the entry a key stands for.
\<close>

definition list_upsert ::
    "('a \<Rightarrow> 'k) \<Rightarrow> ('a \<Rightarrow> 'a) \<Rightarrow> ('a \<Rightarrow> 'a \<Rightarrow> 'a) \<Rightarrow> 'a list \<Rightarrow> 'a \<Rightarrow> 'a list" where
  "list_upsert key ins upd xs x =
     (case find_index (\<lambda>y. key y = key x) xs of
        None \<Rightarrow> xs @ [ins x]
      | Some i \<Rightarrow> xs[i := upd (xs ! i) x])"

fun lookup_by :: "('a \<Rightarrow> 'k) \<Rightarrow> 'a list \<Rightarrow> 'k \<Rightarrow> 'a option" where
  "lookup_by key [] k = None"
| "lookup_by key (x # xs) k = (if key x = k then Some x else lookup_by key xs k)"

text \<open>What one delivery does to the abstract view.\<close>

definition map_upsert ::
    "('a \<Rightarrow> 'k) \<Rightarrow> ('a \<Rightarrow> 'a) \<Rightarrow> ('a \<Rightarrow> 'a \<Rightarrow> 'a) \<Rightarrow> ('k \<Rightarrow> 'a option) \<Rightarrow> 'a \<Rightarrow> ('k \<Rightarrow> 'a option)" where
  "map_upsert key ins upd m x =
     m(key x \<mapsto> (case m (key x) of None \<Rightarrow> ins x | Some y \<Rightarrow> upd y x))"

lemma lookup_by_append:
  "lookup_by key (xs @ ys) k =
     (case lookup_by key xs k of None \<Rightarrow> lookup_by key ys k | Some x \<Rightarrow> Some x)"
  by (induction xs) auto

lemma lookup_by_None: "lookup_by key xs k = None \<longleftrightarrow> k \<notin> key ` set xs"
  by (induction xs) auto

lemma lookup_by_SomeD: "lookup_by key xs k = Some x \<Longrightarrow> x \<in> set xs \<and> key x = k"
  by (induction xs) (auto split: if_splits)

lemma lookup_by_distinct:
  "distinct (map key xs) \<Longrightarrow> x \<in> set xs \<Longrightarrow> lookup_by key xs (key x) = Some x"
  by (induction xs) (auto simp: rev_image_eqI)

lemma lookup_by_find_index:
  "lookup_by key xs k = map_option (\<lambda>i. xs ! i) (find_index (\<lambda>y. key y = k) xs)"
  by (induction xs) (auto simp: option.map_comp comp_def)

lemma lookup_by_mset:
  assumes "distinct (map key xs)" and "mset xs = mset ys"
  shows "lookup_by key xs = lookup_by key ys"
proof
  fix k
  have s: "set xs = set ys" by (rule mset_eq_setD [OF assms(2)])
  have d: "distinct (map key ys)" using assms distinct_map_mset by blast
  show "lookup_by key xs k = lookup_by key ys k"
  proof (cases "lookup_by key xs k")
    case None
    then show ?thesis using s by (metis lookup_by_None)
  next
    case (Some x)
    then have "x \<in> set ys" and "key x = k" using s by (auto dest: lookup_by_SomeD)
    then show ?thesis using d Some lookup_by_distinct by fastforce
  qed
qed

text \<open>A list with distinct keys is determined by the order of its keys and by its lookups.\<close>

lemma list_eq_by_lookup:
  assumes "map key xs = map key ys" and "distinct (map key xs)" and "lookup_by key xs = lookup_by key ys"
  shows "xs = ys"
proof -
  have reread: "zs = map (\<lambda>k. the (lookup_by key zs k)) (map key zs)" if "distinct (map key zs)" for zs
    using that by (simp add: lookup_by_distinct cong: map_cong)
  show ?thesis using reread [of xs] reread [of ys] assms by metis
qed

lemma map_update_same_key: "i < length xs \<Longrightarrow> f y = f (xs ! i) \<Longrightarrow> map f (xs[i := y]) = map f xs"
  by (metis list_update_id map_update)

lemma lookup_by_update:
  assumes "find_index (\<lambda>y. key y = key x) xs = Some i" and "key y = key x"
  shows "lookup_by key (xs[i := y]) = (lookup_by key xs)(key x \<mapsto> y)"
  using assms
  by (induction xs arbitrary: i) (auto simp: fun_eq_iff split: if_splits)

locale keyed_buffer =
  fixes key :: "'a \<Rightarrow> 'k"
    and ins :: "'a \<Rightarrow> 'a"
    and upd :: "'a \<Rightarrow> 'a \<Rightarrow> 'a"
  assumes key_ins: "key (ins x) = key x"
    and key_upd: "key y = key x \<Longrightarrow> key (upd y x) = key y"
begin

lemma keys_upsert:
  "map key (list_upsert key ins upd xs x) =
     (if key x \<in> key ` set xs then map key xs else map key xs @ [key x])"
proof (cases "find_index (\<lambda>y. key y = key x) xs")
  case None
  then have "key x \<notin> key ` set xs" by (auto simp: find_index_None)
  with None show ?thesis by (simp add: list_upsert_def key_ins)
next
  case (Some i)
  then have "i < length xs" and "key (xs ! i) = key x" by (auto dest: find_index_SomeD)
  moreover from this have "key x \<in> key ` set xs" by (metis image_eqI nth_mem)
  ultimately show ?thesis using Some by (simp add: list_upsert_def key_upd map_update_same_key)
qed

lemma distinct_upsert:
  "distinct (map key xs) \<Longrightarrow> distinct (map key (list_upsert key ins upd xs x))"
  by (simp add: keys_upsert)

lemma lookup_upsert:
  "lookup_by key (list_upsert key ins upd xs x) = map_upsert key ins upd (lookup_by key xs) x"
proof (cases "find_index (\<lambda>y. key y = key x) xs")
  case None
  then show ?thesis
    by (auto simp: list_upsert_def map_upsert_def lookup_by_append lookup_by_find_index [of key xs]
        key_ins fun_eq_iff split: option.splits)
next
  case (Some i)
  then have "key (xs ! i) = key x" by (auto dest: find_index_SomeD)
  with Some show ?thesis
    by (simp add: list_upsert_def map_upsert_def lookup_by_update key_upd
        lookup_by_find_index [of key xs "key x"])
qed

lemma distinct_foldl:
  "distinct (map key xs) \<Longrightarrow> distinct (map key (foldl (list_upsert key ins upd) xs ys))"
  by (induction ys arbitrary: xs) (simp_all add: distinct_upsert)

lemma keys_foldl:
  "key ` set (foldl (list_upsert key ins upd) xs ys) = key ` set xs \<union> key ` set ys"
proof (induction ys arbitrary: xs)
  case Nil
  then show ?case by simp
next
  case (Cons y ys)
  have "key ` set (list_upsert key ins upd xs y) = insert (key y) (key ` set xs)"
    using arg_cong [OF keys_upsert [of xs y], of set] by (auto split: if_splits)
  with Cons.IH show ?case by auto
qed

lemma keys_order_foldl:
  "map key (foldl (list_upsert key ins upd) xs ys) =
     map key xs @ uniq_from (map key xs) (map key ys)"
proof (induction ys arbitrary: xs)
  case (Cons y ys)
  then show ?case
    using uniq_from_cong [of "map key xs @ [key y]" "key y # map key xs" "map key ys"]
    by (simp add: keys_upsert)
qed simp

lemma lookup_foldl:
  "lookup_by key (foldl (list_upsert key ins upd) xs ys) =
     foldl (map_upsert key ins upd) (lookup_by key xs) ys"
  by (induction ys arbitrary: xs) (simp_all add: lookup_upsert)

lemma length_foldl:
  assumes "distinct (map key xs)"
  shows "length (foldl (list_upsert key ins upd) xs ys) =
    length xs + card (key ` set ys - key ` set xs)"
proof -
  let ?zs = "foldl (list_upsert key ins upd) xs ys"
  have "length ?zs = card (key ` set ?zs)"
    using distinct_foldl [OF assms, of ys] by (metis distinct_card length_map set_map)
  also have "\<dots> = card (key ` set xs \<union> (key ` set ys - key ` set xs))"
    by (simp add: keys_foldl)
  also have "\<dots> = card (key ` set xs) + card (key ` set ys - key ` set xs)"
    by (rule card_Un_disjoint) auto
  finally show ?thesis using assms by (metis distinct_card length_map set_map)
qed

lemma length_foldl_ge: "length xs \<le> length (foldl (list_upsert key ins upd) xs ys)"
proof (induction ys arbitrary: xs)
  case (Cons y ys)
  have "length xs \<le> length (list_upsert key ins upd xs y)"
    by (auto simp: list_upsert_def split: option.splits)
  also have "\<dots> \<le> length (foldl (list_upsert key ins upd) (list_upsert key ins upd xs y) ys)"
    by (rule Cons.IH)
  finally show ?case by simp
qed simp

end

text \<open>A buffer whose merge absorbs a delivery it has already seen.\<close>

locale absorbing_buffer = keyed_buffer +
  assumes upd_absorb: "key y = key x \<Longrightarrow> upd (upd y x) x = upd y x"
    and ins_absorb: "upd (ins x) x = ins x"
begin

lemma redelivery:
  "list_upsert key ins upd (list_upsert key ins upd xs x) x = list_upsert key ins upd xs x"
proof (cases "find_index (\<lambda>y. key y = key x) xs")
  case None
  then show ?thesis
    by (simp add: list_upsert_def find_index_append key_ins ins_absorb nth_append)
next
  case (Some i)
  then have i: "i < length xs" "key (xs ! i) = key x" by (auto dest: find_index_SomeD)
  have "find_index (\<lambda>y. key y = key x) (xs[i := z]) = Some i" if "key z = key x" for z
    using Some that by (induction xs arbitrary: i) (auto split: if_splits)
  with Some i show ?thesis
    by (simp add: list_upsert_def key_upd upd_absorb)
qed

end

section \<open>Step machines\<close>

text \<open>
  A component driven by events is a start state and a step function; the run of an event list
  is \<open>foldl\<close>. Its invariant holds after any events the guard lets through.
\<close>

locale step_machine =
  fixes start :: 'st
    and step :: "'st \<Rightarrow> 'ev \<Rightarrow> 'st"
    and inv :: "'st \<Rightarrow> bool"
  assumes inv_start: "inv start"
    and inv_step: "inv s \<Longrightarrow> inv (step s e)"
begin

lemma inv_run_from: "inv s \<Longrightarrow> inv (foldl step s es)"
  by (induction es arbitrary: s) (simp_all add: inv_step)

lemma inv_run: "inv (foldl step start es)"
  by (rule inv_run_from) (rule inv_start)

end

section \<open>Codecs\<close>

locale codec =
  fixes enc :: "'a \<Rightarrow> 'c"
    and dec :: "'c \<Rightarrow> 'a option"
    and ok :: "'a \<Rightarrow> bool"
  assumes dec_enc: "ok x \<Longrightarrow> dec (enc x) = Some x"
begin

lemma enc_inj: "ok x \<Longrightarrow> ok y \<Longrightarrow> enc x = enc y \<longleftrightarrow> x = y"
  by (metis dec_enc option.inject)

lemma map_dec_enc: "list_all ok xs \<Longrightarrow> List.map_filter dec (map enc xs) = xs"
  by (induction xs) (simp_all add: dec_enc List.map_filter_simps)

end

text \<open>A codec whose decoder reads one value off the front of a text and returns the rest.\<close>

locale prefix_codec =
  fixes enc :: "'a \<Rightarrow> 'b list"
    and dec :: "'b list \<Rightarrow> ('a \<times> 'b list) option"
  assumes dec_enc_append: "dec (enc x @ r) = Some (x, r)"
begin

lemma enc_append_inj: "enc x @ r = enc y @ s \<longleftrightarrow> x = y \<and> r = s"
  by (metis dec_enc_append option.inject prod.inject)

sublocale whole: codec enc "\<lambda>s. case dec s of Some (x, []) \<Rightarrow> Some x | _ \<Rightarrow> None" "\<lambda>_. True"
  using dec_enc_append [of _ "[]"] by unfold_locales simp

end

section \<open>Grouping\<close>

text \<open>
  The loop over a list that looks a key up in a \<open>Map\<close>, creates the entry when it is missing,
  and updates it: the entries stay in the order their keys first appeared.
\<close>

definition group_into :: "('a \<Rightarrow> 'k) \<Rightarrow> ('k \<Rightarrow> 'b) \<Rightarrow> ('b \<Rightarrow> 'a \<Rightarrow> 'b) \<Rightarrow> 'a list \<Rightarrow> ('k \<times> 'b) list" where
  "group_into key fresh upd xs =
     foldl (\<lambda>m x. AList.update (key x)
        (upd (case map_of m (key x) of None \<Rightarrow> fresh (key x) | Some b \<Rightarrow> b) x) m) [] xs"

lemma uniq_snoc: "uniq (xs @ [x]) = uniq xs @ (if x \<in> set xs then [] else [x])"
  by (simp add: uniq_def uniq_from_append)

lemma update_map_keys:
  "AList.update k v (map (\<lambda>j. (j, f j)) ks) =
     map (\<lambda>j. (j, (f(k := v)) j)) (if k \<in> set ks then ks else ks @ [k])" if "distinct ks"
  using that by (induction ks) auto

lemma group_into_spec:
  "group_into key fresh upd xs =
     map (\<lambda>k. (k, foldl upd (fresh k) (filter (\<lambda>x. key x = k) xs))) (uniq (map key xs))"
proof (induction xs rule: rev_induct)
  case (snoc x xs)
  let ?f = "\<lambda>k. foldl upd (fresh k) (filter (\<lambda>x. key x = k) xs)"
  let ?g = "\<lambda>k. foldl upd (fresh k) (filter (\<lambda>y. key y = k) (xs @ [x]))"
  have "map_of (map (\<lambda>k. (k, ?f k)) (uniq (map key xs))) (key x) =
      (if key x \<in> key ` set xs then Some (?f (key x)) else None)"
    by (simp add: map_of_map_restrict restrict_map_def)
  moreover have "?f (key x) = fresh (key x)" if "key x \<notin> key ` set xs"
  proof -
    have "filter (\<lambda>y. key y = key x) xs = []" using that unfolding filter_empty_conv by (metis image_eqI)
    then show ?thesis by simp
  qed
  ultimately have "group_into key fresh upd (xs @ [x]) =
      AList.update (key x) (upd (?f (key x)) x) (map (\<lambda>k. (k, ?f k)) (uniq (map key xs)))"
    using snoc.IH by (simp add: group_into_def)
  also have "\<dots> = map (\<lambda>k. (k, (?f(key x := upd (?f (key x)) x)) k)) (uniq (map key (xs @ [x])))"
    by (simp add: update_map_keys uniq_snoc)
  also have "\<dots> = map (\<lambda>k. (k, ?g k)) (uniq (map key (xs @ [x])))"
    by (intro map_cong) auto
  finally show ?case .
qed (simp add: group_into_def uniq_def)

end
