(* ===== verification/JsNumber.thy ===== *)
theory JsNumber
  imports Prelude "HOL-Library.Log_Nat"
begin

text \<open>
  Numbers of the language: finite IEEE doubles, represented by the rational they stand for.
  \<open>fl\<close> rounds an exact result to the nearest double, ties to even, with gradual underflow;
  every arithmetic operation of the modelled code that may be inexact is an exact operation
  followed by \<open>fl\<close>. Overflow to infinity and NaN are outside the model: the numbers the
  code reads come from JSON, which has neither. The two zeros are one value, which no
  modelled operation tells apart.
\<close>

type_synonym number = rat

definition pow2 :: "int \<Rightarrow> rat" where
  "pow2 e = (if 0 \<le> e then 2 ^ nat e else 1 / 2 ^ nat (- e))"

text \<open>The exponent of the leading bit of a nonzero rational.\<close>

definition bin_exp :: "rat \<Rightarrow> int" where
  "bin_exp x =
     (let (n, d) = quotient_of \<bar>x\<bar>; e = bitlen n - bitlen d
      in if pow2 e \<le> \<bar>x\<bar> then e else e - 1)"

definition round_half_even :: "rat \<Rightarrow> int" where
  "round_half_even q =
     (let f = \<lfloor>q\<rfloor>; r = q - of_int f
      in if r < 1 / 2 then f else if r > 1 / 2 then f + 1 else if even f then f else f + 1)"

definition fl :: "rat \<Rightarrow> number" where
  "fl x =
     (if x = 0 then 0
      else let e = max (bin_exp x - 52) (- 1074)
           in of_int (round_half_even (x / pow2 e)) * pow2 e)"

definition num_add :: "number \<Rightarrow> number \<Rightarrow> number" where
  "num_add a b = fl (a + b)"

definition num_sub :: "number \<Rightarrow> number \<Rightarrow> number" where
  "num_sub a b = fl (a - b)"

definition num_mul :: "number \<Rightarrow> number \<Rightarrow> number" where
  "num_mul a b = fl (a * b)"

text \<open>Only used where the divisor is not zero; each use states why.\<close>

definition num_div :: "number \<Rightarrow> number \<Rightarrow> number" where
  "num_div a b = fl (a / b)"

text \<open>\<open>Math.round\<close>: the nearest integer, a tie towards plus infinity.\<close>

definition math_round :: "number \<Rightarrow> int" where
  "math_round x = \<lfloor>x + 1 / 2\<rfloor>"

text \<open>\<open>Number(b)\<close> of a bigint.\<close>

definition num_of_bigint :: "int \<Rightarrow> number" where
  "num_of_bigint n = fl (of_int n)"

text \<open>Division of bigints truncates towards zero.\<close>

definition big_div :: "int \<Rightarrow> int \<Rightarrow> int" where
  "big_div a b = sgn a * sgn b * (\<bar>a\<bar> div \<bar>b\<bar>)"

definition big_mod :: "int \<Rightarrow> int \<Rightarrow> int" where
  "big_mod a b = a - b * big_div a b"

definition safe_int :: "int \<Rightarrow> bool" where
  "safe_int n \<longleftrightarrow> \<bar>n\<bar> < 2 ^ 53"

section \<open>Integers below 2 to the 53 are exact\<close>

lemma pow2_pos [simp]: "0 < pow2 e"
  by (simp add: pow2_def)

lemma round_half_even_of_int [simp]: "round_half_even (of_int n) = n"
  by (simp add: round_half_even_def Let_def)

lemma bin_exp_of_int:
  assumes "safe_int n" and "n \<noteq> 0"
  shows "bin_exp (of_int n) \<le> 52"
proof -
  have q: "quotient_of \<bar>of_int n :: rat\<bar> = (\<bar>n\<bar>, 1)"
    using quotient_of_Fract [of "\<bar>n\<bar>" 1] by (simp add: normalize_def Fract_of_int_eq flip: of_int_abs)
  have "\<bar>n\<bar> < 2 ^ 53" using assms(1) by (simp add: safe_int_def)
  then have "bitlen \<bar>n\<bar> \<le> 53" using bitlen_le_iff_power [of "\<bar>n\<bar>" 53] by simp
  moreover have "bitlen 1 = 1" using bitlen_pow2 [of 1 0] by (simp add: bitlen_alt_def)
  moreover have "bin_exp (of_int n) \<le> bitlen \<bar>n\<bar> - bitlen 1"
    unfolding bin_exp_def q Let_def prod.case by (rule if_split [THEN iffD2]) linarith
  ultimately show ?thesis by linarith
qed

lemma fl_of_int [simp]:
  assumes "safe_int n"
  shows "fl (of_int n) = of_int n"
proof (cases "n = 0")
  case False
  let ?e = "max (bin_exp (of_int n) - 52) (- 1074)"
  have e: "?e \<le> 0" using bin_exp_of_int [OF assms False] by simp
  then have "of_int n / pow2 ?e = of_int (n * 2 ^ nat (- ?e))"
    by (auto simp: pow2_def)
  then have "fl (of_int n) = of_int (n * 2 ^ nat (- ?e)) * pow2 ?e"
    using False by (simp add: fl_def Let_def del: of_int_mult)
  also have "\<dots> = of_int n" using e by (auto simp: pow2_def)
  finally show ?thesis .
qed (simp add: fl_def)

lemma num_add_int: "safe_int (a + b) \<Longrightarrow> num_add (of_int a) (of_int b) = of_int (a + b)"
  by (simp add: num_add_def flip: of_int_add)

lemma num_mul_int: "safe_int (a * b) \<Longrightarrow> num_mul (of_int a) (of_int b) = of_int (a * b)"
  by (simp add: num_mul_def flip: of_int_mult)

lemma num_of_bigint_safe [simp]: "safe_int n \<Longrightarrow> num_of_bigint n = of_int n"
  by (simp add: num_of_bigint_def)

lemma fl_zero [simp]: "fl 0 = 0"
  by (simp add: fl_def)

section \<open>Truncating division\<close>

lemma big_div_nonneg: "0 \<le> a \<Longrightarrow> 0 < b \<Longrightarrow> big_div a b = a div b"
  by (cases "a = 0") (simp_all add: big_div_def)

lemma big_div_neg: "a < 0 \<Longrightarrow> 0 < b \<Longrightarrow> big_div a b = - ((- a) div b)"
  by (simp add: big_div_def)

lemma big_mod_zero_iff: "0 < b \<Longrightarrow> big_mod a b = 0 \<longleftrightarrow> b dvd a"
proof (cases "0 \<le> a")
  case True
  assume "0 < b"
  with True show ?thesis
    by (simp add: big_mod_def big_div_nonneg minus_mult_div_eq_mod dvd_eq_mod_eq_0)
next
  case False
  assume b: "0 < b"
  with False have "big_mod a b = - ((- a) mod b)"
    using minus_mult_div_eq_mod [of "- a" b] by (simp add: big_mod_def big_div_neg)
  then show ?thesis by (simp add: dvd_eq_mod_eq_0 [symmetric])
qed

end
