(* ===== verification/Telemetry.thy ===== *)
theory Telemetry
  imports JsNumber
begin

text \<open>
  The telemetry records of \<^verbatim>\<open>types/telemetry.ts\<close>, their wire and view shapes, and the
  normalisation of \<^verbatim>\<open>lib/normalize.ts\<close> that turns one into the other. Field names carry a
  prefix for their interface (\<open>sp\<close> span, \<open>rt\<close> root span, \<open>tr\<close> trace, \<open>dp\<close> data
  point, \<open>mt\<close> metric, \<open>lg\<close> log). Counters are integers, measured quantities are
  \<open>number\<close>, bigints are integers, an optional or nullable field is an option.

  The instant parser of the Temporal polyfill is a parameter: it maps an ISO string to epoch
  nanoseconds, or to \<open>None\<close> where it throws.
\<close>

section \<open>Values of unknown type\<close>

datatype json =
    JNull
  | JBool bool
  | JNum number
  | JStr string
  | JArr "json list"
  | JObj "(string \<times> json) list"

type_synonym attrs = "(string \<times> json) list"

type_synonym instant_parser = "string \<Rightarrow> int option"

section \<open>Spans\<close>

datatype span_status = Unset | Ok | Error

record span_event =
  ev_name :: string
  ev_timestamp :: string
  ev_attributes :: attrs

record span_wire =
  sp_linkCount :: int
  sp_droppedLinksCount :: int
  sp_traceId :: string
  sp_spanId :: string
  sp_parentSpanId :: string
  sp_name :: string
  sp_kind :: string
  sp_serviceName :: string
  sp_startTime :: string
  sp_endTime :: string
  sp_duration :: number
  sp_statusCode :: span_status
  sp_statusMessage :: string
  sp_attributes :: attrs
  sp_events :: "span_event list"
  sp_resource :: attrs

record span = span_wire +
  sp_startEpochNs :: int
  sp_endEpochNs :: int

section \<open>Traces\<close>

record trace_root =
  rt_name :: string
  rt_kind :: string
  rt_statusCode :: span_status
  rt_duration :: number

record trace_summary =
  tr_linkCount :: int
  tr_traceId :: string
  tr_rootSpan :: "trace_root option"
  tr_serviceName :: string
  tr_searchValues :: "string list option"
  tr_spanCount :: int
  tr_startTime :: string
  tr_duration :: number

record trace_wire = trace_summary +
  trw_spans :: "span_wire list"

record trace = trace_summary +
  tr_spans :: "span list"
  tr_startEpochNs :: int

section \<open>Metrics\<close>

record point_wire =
  dp_id :: string
  dp_seriesKey :: string
  dp_timestamp :: string
  dp_value :: number
  dp_cumulative :: "number option"
  dp_count :: "number option"
  dp_countCumulative :: "number option"
  dp_sum :: "number option"
  dp_sumCumulative :: "number option"
  dp_min :: "number option"
  dp_max :: "number option"
  dp_attributes :: attrs

record point = point_wire +
  dp_epochNs :: int

record metric_head =
  mt_name :: string
  mt_description :: string
  mt_unit :: string
  mt_type :: string
  mt_serviceName :: string
  mt_resource :: attrs
  mt_pointCount :: int
  mt_latestValue :: "number option"
  mt_receivedAt :: string

record metric_wire = metric_head +
  mtw_dataPoints :: "point_wire list"

record metric = metric_head +
  mt_dataPoints :: "point list"

section \<open>Logs\<close>

record log_wire =
  lg_id :: string
  lg_timestamp :: string
  lg_observedTimestamp :: string
  lg_traceId :: string
  lg_spanId :: string
  lg_severityNumber :: number
  lg_severityText :: string
  lg_body :: string
  lg_serviceName :: string
  lg_attributes :: attrs
  lg_resource :: attrs

record log = log_wire +
  lg_epochNs :: int

section \<open>Live messages\<close>

record span_ref =
  ref_traceId :: string
  ref_spanId :: string

record trace_delivery = trace_wire +
  trd_linkTargets :: "span_ref list option"

datatype ws_message =
    MsgTraces trace_delivery
  | MsgTraceDeletes string
  | MsgMetrics metric_wire
  | MsgLogs log_wire

section \<open>Normalisation\<close>

fun map_opt :: "('a \<Rightarrow> 'b option) \<Rightarrow> 'a list \<Rightarrow> 'b list option" where
  "map_opt f [] = Some []"
| "map_opt f (x # xs) =
     (case f x of None \<Rightarrow> None | Some y \<Rightarrow> map_option (\<lambda>ys. y # ys) (map_opt f xs))"

definition normalizeSpan :: "instant_parser \<Rightarrow> span_wire \<Rightarrow> span option" where
  "normalizeSpan parse s =
     (case parse (sp_startTime s) of None \<Rightarrow> None
      | Some b \<Rightarrow> (case parse (sp_endTime s) of None \<Rightarrow> None
        | Some e \<Rightarrow> Some (span_wire.extend s (span.fields b e))))"

definition normalizeTrace :: "instant_parser \<Rightarrow> 'x trace_wire_scheme \<Rightarrow> trace option" where
  "normalizeTrace parse t =
     (case map_opt (normalizeSpan parse) (trw_spans t) of None \<Rightarrow> None
      | Some ss \<Rightarrow> (case parse (tr_startTime t) of None \<Rightarrow> None
        | Some b \<Rightarrow> Some (trace_summary.extend (trace_summary.truncate t) (trace.fields ss b))))"

definition normalizeDataPoint :: "instant_parser \<Rightarrow> point_wire \<Rightarrow> point option" where
  "normalizeDataPoint parse p =
     map_option (\<lambda>e. point_wire.extend p (point.fields e)) (parse (dp_timestamp p))"

definition normalizeMetric :: "instant_parser \<Rightarrow> metric_wire \<Rightarrow> metric option" where
  "normalizeMetric parse m =
     map_option (\<lambda>ps. metric_head.extend (metric_head.truncate m) (metric.fields ps))
       (map_opt (normalizeDataPoint parse) (mtw_dataPoints m))"

definition normalizeLog :: "instant_parser \<Rightarrow> log_wire \<Rightarrow> log option" where
  "normalizeLog parse l =
     map_option (\<lambda>e. log_wire.extend l (log.fields e)) (parse (lg_timestamp l))"

text \<open>
  \<^verbatim>\<open>lib/span-mapping.ts\<close>: a span fetched by query reports its duration in milliseconds.
\<close>

definition MS_TO_NS :: number where
  "MS_TO_NS = 1000000"

definition toSpan :: "instant_parser \<Rightarrow> span_wire \<Rightarrow> number \<Rightarrow> span option" where
  "toSpan parse rest durationMs =
     normalizeSpan parse (rest\<lparr>sp_duration := num_mul durationMs MS_TO_NS\<rparr>)"

section \<open>Epochs agree with timestamps\<close>

definition span_epochs_ok :: "instant_parser \<Rightarrow> span \<Rightarrow> bool" where
  "span_epochs_ok parse s \<longleftrightarrow>
     parse (sp_startTime s) = Some (sp_startEpochNs s) \<and> parse (sp_endTime s) = Some (sp_endEpochNs s)"

definition trace_epochs_ok :: "instant_parser \<Rightarrow> trace \<Rightarrow> bool" where
  "trace_epochs_ok parse t \<longleftrightarrow>
     parse (tr_startTime t) = Some (tr_startEpochNs t) \<and> list_all (span_epochs_ok parse) (tr_spans t)"

definition point_epoch_ok :: "instant_parser \<Rightarrow> point \<Rightarrow> bool" where
  "point_epoch_ok parse p \<longleftrightarrow> parse (dp_timestamp p) = Some (dp_epochNs p)"

lemma map_opt_list_all:
  assumes "map_opt f xs = Some ys" and "\<And>x y. f x = Some y \<Longrightarrow> P y"
  shows "list_all P ys"
  using assms(1) by (induction xs arbitrary: ys) (auto split: option.splits intro: assms(2))

lemma map_opt_total: "(\<And>x. x \<in> set xs \<Longrightarrow> f x = Some (g x)) \<Longrightarrow> map_opt f xs = Some (map g xs)"
  by (induction xs) auto

lemma length_map_opt: "map_opt f xs = Some ys \<Longrightarrow> length ys = length xs"
  by (induction xs arbitrary: ys) (auto split: option.splits)

lemma normalizeSpan_ok: "normalizeSpan parse s = Some s' \<Longrightarrow> span_epochs_ok parse s'"
  by (auto simp: normalizeSpan_def span_epochs_ok_def span_wire.defs span.defs split: option.splits)

lemma normalizeTrace_ok: "normalizeTrace parse t = Some t' \<Longrightarrow> trace_epochs_ok parse t'"
  by (auto simp: normalizeTrace_def trace_epochs_ok_def trace_summary.defs trace.defs
      intro: map_opt_list_all normalizeSpan_ok split: option.splits)

lemma normalizeTrace_fields:
  "normalizeTrace parse t = Some t' \<Longrightarrow>
     tr_traceId t' = tr_traceId t \<and> tr_spanCount t' = tr_spanCount t \<and>
     length (tr_spans t') = length (trw_spans t)"
  by (auto simp: normalizeTrace_def trace_summary.defs trace.defs
      dest: length_map_opt split: option.splits)

lemma normalizeDataPoint_ok: "normalizeDataPoint parse p = Some p' \<Longrightarrow> point_epoch_ok parse p'"
  by (auto simp: normalizeDataPoint_def point_epoch_ok_def point_wire.defs point.defs)

lemma normalizeMetric_ok:
  "normalizeMetric parse m = Some m' \<Longrightarrow> list_all (point_epoch_ok parse) (mt_dataPoints m')"
  by (auto simp: normalizeMetric_def metric_head.defs metric.defs
      intro: map_opt_list_all normalizeDataPoint_ok)

end
