(* ===== verification/JsText.thy ===== *)
theory JsText
  imports Prelude
begin

text \<open>
  The string operations of the language that the components share. A string is a list of
  characters of the Latin-1 range, which is HOL's \<open>char\<close>; case folding and white space follow
  the language's tables on that range.
\<close>

section \<open>Characters\<close>

definition char_code :: "char \<Rightarrow> nat" where
  "char_code c = of_char c"

definition js_whitespace :: "char \<Rightarrow> bool" where
  "js_whitespace c \<longleftrightarrow> char_code c \<in> {9, 10, 11, 12, 13, 32, 160}"

text \<open>Upper case letters: \<open>A\<close> to \<open>Z\<close> and the accented range but the multiplication sign.\<close>

definition is_upper :: "char \<Rightarrow> bool" where
  "is_upper c \<longleftrightarrow>
     65 \<le> char_code c \<and> char_code c \<le> 90 \<or>
     192 \<le> char_code c \<and> char_code c \<le> 222 \<and> char_code c \<noteq> 215"

definition lower_char :: "char \<Rightarrow> char" where
  "lower_char c = (if is_upper c then char_of (char_code c + 32) else c)"

section \<open>Strings\<close>

definition toLowerCase :: "string \<Rightarrow> string" where
  "toLowerCase s = map lower_char s"

definition trimStart :: "string \<Rightarrow> string" where
  "trimStart s = dropWhile js_whitespace s"

definition trimEnd :: "string \<Rightarrow> string" where
  "trimEnd s = rev (dropWhile js_whitespace (rev s))"

definition trim :: "string \<Rightarrow> string" where
  "trim s = trimEnd (trimStart s)"

fun startsWith :: "string \<Rightarrow> string \<Rightarrow> bool" where
  "startsWith s [] = True"
| "startsWith [] (_ # _) = False"
| "startsWith (x # s) (y # p) = (x = y \<and> startsWith s p)"

definition endsWith :: "string \<Rightarrow> string \<Rightarrow> bool" where
  "endsWith s p = startsWith (rev s) (rev p)"

fun str_includes :: "string \<Rightarrow> string \<Rightarrow> bool" where
  "str_includes [] p = (p = [])"
| "str_includes (x # s) p = (startsWith (x # s) p \<or> str_includes s p)"

text \<open>\<open>split\<close> at a single character, and \<open>join\<close>.\<close>

fun split_char :: "char \<Rightarrow> string \<Rightarrow> string list" where
  "split_char c [] = [[]]"
| "split_char c (x # s) =
     (if x = c then [] # split_char c s
      else case split_char c s of [] \<Rightarrow> [[x]] | w # ws \<Rightarrow> (x # w) # ws)"

fun join :: "string \<Rightarrow> string list \<Rightarrow> string" where
  "join sep [] = []"
| "join sep [w] = w"
| "join sep (w # v # ws) = w @ sep @ join sep (v # ws)"

section \<open>Lemmas\<close>

lemma startsWith_iff: "startsWith s p \<longleftrightarrow> (\<exists>r. s = p @ r)"
  by (induction s p rule: startsWith.induct) auto

lemma startsWith_append [simp]: "startsWith (p @ r) p"
  by (auto simp: startsWith_iff)

lemma endsWith_iff: "endsWith s p \<longleftrightarrow> (\<exists>r. s = r @ p)"
  unfolding endsWith_def startsWith_iff by (metis rev_append rev_rev_ident)

lemma str_includes_iff: "str_includes s p \<longleftrightarrow> (\<exists>a b. s = a @ p @ b)"
proof (induction s)
  case (Cons x s)
  note IH = Cons.IH
  show ?case
  proof
    assume "str_includes (x # s) p"
    then consider "startsWith (x # s) p" | "str_includes s p" by auto
    then show "\<exists>a b. x # s = a @ p @ b"
    proof cases
      case 1
      then show ?thesis unfolding startsWith_iff by (metis append_Nil)
    next
      case 2
      then show ?thesis unfolding Cons.IH by (metis append_Cons)
    qed
  next
    assume "\<exists>a b. x # s = a @ p @ b"
    then obtain a b where ab: "x # s = a @ p @ b" by blast
    show "str_includes (x # s) p"
    proof (cases a)
      case Nil
      with ab have "startsWith (x # s) p" unfolding startsWith_iff by auto
      then show ?thesis by simp
    next
      case (Cons y a')
      with ab have "\<exists>a b. s = a @ p @ b" by auto
      then show ?thesis using IH by simp
    qed
  qed
qed auto

lemma str_includes_Nil [simp]: "str_includes s []"
  by (cases s) auto

lemma str_includes_self [simp]: "str_includes s s"
  by (metis append_Nil append_Nil2 str_includes_iff)

lemma char_code_less: "char_code c < 256"
  by (simp add: char_code_def)

lemma char_code_of [simp]: "n < 256 \<Longrightarrow> char_code (char_of n) = n"
  by (simp add: char_code_def)

lemma char_of_code [simp]: "char_of (char_code c) = c"
  by (simp add: char_code_def)

lemma char_code_inj [simp]: "char_code a = char_code b \<longleftrightarrow> a = b"
  by (metis char_of_code)

lemma lower_char_code: "char_code (lower_char c) = (if is_upper c then char_code c + 32 else char_code c)"
  by (simp add: lower_char_def is_upper_def)

lemma lower_char_not_upper [simp]: "\<not> is_upper (lower_char c)"
  using lower_char_code [of c] by (auto simp: is_upper_def split: if_splits)

lemma lower_char_idem [simp]: "lower_char (lower_char c) = lower_char c"
  by (subst lower_char_def) simp

lemma toLowerCase_idem [simp]: "toLowerCase (toLowerCase s) = toLowerCase s"
  by (simp add: toLowerCase_def comp_def)

lemma toLowerCase_append [simp]: "toLowerCase (a @ b) = toLowerCase a @ toLowerCase b"
  by (simp add: toLowerCase_def)

lemma toLowerCase_Nil [simp]: "toLowerCase [] = []"
  by (simp add: toLowerCase_def)

lemma length_toLowerCase [simp]: "length (toLowerCase s) = length s"
  by (simp add: toLowerCase_def)

lemma trim_Nil [simp]: "trim [] = []"
  by (simp add: trim_def trimStart_def trimEnd_def)

lemma trim_id: "s = [] \<or> \<not> js_whitespace (hd s) \<and> \<not> js_whitespace (last s) \<Longrightarrow> trim s = s"
proof (cases s)
  case (Cons a t)
  assume "s = [] \<or> \<not> js_whitespace (hd s) \<and> \<not> js_whitespace (last s)"
  with Cons have "\<not> js_whitespace a" and "\<not> js_whitespace (last s)" by simp_all
  moreover from this(2) Cons have "\<not> js_whitespace (hd (rev s))" unfolding hd_rev by simp
  moreover from this Cons have "dropWhile js_whitespace (rev s) = rev s" by (simp add: dropWhile_eq_self_iff)
  ultimately show ?thesis using Cons by (simp add: trim_def trimStart_def trimEnd_def)
qed simp

lemma split_char_not_Nil [simp]: "split_char c s \<noteq> []"
  by (induction s) (auto split: list.splits)

lemma split_char_single: "c \<notin> set s \<Longrightarrow> split_char c s = [s]"
  by (induction s) auto

lemma split_char_append: "c \<notin> set a \<Longrightarrow> split_char c (a @ c # b) = a # split_char c b"
  by (induction a) auto

lemma split_join:
  "ws \<noteq> [] \<Longrightarrow> \<forall>w \<in> set ws. c \<notin> set w \<Longrightarrow> split_char c (join [c] ws) = ws"
  by (induction "[c]" ws rule: join.induct) (simp_all add: split_char_single split_char_append)

lemma join_split: "join [c] (split_char c s) = s"
proof (induction s)
  case (Cons x s)
  then show ?case
    by (cases "split_char c s"; cases "tl (split_char c s)") auto
qed simp

section \<open>Decimal text\<close>

text \<open>\<open>String(n)\<close> of an integer below \<open>1e21\<close>.\<close>

fun nat_text :: "nat \<Rightarrow> string" where
  "nat_text n =
     (if n < 10 then [char_of (48 + n)] else nat_text (n div 10) @ [char_of (48 + n mod 10)])"

declare nat_text.simps [simp del]

definition int_text :: "int \<Rightarrow> string" where
  "int_text i = (if i < 0 then CHR ''-'' # nat_text (nat (- i)) else nat_text (nat i))"

definition digit_char :: "char \<Rightarrow> bool" where
  "digit_char c \<longleftrightarrow> 48 \<le> char_code c \<and> char_code c \<le> 57"

lemma digit_char_of: "k < 10 \<Longrightarrow> digit_char (char_of (48 + k :: nat))"
  by (simp add: digit_char_def)

lemma nat_text_digits: "list_all digit_char (nat_text n)"
proof (induction n rule: nat_text.induct)
  case (1 n)
  show ?case using 1 digit_char_of [of n] digit_char_of [of "n mod 10"] by (subst nat_text.simps) simp
qed

lemma nat_text_nonempty [simp]: "nat_text n \<noteq> []"
  by (subst nat_text.simps) simp

fun nat_of_text :: "nat \<Rightarrow> string \<Rightarrow> nat" where
  "nat_of_text n [] = n"
| "nat_of_text n (c # cs) = nat_of_text (n * 10 + (char_code c - 48)) cs"

lemma nat_of_text_append: "nat_of_text n (a @ b) = nat_of_text (nat_of_text n a) b"
  by (induction a arbitrary: n) simp_all

lemma nat_of_text_text [simp]: "nat_of_text 0 (nat_text n) = n"
  by (induction n rule: nat_text.induct) (subst nat_text.simps, simp add: nat_of_text_append)

lemma nat_text_inj [simp]: "nat_text m = nat_text n \<longleftrightarrow> m = n"
  by (metis nat_of_text_text)

lemma nat_text_head: "nat_text n = c # cs \<Longrightarrow> digit_char c"
  using nat_text_digits [of n] by simp

definition int_of_text :: "string \<Rightarrow> int" where
  "int_of_text s =
     (case s of [] \<Rightarrow> 0
      | c # cs \<Rightarrow> if c = CHR ''-'' then - int (nat_of_text 0 cs) else int (nat_of_text 0 s))"

lemma int_of_text_text [simp]: "int_of_text (int_text i) = i"
proof (cases "i < 0")
  case False
  then obtain c cs where t: "nat_text (nat i) = c # cs" by (cases "nat_text (nat i)") auto
  then have "c \<noteq> CHR ''-''" using nat_text_head [OF t] by (auto simp: digit_char_def char_code_def)
  moreover have "nat_of_text 0 (c # cs) = nat i" unfolding t [symmetric] by (rule nat_of_text_text)
  ultimately show ?thesis using False t by (simp add: int_text_def int_of_text_def del: nat_of_text.simps)
qed (simp add: int_text_def int_of_text_def)

end
