(* ===== verification/TimeWindow.thy ===== *)
theory TimeWindow
  imports JsNumber JsText "HOL-Library.Monad_Syntax"
begin

text \<open>
  Chart ranges and event windows: \<^verbatim>\<open>lib/chart-time-range.ts\<close> and
  \<^verbatim>\<open>lib/event-time-window.ts\<close>. Instants are epoch nanoseconds. The Temporal polyfill is
  the parameter \<open>temporal\<close>: its parser (\<open>None\<close> where \<open>Instant.from\<close> throws) and
  its printer. \<open>Temporal.Now.instant()\<close> is the argument \<open>now\<close>. Functions that may throw
  a RangeError return an option whose \<open>None\<close> is the exception.
\<close>

record temporal =
  inst_parse :: "string \<Rightarrow> int option"
  inst_show :: "int \<Rightarrow> string"

text \<open>The instants the polyfill accepts, and what the code relies on: a printed instant parses back.\<close>

definition max_epoch_ns :: int where
  "max_epoch_ns = 8640000000000000000000"

definition valid_instant :: "int \<Rightarrow> bool" where
  "valid_instant ns \<longleftrightarrow> \<bar>ns\<bar> \<le> max_epoch_ns"

definition temporal_laws :: "temporal \<Rightarrow> bool" where
  "temporal_laws T \<longleftrightarrow>
     (\<forall>ns. valid_instant ns \<longrightarrow> inst_parse T (inst_show T ns) = Some ns) \<and>
     (\<forall>s ns. inst_parse T s = Some ns \<longrightarrow> valid_instant ns)"

text \<open>An instance of these laws: an instant written as its decimal number of nanoseconds.\<close>

definition decimal_temporal :: temporal where
  "decimal_temporal =
     \<lparr>inst_parse = (\<lambda>s. let n = int_of_text s in if valid_instant n then Some n else None),
      inst_show = int_text\<rparr>"

lemma decimal_temporal_laws: "temporal_laws decimal_temporal"
  by (simp add: temporal_laws_def decimal_temporal_def Let_def)

text \<open>
  \<open>instant.add({milliseconds: ms})\<close>: throws for a fractional number of milliseconds and
  outside the valid range.
\<close>

definition inst_add_ms :: "int \<Rightarrow> number \<Rightarrow> int option" where
  "inst_add_ms t ms =
     (if of_int \<lfloor>ms\<rfloor> \<noteq> ms then None
      else let r = t + \<lfloor>ms\<rfloor> * 1000000 in if valid_instant r then Some r else None)"

section \<open>Chart ranges\<close>

datatype chart_range = R1m | R5m | R15m | R30m | R1h | R3h | R6h | R12h | R24h | R3d | RAll

fun range_value :: "chart_range \<Rightarrow> string" where
  "range_value R1m = ''1m''"
| "range_value R5m = ''5m''"
| "range_value R15m = ''15m''"
| "range_value R30m = ''30m''"
| "range_value R1h = ''1h''"
| "range_value R3h = ''3h''"
| "range_value R6h = ''6h''"
| "range_value R12h = ''12h''"
| "range_value R24h = ''24h''"
| "range_value R3d = ''3d''"
| "range_value RAll = ''all''"

definition CHART_TIME_RANGES :: "(chart_range \<times> string) list" where
  "CHART_TIME_RANGES =
    [(R1m, ''1 minute''), (R5m, ''5 minutes''), (R15m, ''15 minutes''), (R30m, ''30 minutes''),
     (R1h, ''1 hour''), (R3h, ''3 hours''), (R6h, ''6 hours''), (R12h, ''12 hours''),
     (R24h, ''1 day''), (R3d, ''3 days''), (RAll, ''All'')]"

fun RANGE_MINUTES :: "chart_range \<Rightarrow> int option" where
  "RANGE_MINUTES R1m = Some 1"
| "RANGE_MINUTES R5m = Some 5"
| "RANGE_MINUTES R15m = Some 15"
| "RANGE_MINUTES R30m = Some 30"
| "RANGE_MINUTES R1h = Some 60"
| "RANGE_MINUTES R3h = Some (3 * 60)"
| "RANGE_MINUTES R6h = Some (6 * 60)"
| "RANGE_MINUTES R12h = Some (12 * 60)"
| "RANGE_MINUTES R24h = Some (24 * 60)"
| "RANGE_MINUTES R3d = Some (3 * 24 * 60)"
| "RANGE_MINUTES RAll = None"

definition DEFAULT_CHART_TIME_RANGE :: chart_range where
  "DEFAULT_CHART_TIME_RANGE = R1h"

definition isChartTimeRange :: "string \<Rightarrow> bool" where
  "isChartTimeRange value = list_ex (\<lambda>r. range_value (fst r) = value) CHART_TIME_RANGES"

text \<open>The range a string that passed \<open>isChartTimeRange\<close> stands for.\<close>

definition range_of_value :: "string \<Rightarrow> chart_range option" where
  "range_of_value value =
     map_option fst (List.find (\<lambda>r. range_value (fst r) = value) CHART_TIME_RANGES)"

definition rangeToMs :: "chart_range \<Rightarrow> int option" where
  "rangeToMs r = map_option (\<lambda>m. m * 60000) (RANGE_MINUTES r)"

definition rangeToFrom :: "temporal \<Rightarrow> int \<Rightarrow> chart_range \<Rightarrow> string option option" where
  "rangeToFrom T now r =
     (case rangeToMs r of None \<Rightarrow> Some None
      | Some ms \<Rightarrow> map_option (\<lambda>t. Some (inst_show T t)) (inst_add_ms now (of_int (- ms))))"

text \<open>Dates are milliseconds; the points are given by their times.\<close>

definition timeRangeDomain :: "int list \<Rightarrow> chart_range \<Rightarrow> (int \<times> int) option" where
  "timeRangeDomain pts r =
     (case pts of [] \<Rightarrow> None
      | t # ts \<Rightarrow>
          let minMs = foldl (\<lambda>m x. if x < m then x else m) t ts;
              maxMs = foldl (\<lambda>m x. if x > m then x else m) t ts
          in (case rangeToMs r of None \<Rightarrow> Some (minMs, maxMs)
              | Some ms \<Rightarrow> Some (maxMs - ms, maxMs)))"

definition TARGET_BUCKETS :: number where "TARGET_BUCKETS = 150"

definition MIN_BUCKET_SECONDS :: int where "MIN_BUCKET_SECONDS = 1"

definition bucketSecondsForDurationMs :: "number \<Rightarrow> int" where
  "bucketSecondsForDurationMs durationMs =
     max MIN_BUCKET_SECONDS (math_round (num_div (num_div durationMs TARGET_BUCKETS) 1000))"

definition bucketSecondsForRange :: "chart_range \<Rightarrow> int option" where
  "bucketSecondsForRange r =
     map_option (\<lambda>ms. bucketSecondsForDurationMs (of_int ms)) (rangeToMs r)"

definition bucketSecondsForDataExtent :: "int list \<Rightarrow> int" where
  "bucketSecondsForDataExtent epochNs =
     (if length epochNs < 2 then MIN_BUCKET_SECONDS
      else let mn = foldl (\<lambda>m ns. if ns < m then ns else m) (hd epochNs) (tl epochNs);
               mx = foldl (\<lambda>m ns. if ns > m then ns else m) (hd epochNs) (tl epochNs);
               seconds = num_div (num_of_bigint (big_div (mx - mn) 1000000000)) TARGET_BUCKETS
           in max MIN_BUCKET_SECONDS \<lfloor>seconds\<rfloor>)"

definition filterPointsInDomain :: "('a \<Rightarrow> int) \<Rightarrow> 'a list \<Rightarrow> int \<times> int \<Rightarrow> 'a list" where
  "filterPointsInDomain time points domain =
     filter (\<lambda>p. time p \<ge> fst domain \<and> time p \<le> snd domain) points"

definition newest_ns :: "(('a \<times> int) list) \<Rightarrow> int option" where
  "newest_ns withNs =
     foldl (\<lambda>m e. case m of None \<Rightarrow> Some (snd e) | Some v \<Rightarrow> if snd e > v then Some (snd e) else Some v)
       None withNs"

definition filterDataPointsInRange :: "('a \<Rightarrow> int) \<Rightarrow> 'a list \<Rightarrow> chart_range \<Rightarrow> 'a list" where
  "filterDataPointsInRange getEpochNs points r =
     (case rangeToMs r of None \<Rightarrow> points
      | Some ms \<Rightarrow>
         if points = [] then points
         else let withNs = map (\<lambda>p. (p, getEpochNs p)) points;
                  minNs = the (newest_ns withNs) - ms * 1000000
              in map fst (filter (\<lambda>e. snd e \<ge> minNs) withNs))"

section \<open>Event windows\<close>

datatype event_window = Live chart_range | Fixed string string

definition DEFAULT_EVENT_TIME_WINDOW :: event_window where
  "DEFAULT_EVENT_TIME_WINDOW = Live DEFAULT_CHART_TIME_RANGE"

text \<open>The bounds: the lower one is absent for the range \<open>all\<close>.\<close>

fun eventWindowBounds :: "temporal \<Rightarrow> int \<Rightarrow> event_window \<Rightarrow> (string option \<times> string) option" where
  "eventWindowBounds T now (Fixed f t) = Some (Some f, t)"
| "eventWindowBounds T now (Live r) =
     (case rangeToMs r of None \<Rightarrow> Some (None, inst_show T now)
      | Some ms \<Rightarrow> map_option (\<lambda>b. (Some (inst_show T b), inst_show T now))
                     (inst_add_ms now (of_int (- ms))))"

fun eventWindowKey :: "event_window \<Rightarrow> string" where
  "eventWindowKey (Live r) = ''live:'' @ range_value r"
| "eventWindowKey (Fixed f t) = ''fixed:'' @ f @ '':'' @ t"

fun eventWindowWidthMs :: "temporal \<Rightarrow> event_window \<Rightarrow> number option" where
  "eventWindowWidthMs T (Live r) =
     Some (of_int (case rangeToMs r of Some ms \<Rightarrow> ms
                   | None \<Rightarrow> the (rangeToMs DEFAULT_CHART_TIME_RANGE)))"
| "eventWindowWidthMs T (Fixed f t) =
     (case inst_parse T t of None \<Rightarrow> None
      | Some tn \<Rightarrow> (case inst_parse T f of None \<Rightarrow> None
          | Some fn \<Rightarrow> Some (num_div (of_int (tn - fn)) 1000000)))"

fun bucketSecondsForEventWindow :: "temporal \<Rightarrow> event_window \<Rightarrow> int option option" where
  "bucketSecondsForEventWindow T (Live r) = Some (bucketSecondsForRange r)"
| "bucketSecondsForEventWindow T (Fixed f t) =
     map_option (\<lambda>w. Some (bucketSecondsForDurationMs w)) (eventWindowWidthMs T (Fixed f t))"

fun eventWindowRange :: "temporal \<Rightarrow> event_window \<Rightarrow> chart_range option option" where
  "eventWindowRange T (Live r) = Some (Some r)"
| "eventWindowRange T (Fixed f t) =
     map_option (\<lambda>widthMs. map_option fst
        (List.find (\<lambda>r. case rangeToMs (fst r) of None \<Rightarrow> False | Some ms \<Rightarrow> of_int ms = widthMs)
           CHART_TIME_RANGES))
       (eventWindowWidthMs T (Fixed f t))"

text \<open>\<open>direction * widthMs\<close> is exact for a direction of 1 or -1. An empty \<open>from\<close> is falsy.\<close>

definition shiftEventWindow :: "temporal \<Rightarrow> int \<Rightarrow> event_window \<Rightarrow> int \<Rightarrow> event_window option" where
  "shiftEventWindow T now w direction =
     do {
       (f, t) \<leftarrow> eventWindowBounds T now w;
       widthMs \<leftarrow> eventWindowWidthMs T w;
       fixedTo \<leftarrow> inst_parse T t;
       fixedFrom \<leftarrow> (case f of
            Some s \<Rightarrow> if s = [] then inst_add_ms fixedTo (- widthMs) else inst_parse T s
          | None \<Rightarrow> inst_add_ms fixedTo (- widthMs));
       from' \<leftarrow> inst_add_ms fixedFrom (of_int direction * widthMs);
       to' \<leftarrow> inst_add_ms fixedTo (of_int direction * widthMs);
       Some (Fixed (inst_show T from') (inst_show T to'))
     }"

definition eventWindowAround :: "temporal \<Rightarrow> int \<Rightarrow> string \<Rightarrow> event_window \<Rightarrow> event_window option" where
  "eventWindowAround T now timestamp source =
     do {
       widthMs \<leftarrow> eventWindowWidthMs T source;
       center \<leftarrow> inst_parse T timestamp;
       let beforeMs = of_int \<lfloor>num_div widthMs 2\<rfloor>;
       centeredTo \<leftarrow> inst_add_ms center (num_sub widthMs beforeMs);
       if (case source of Live _ \<Rightarrow> center \<le> now \<and> centeredTo > now | Fixed _ _ \<Rightarrow> False)
       then map_option (\<lambda>b. Fixed (inst_show T b) (inst_show T now)) (inst_add_ms now (- widthMs))
       else map_option (\<lambda>b. Fixed (inst_show T b) (inst_show T centeredTo))
              (inst_add_ms center (- beforeMs))
     }"

fun eventWindowEquals :: "event_window \<Rightarrow> event_window \<Rightarrow> bool" where
  "eventWindowEquals (Live r) (Live r') = (r = r')"
| "eventWindowEquals (Fixed f t) (Fixed f' t') = (f = f' \<and> t = t')"
| "eventWindowEquals _ _ = False"

fun filterPointsInEventWindow ::
    "temporal \<Rightarrow> ('a \<Rightarrow> int) \<Rightarrow> 'a list \<Rightarrow> event_window \<Rightarrow> 'a list option" where
  "filterPointsInEventWindow T getEpochNs points (Live r) =
     Some (filterDataPointsInRange getEpochNs points r)"
| "filterPointsInEventWindow T getEpochNs points (Fixed f t) =
     (case inst_parse T f of None \<Rightarrow> None
      | Some fromNs \<Rightarrow> (case inst_parse T t of None \<Rightarrow> None
          | Some toNs \<Rightarrow>
              Some (filter (\<lambda>p. getEpochNs p \<ge> fromNs \<and> getEpochNs p < toNs) points)))"

section \<open>Range filtering\<close>

lemma newest_ns_Some:
  "foldl (\<lambda>m e. case m of None \<Rightarrow> Some (snd e) | Some v \<Rightarrow> if snd e > v then Some (snd e) else Some v)
     (Some v) es = Some (Max (insert v (snd ` set es)))"
proof (induction es arbitrary: v)
  case (Cons e es)
  have "Max (insert v (snd ` set (e # es))) = Max (insert (max v (snd e)) (snd ` set es))"
    by (cases "es = []") (simp_all add: ac_simps)
  with Cons.IH [of "max v (snd e)"] show ?case by (auto simp: max_def)
qed simp

lemma newest_ns_Max:
  "ps \<noteq> [] \<Longrightarrow> newest_ns (map (\<lambda>p. (p, g p)) ps) = Some (Max (g ` set ps))"
  by (cases ps) (simp_all add: newest_ns_def newest_ns_Some image_image)

lemma range_filter_reference:
  "filterDataPointsInRange g ps r =
     (case rangeToMs r of None \<Rightarrow> ps
      | Some ms \<Rightarrow> filter (\<lambda>p. g p \<ge> Max (g ` set ps) - ms * 1000000) ps)"
  by (simp add: filterDataPointsInRange_def newest_ns_Max filter_map comp_def Let_def
      split: option.split)

lemma rangeToMs_pos: "rangeToMs r = Some ms \<Longrightarrow> 0 < ms"
  by (cases r) (auto simp: rangeToMs_def)

lemma rangeToMs_le: "rangeToMs r = Some ms \<Longrightarrow> ms \<le> 259200000"
  by (cases r) (auto simp: rangeToMs_def)

lemma newest_kept:
  assumes "p \<in> set ps" and "g p = Max (g ` set ps)"
  shows "p \<in> set (filterDataPointsInRange g ps r)"
  using assms rangeToMs_pos [of r] by (auto simp: range_filter_reference split: option.splits)

lemma Max_range_filter:
  assumes "ps \<noteq> []"
  shows "Max (g ` set (filterDataPointsInRange g ps r)) = Max (g ` set ps)"
proof -
  have "Max (g ` set ps) \<in> g ` set ps" using assms by (intro Max_in) auto
  then obtain p where p: "p \<in> set ps" "g p = Max (g ` set ps)" by auto
  then have "p \<in> set (filterDataPointsInRange g ps r)" by (rule newest_kept)
  moreover have "set (filterDataPointsInRange g ps r) \<subseteq> set ps"
    by (auto simp: range_filter_reference split: option.splits)
  ultimately show ?thesis using p(2)
    by (intro Max_eqI) (auto intro: rev_image_eqI)
qed

lemma range_filter_idem:
  "filterDataPointsInRange g (filterDataPointsInRange g ps r) r = filterDataPointsInRange g ps r"
proof (cases "ps = []")
  case False
  then show ?thesis using Max_range_filter [OF False, of g r]
    by (auto simp: range_filter_reference split: option.splits)
qed (simp add: range_filter_reference split: option.split)

section \<open>Window arithmetic\<close>

lemma inst_add_ms_int:
  "inst_add_ms t (of_int ms) =
     (if valid_instant (t + ms * 1000000) then Some (t + ms * 1000000) else None)"
  by (simp add: inst_add_ms_def Let_def)

lemma inst_add_ms_neg_int:
  "inst_add_ms t (- of_int ms) =
     (if valid_instant (t - ms * 1000000) then Some (t - ms * 1000000) else None)"
  using inst_add_ms_int [of t "- ms"] by simp

lemma parse_show: "temporal_laws T \<Longrightarrow> valid_instant n \<Longrightarrow> inst_parse T (inst_show T n) = Some n"
  by (simp add: temporal_laws_def)

lemma parse_valid: "temporal_laws T \<Longrightarrow> inst_parse T s = Some n \<Longrightarrow> valid_instant n"
  by (simp add: temporal_laws_def)

lemma width_of_ms:
  assumes "inst_parse T f = Some fn" and "inst_parse T t = Some (fn + w * 1000000)" and "safe_int w"
  shows "eventWindowWidthMs T (Fixed f t) = Some (of_int w)"
  using assms by (simp add: num_div_def)

text \<open>Shifting a window of a whole number of milliseconds.\<close>

lemma shift_fixed:
  assumes T: "temporal_laws T"
    and f: "inst_parse T f = Some fn" and t: "inst_parse T t = Some (fn + w * 1000000)"
    and w: "safe_int w"
    and v: "valid_instant (fn + d * w * 1000000)" "valid_instant (fn + (d + 1) * w * 1000000)"
  shows "shiftEventWindow T now (Fixed f t) d =
    Some (Fixed (inst_show T (fn + d * w * 1000000)) (inst_show T (fn + (d + 1) * w * 1000000)))"
proof -
  have e: "fn + w * 1000000 + d * w * 1000000 = fn + (d + 1) * w * 1000000"
    by (simp add: algebra_simps)
  have "valid_instant fn" using T f by (rule parse_valid)
  then show ?thesis
    using f t v width_of_ms [OF f t w]
    by (simp add: shiftEventWindow_def inst_add_ms_neg_int inst_add_ms_int e flip: of_int_mult
        del: eventWindowWidthMs.simps)
qed

lemma floor_half: "\<lfloor>(of_int w :: rat) / 2\<rfloor> = w div 2"
  by (metis floor_divide_of_int_eq of_int_numeral)

end
