(* ===== verification/Store.thy ===== *)
theory Store
  imports Telemetry TimeWindow
begin

text \<open>
  The state of \<^verbatim>\<open>stores/telemetry.ts\<close>: one field per atom, its defaults, and the atoms
  that only set or combine fields. An atom write is a function from the store to the store; the
  reads an atom makes are the field selections of its definition.
\<close>

record buffer_caps =
  cap_traceCap :: int
  cap_metricCap :: int
  cap_logCap :: int
  cap_maxDataPoints :: int

definition DEFAULT_CONFIG :: buffer_caps where
  "DEFAULT_CONFIG =
     \<lparr>cap_traceCap = 1000, cap_metricCap = 3000, cap_logCap = 5000, cap_maxDataPoints = 1000\<rparr>"

datatype ws_status = Connecting | Connected | Disconnected

record metric_search_result =
  msr_search :: string
  msr_items :: "metric list"

record store =
  st_bufferCaps :: buffer_caps
  st_renderWindowMax :: int
  st_wsStatus :: ws_status
  st_traces :: "trace list"
  st_metrics :: "metric list"
  st_logs :: "log list"
  st_traceListWindow :: event_window
  st_logListWindow :: event_window
  st_liveTraceBatch :: "trace list"
  st_totalTraceCount :: int
  st_totalMetricCount :: int
  st_totalLogCount :: int
  st_newTraceCount :: int
  st_removedTraceCount :: int
  st_newMetricCount :: int
  st_newLogCount :: int
  st_serverMatchedTraceIds :: "string set"
  st_serverMatchedLogIds :: "string set"
  st_loadedOlderTraceIds :: "string set"
  st_loadedOlderLogIds :: "string set"
  st_metricSearchResult :: metric_search_result

definition initial_store :: store where
  "initial_store =
     \<lparr>st_bufferCaps = DEFAULT_CONFIG, st_renderWindowMax = 500, st_wsStatus = Disconnected,
      st_traces = [], st_metrics = [], st_logs = [],
      st_traceListWindow = DEFAULT_EVENT_TIME_WINDOW, st_logListWindow = DEFAULT_EVENT_TIME_WINDOW,
      st_liveTraceBatch = [],
      st_totalTraceCount = 0, st_totalMetricCount = 0, st_totalLogCount = 0,
      st_newTraceCount = 0, st_removedTraceCount = 0, st_newMetricCount = 0, st_newLogCount = 0,
      st_serverMatchedTraceIds = {}, st_serverMatchedLogIds = {},
      st_loadedOlderTraceIds = {}, st_loadedOlderLogIds = {},
      st_metricSearchResult = \<lparr>msr_search = [], msr_items = []\<rparr>\<rparr>"

record signal_totals =
  tot_traceCount :: int
  tot_metricCount :: int
  tot_logCount :: int

definition setTotalCounts :: "signal_totals \<Rightarrow> store \<Rightarrow> store" where
  "setTotalCounts totals st =
     st\<lparr>st_totalTraceCount := tot_traceCount totals,
        st_totalMetricCount := tot_metricCount totals,
        st_totalLogCount := tot_logCount totals,
        st_removedTraceCount := 0\<rparr>"

definition setMetrics :: "metric list \<Rightarrow> store \<Rightarrow> store" where
  "setMetrics ms st = st\<lparr>st_metrics := ms\<rparr>"

text \<open>The header badges.\<close>

definition traceCount :: "store \<Rightarrow> int" where
  "traceCount st =
     max 0 (st_totalTraceCount st + st_newTraceCount st - st_removedTraceCount st)"

definition metricCount :: "store \<Rightarrow> int" where
  "metricCount st = st_totalMetricCount st + st_newMetricCount st"

definition logCount :: "store \<Rightarrow> int" where
  "logCount st = st_totalLogCount st + st_newLogCount st"

text \<open>\<open>new Map(xs.map((x, i) => [key(x), i]))\<close>: a later duplicate key overwrites the index.\<close>

definition index_map :: "'k list \<Rightarrow> ('k \<times> nat) list" where
  "index_map ks = foldl (\<lambda>m (k, i). AList.update k i m) [] (zip ks [0..<length ks])"

lemma index_map_snoc: "index_map (ks @ [k]) = AList.update k (length ks) (index_map ks)"
  by (simp add: index_map_def)

lemma map_of_AList_update: "map_of (AList.update k v m) k' = (if k' = k then Some v else map_of m k')"
  by (simp add: update_conv')

lemma find_index_snoc:
  "key x \<notin> key ` set xs \<Longrightarrow>
     find_index (\<lambda>y. key y = k) (xs @ [x]) =
       (if k = key x then Some (length xs) else find_index (\<lambda>y. key y = k) xs)"
proof (induction xs)
  case (Cons y ys)
  then show ?case by (cases "find_index (\<lambda>z. key z = k) ys") auto
qed simp

lemma index_map_push:
  assumes "\<forall>k. map_of m k = find_index (\<lambda>y. key y = k) xs" and "key x \<notin> key ` set xs"
  shows "map_of (AList.update (key x) (length xs) m) k = find_index (\<lambda>y. key y = k) (xs @ [x])"
  using assms(1) by (simp add: map_of_AList_update find_index_snoc [OF assms(2)])

text \<open>With distinct keys the index map points at the entry that carries the key.\<close>

lemma index_map_find:
  "distinct (map key xs) \<Longrightarrow>
     map_of (index_map (map key xs)) k = find_index (\<lambda>y. key y = k) xs"
proof (induction xs arbitrary: k rule: rev_induct)
  case (snoc x xs)
  then have "\<forall>k. map_of (index_map (map key xs)) k = find_index (\<lambda>y. key y = k) xs"
    and "key x \<notin> key ` set xs" by auto
  then show ?case by (simp add: index_map_snoc index_map_push)
qed (simp add: index_map_def)

lemma find_index_update:
  assumes "i < length xs" and "key y = key (xs ! i)"
  shows "find_index (\<lambda>z. key z = k) (xs[i := y]) = find_index (\<lambda>z. key z = k) xs"
  using assms by (induction xs arbitrary: i) (auto simp: nth_Cons split: nat.splits)

end
