(* ===== verification/WsManager.thy ===== *)
theory WsManager
  imports Store
begin

text \<open>
  The WebSocket manager of \<^verbatim>\<open>lib/websocket-manager.ts\<close> and the part of the browser it
  runs in: its sockets with their ready state, its pending timers, and the calls its subscribers
  have received. A handler is a function from the world to the world; \<open>ws_step\<close> runs the
  handler of one browser event or client call. A subscriber is a number, a parsed message a value
  of type \<open>'m\<close>, and \<open>JSON.parse\<close> the parameter \<open>parse\<close>. The two callbacks of
  a subscriber do not call the manager back, as in \<^verbatim>\<open>hooks/use-websocket.ts\<close>.
\<close>

section \<open>The world\<close>

datatype ready_state = CONNECTING | OPEN | CLOSING | CLOSED

record ws_socket =
  sk_readyState :: ready_state
  sk_attached :: bool

datatype ws_timer = ReconnectTimer int | DisconnectTimer

datatype 'm ws_call = OnStatus nat ws_status | OnMessage nat 'm

record 'm ws_world =
  wm_ws :: "nat option"
  wm_subscribers :: "nat list"
  wm_status :: ws_status
  wm_reconnectDelay :: int
  wm_reconnectTimer :: "nat option"
  wm_disconnectTimer :: "nat option"
  wm_initialReconnectDelay :: int
  wm_maxReconnectDelay :: int
  br_sockets :: "ws_socket list"
  br_timers :: "(nat \<times> ws_timer) list"
  br_nextTimer :: nat
  br_calls :: "'m ws_call list"

definition new_manager :: "int option \<Rightarrow> int option \<Rightarrow> 'm ws_world" where
  "new_manager initialDelay maxDelay =
     (let i = (case initialDelay of None \<Rightarrow> 1000 | Some d \<Rightarrow> d);
          m = (case maxDelay of None \<Rightarrow> 30000 | Some d \<Rightarrow> d)
      in \<lparr>wm_ws = None, wm_subscribers = [], wm_status = Disconnected, wm_reconnectDelay = i,
          wm_reconnectTimer = None, wm_disconnectTimer = None, wm_initialReconnectDelay = i,
          wm_maxReconnectDelay = m, br_sockets = [], br_timers = [], br_nextTimer = 0,
          br_calls = []\<rparr>)"

definition clear_timer :: "nat \<Rightarrow> 'm ws_world \<Rightarrow> 'm ws_world" where
  "clear_timer t w = w\<lparr>br_timers := filter (\<lambda>p. fst p \<noteq> t) (br_timers w)\<rparr>"

definition set_timer :: "ws_timer \<Rightarrow> 'm ws_world \<Rightarrow> 'm ws_world" where
  "set_timer k w =
     w\<lparr>br_timers := br_timers w @ [(br_nextTimer w, k)], br_nextTimer := Suc (br_nextTimer w)\<rparr>"

definition set_socket :: "nat \<Rightarrow> (ws_socket \<Rightarrow> ws_socket) \<Rightarrow> 'm ws_world \<Rightarrow> 'm ws_world" where
  "set_socket i f w = w\<lparr>br_sockets := (br_sockets w)[i := f (br_sockets w ! i)]\<rparr>"

section \<open>The manager\<close>

definition setStatus :: "ws_status \<Rightarrow> 'm ws_world \<Rightarrow> 'm ws_world" where
  "setStatus s w =
     w\<lparr>wm_status := s, br_calls := br_calls w @ map (\<lambda>sub. OnStatus sub s) (wm_subscribers w)\<rparr>"

definition ws_connect :: "'m ws_world \<Rightarrow> 'm ws_world" where
  "ws_connect w =
     (let w1 = setStatus Connecting w
      in w1\<lparr>br_sockets := br_sockets w1 @ [\<lparr>sk_readyState = CONNECTING, sk_attached = True\<rparr>],
            wm_ws := Some (length (br_sockets w1))\<rparr>)"

definition scheduleReconnect :: "'m ws_world \<Rightarrow> 'm ws_world" where
  "scheduleReconnect w =
     (let delay = wm_reconnectDelay w
      in (set_timer (ReconnectTimer delay) w)\<lparr>wm_reconnectTimer := Some (br_nextTimer w)\<rparr>)"

definition on_reconnect_timer :: "int \<Rightarrow> 'm ws_world \<Rightarrow> 'm ws_world" where
  "on_reconnect_timer delay w =
     (let w1 = w\<lparr>wm_reconnectTimer := None,
                 wm_reconnectDelay := min (delay * 2) (wm_maxReconnectDelay w)\<rparr>
      in if 0 < length (wm_subscribers w1) \<and> wm_ws w1 = None then ws_connect w1 else w1)"

definition ws_disconnect :: "'m ws_world \<Rightarrow> 'm ws_world" where
  "ws_disconnect w =
     (let w1 = (case wm_reconnectTimer w of
                  None \<Rightarrow> w
                | Some t \<Rightarrow> (clear_timer t w)\<lparr>wm_reconnectTimer := None\<rparr>);
          w2 = (case wm_ws w1 of
                  None \<Rightarrow> w1
                | Some i \<Rightarrow>
                    let detached = set_socket i (\<lambda>s. s\<lparr>sk_attached := False\<rparr>) (w1\<lparr>wm_ws := None\<rparr>)
                    in if sk_readyState (br_sockets w1 ! i) = OPEN \<or>
                          sk_readyState (br_sockets w1 ! i) = CONNECTING
                       then set_socket i (\<lambda>s. s\<lparr>sk_readyState := CLOSING\<rparr>) detached
                       else detached);
          w3 = setStatus Disconnected w2
      in w3\<lparr>wm_reconnectDelay := wm_initialReconnectDelay w3\<rparr>)"

definition subscribe :: "nat \<Rightarrow> 'm ws_world \<Rightarrow> 'm ws_world" where
  "subscribe s w =
     (let w1 = (case wm_disconnectTimer w of
                  None \<Rightarrow> w
                | Some t \<Rightarrow> (clear_timer t w)\<lparr>wm_disconnectTimer := None\<rparr>);
          w2 = w1\<lparr>wm_subscribers :=
                  (if s \<in> set (wm_subscribers w1) then wm_subscribers w1
                   else wm_subscribers w1 @ [s])\<rparr>;
          w3 = w2\<lparr>br_calls := br_calls w2 @ [OnStatus s (wm_status w2)]\<rparr>
      in if length (wm_subscribers w3) = 1 \<and> wm_ws w3 = None then ws_connect w3 else w3)"

text \<open>The function \<open>subscribe\<close> returns, and the timer it sets.\<close>

definition unsubscribe :: "nat \<Rightarrow> 'm ws_world \<Rightarrow> 'm ws_world" where
  "unsubscribe s w =
     (let w1 = w\<lparr>wm_subscribers := filter (\<lambda>x. x \<noteq> s) (wm_subscribers w)\<rparr>
      in if length (wm_subscribers w1) = 0
         then (set_timer DisconnectTimer w1)\<lparr>wm_disconnectTimer := Some (br_nextTimer w1)\<rparr>
         else w1)"

definition on_disconnect_timer :: "'m ws_world \<Rightarrow> 'm ws_world" where
  "on_disconnect_timer w =
     (let w1 = w\<lparr>wm_disconnectTimer := None\<rparr>
      in if length (wm_subscribers w1) = 0 then ws_disconnect w1 else w1)"

definition on_open :: "nat \<Rightarrow> 'm ws_world \<Rightarrow> 'm ws_world" where
  "on_open i w =
     (if wm_ws w \<noteq> Some i then w
      else (setStatus Connected w)\<lparr>wm_reconnectDelay := wm_initialReconnectDelay w\<rparr>)"

definition on_message :: "(string \<Rightarrow> 'm option) \<Rightarrow> nat \<Rightarrow> string \<Rightarrow> 'm ws_world \<Rightarrow> 'm ws_world" where
  "on_message parse i data w =
     (if wm_ws w \<noteq> Some i then w
      else case parse data of
             None \<Rightarrow> w
           | Some msg \<Rightarrow>
               w\<lparr>br_calls := br_calls w @ map (\<lambda>sub. OnMessage sub msg) (wm_subscribers w)\<rparr>)"

definition on_close :: "nat \<Rightarrow> 'm ws_world \<Rightarrow> 'm ws_world" where
  "on_close i w =
     (if wm_ws w \<noteq> Some i then w
      else let w1 = setStatus Disconnected (w\<lparr>wm_ws := None\<rparr>)
           in if length (wm_subscribers w1) > 0 then scheduleReconnect w1 else w1)"

section \<open>Steps\<close>

text \<open>
  The clients' calls and the browser's events. The browser opens a connecting socket, delivers
  messages on an open one, may start closing a socket that is not closed and closes each socket
  once; it calls a handler only while it is attached, and runs a timer that is pending, which
  removes it. An event the browser cannot produce in a world leaves the world as it is.
\<close>

datatype ws_event =
    Subscribe nat
  | Unsubscribe nat
  | SocketOpen nat
  | SocketMessage nat string
  | SocketClosing nat
  | SocketClose nat
  | TimerFires nat

definition socket_at :: "'m ws_world \<Rightarrow> nat \<Rightarrow> ready_state set \<Rightarrow> bool" where
  "socket_at w i S \<longleftrightarrow> i < length (br_sockets w) \<and> sk_readyState (br_sockets w ! i) \<in> S"

fun ws_step :: "(string \<Rightarrow> 'm option) \<Rightarrow> 'm ws_world \<Rightarrow> ws_event \<Rightarrow> 'm ws_world" where
  "ws_step parse w (Subscribe s) = subscribe s w"
| "ws_step parse w (Unsubscribe s) = unsubscribe s w"
| "ws_step parse w (SocketOpen i) =
     (if socket_at w i {CONNECTING}
      then let w1 = set_socket i (\<lambda>s. s\<lparr>sk_readyState := OPEN\<rparr>) w
           in if sk_attached (br_sockets w ! i) then on_open i w1 else w1
      else w)"
| "ws_step parse w (SocketMessage i data) =
     (if socket_at w i {OPEN, CLOSING} \<and> sk_attached (br_sockets w ! i)
      then on_message parse i data w else w)"
| "ws_step parse w (SocketClosing i) =
     (if socket_at w i {CONNECTING, OPEN}
      then set_socket i (\<lambda>s. s\<lparr>sk_readyState := CLOSING\<rparr>) w else w)"
| "ws_step parse w (SocketClose i) =
     (if socket_at w i {CONNECTING, OPEN, CLOSING}
      then let w1 = set_socket i (\<lambda>s. s\<lparr>sk_readyState := CLOSED\<rparr>) w
           in if sk_attached (br_sockets w ! i) then on_close i w1 else w1
      else w)"
| "ws_step parse w (TimerFires t) =
     (case map_of (br_timers w) t of
        None \<Rightarrow> w
      | Some (ReconnectTimer delay) \<Rightarrow> on_reconnect_timer delay (clear_timer t w)
      | Some DisconnectTimer \<Rightarrow> on_disconnect_timer (clear_timer t w))"

definition ws_run :: "(string \<Rightarrow> 'm option) \<Rightarrow> 'm ws_world \<Rightarrow> ws_event list \<Rightarrow> 'm ws_world" where
  "ws_run parse w es = foldl (ws_step parse) w es"

section \<open>Invariants\<close>

lemmas ws_defs =
  setStatus_def ws_connect_def scheduleReconnect_def on_reconnect_timer_def ws_disconnect_def
  subscribe_def unsubscribe_def on_disconnect_timer_def on_open_def on_message_def on_close_def
  clear_timer_def set_timer_def set_socket_def Let_def

text \<open>
  A socket is the manager's exactly while its handlers are attached and it is not closed, and a
  socket that is connecting or open has its handlers attached.
\<close>

definition slot_ok :: "nat option \<Rightarrow> nat \<Rightarrow> ws_socket \<Rightarrow> bool" where
  "slot_ok ws k s \<longleftrightarrow>
     (ws = Some k \<longleftrightarrow> sk_attached s \<and> sk_readyState s \<noteq> CLOSED) \<and>
     (sk_readyState s \<in> {CONNECTING, OPEN} \<longrightarrow> sk_attached s)"

definition slots_ok :: "nat option \<Rightarrow> ws_socket list \<Rightarrow> bool" where
  "slots_ok ws ss \<longleftrightarrow>
     (\<forall>k < length ss. slot_ok ws k (ss ! k)) \<and> (\<forall>k. ws = Some k \<longrightarrow> k < length ss)"

abbreviation sockets_ok :: "'m ws_world \<Rightarrow> bool" where
  "sockets_ok w \<equiv> slots_ok (wm_ws w) (br_sockets w)"

definition shows_status :: "ready_state \<Rightarrow> ws_status \<Rightarrow> bool" where
  "shows_status r s \<longleftrightarrow>
     s \<noteq> Disconnected \<and> (r = CONNECTING \<longrightarrow> s = Connecting) \<and> (r = OPEN \<longrightarrow> s = Connected)"

definition status_ok :: "'m ws_world \<Rightarrow> bool" where
  "status_ok w \<longleftrightarrow>
     (case wm_ws w of
        None \<Rightarrow> wm_status w = Disconnected
      | Some k \<Rightarrow> shows_status (sk_readyState (br_sockets w ! k)) (wm_status w))"

lemma slot_ok_other: "slot_ok ws k s \<Longrightarrow> ws \<noteq> Some k \<Longrightarrow> ws' \<noteq> Some k \<Longrightarrow> slot_ok ws' k s"
  unfolding slot_ok_def by blast

lemma slots_ok_new:
  assumes "slots_ok None ss"
  shows "slots_ok (Some (length ss)) (ss @ [\<lparr>sk_readyState = CONNECTING, sk_attached = True\<rparr>])"
proof -
  have "slot_ok (Some (length ss)) k (ss ! k)" if "k < length ss" for k
    by (rule slot_ok_other [of None]) (use assms that in \<open>simp_all add: slots_ok_def\<close>)
  moreover have "slot_ok (Some (length ss)) (length ss) \<lparr>sk_readyState = CONNECTING, sk_attached = True\<rparr>"
    by (simp add: slot_ok_def)
  ultimately show ?thesis by (simp add: slots_ok_def nth_append less_Suc_eq)
qed

lemma slots_ok_keep:
  assumes "slots_ok ws ss" and "slot_ok ws k s"
  shows "slots_ok ws (ss[k := s])"
proof -
  have "slot_ok ws j (ss[k := s] ! j)" if "j < length ss" for j
    using assms that by (cases "j = k") (simp_all add: slots_ok_def)
  with assms show ?thesis by (simp add: slots_ok_def)
qed

lemma slots_ok_drop:
  assumes "slots_ok (Some k) ss" and "\<not> sk_attached s \<or> sk_readyState s = CLOSED"
    and "sk_readyState s \<notin> {CONNECTING, OPEN}"
  shows "slots_ok None (ss[k := s])"
proof -
  have "slot_ok None j (ss[k := s] ! j)" if "j < length ss" for j
  proof (cases "j = k")
    case True
    with assms(2,3) that show ?thesis by (auto simp: slot_ok_def)
  next
    case False
    with assms(1) that have "slot_ok (Some k) j (ss ! j)" by (simp add: slots_ok_def)
    with False have "slot_ok None j (ss ! j)" by (elim slot_ok_other) simp_all
    with False show ?thesis by simp
  qed
  then show ?thesis by (simp add: slots_ok_def)
qed

lemma slots_ok_at: "slots_ok ws ss \<Longrightarrow> k < length ss \<Longrightarrow> slot_ok ws k (ss ! k)"
  by (simp add: slots_ok_def)

text \<open>Both halves of the socket invariant, handler by handler.\<close>

definition conn_ok :: "'m ws_world \<Rightarrow> bool" where
  "conn_ok w \<longleftrightarrow> sockets_ok w \<and> status_ok w"

lemma conn_ok_same:
  "conn_ok w \<Longrightarrow> wm_ws w' = wm_ws w \<Longrightarrow> br_sockets w' = br_sockets w \<Longrightarrow>
     wm_status w' = wm_status w \<Longrightarrow> conn_ok w'"
  by (simp add: conn_ok_def status_ok_def split: option.splits)

lemma conn_ok_clear_timer: "conn_ok w \<Longrightarrow> conn_ok (clear_timer t w)"
  by (rule conn_ok_same) (simp_all add: clear_timer_def)

lemma conn_ok_connect: "conn_ok w \<Longrightarrow> wm_ws w = None \<Longrightarrow> conn_ok (ws_connect w)"
  by (simp add: conn_ok_def status_ok_def ws_connect_def setStatus_def slots_ok_new shows_status_def)

lemma conn_ok_on_reconnect:
  assumes "conn_ok w"
  shows "conn_ok (on_reconnect_timer d w)"
proof -
  have "conn_ok (w\<lparr>wm_reconnectTimer := x, wm_reconnectDelay := y\<rparr>)" for x y
    by (rule conn_ok_same [OF assms]) simp_all
  then show ?thesis unfolding on_reconnect_timer_def Let_def by (simp add: conn_ok_connect)
qed

lemma conn_ok_ws_disconnect:
  assumes "conn_ok w"
  shows "conn_ok (ws_disconnect w)"
proof (cases "wm_ws w")
  case None
  with assms show ?thesis
    by (simp add: conn_ok_def status_ok_def ws_disconnect_def setStatus_def clear_timer_def Let_def
        split: option.splits)
next
  case (Some k)
  with assms have "slots_ok (Some k) (br_sockets w)" and "k < length (br_sockets w)"
      and "sk_readyState (br_sockets w ! k) \<noteq> CLOSED"
    by (auto simp: conn_ok_def slots_ok_def slot_ok_def)
  with Some show ?thesis
    by (cases "wm_reconnectTimer w"; cases "sk_readyState (br_sockets w ! k)")
      (simp_all add: conn_ok_def status_ok_def ws_disconnect_def setStatus_def clear_timer_def
        set_socket_def Let_def slots_ok_drop)
qed

lemma conn_ok_on_disconnect:
  assumes "conn_ok w"
  shows "conn_ok (on_disconnect_timer w)"
proof -
  have "conn_ok (w\<lparr>wm_disconnectTimer := x\<rparr>)" for x
    by (rule conn_ok_same [OF assms]) simp_all
  then show ?thesis unfolding on_disconnect_timer_def Let_def by (simp add: conn_ok_ws_disconnect)
qed

lemma conn_ok_subscribe:
  assumes "conn_ok w"
  shows "conn_ok (subscribe s w)"
proof -
  show ?thesis
    unfolding subscribe_def Let_def
    by (split if_split, intro conjI impI)
      ((rule conn_ok_connect)?; (rule conn_ok_same [OF assms])?;
        simp add: clear_timer_def split: option.split option.split_asm)+
qed

lemma conn_ok_unsubscribe:
  assumes "conn_ok w"
  shows "conn_ok (unsubscribe s w)"
  by (rule conn_ok_same [OF assms]) (simp_all add: unsubscribe_def Let_def set_timer_def)

lemma conn_ok_on_message:
  assumes "conn_ok w"
  shows "conn_ok (on_message parse i d w)"
  by (rule conn_ok_same [OF assms]) (simp_all add: on_message_def split: option.splits)

lemma conn_ok_step:
  assumes "conn_ok w"
  shows "conn_ok (ws_step parse w e)"
proof (cases e)
  case (SocketOpen i)
  show ?thesis
  proof (cases "socket_at w i {CONNECTING}")
    case True
    with assms have "slot_ok (wm_ws w) i (br_sockets w ! i)" "i < length (br_sockets w)"
        "sk_readyState (br_sockets w ! i) = CONNECTING"
      by (auto simp: conn_ok_def socket_at_def intro: slots_ok_at)
    with SocketOpen assms show ?thesis
      by (auto simp: conn_ok_def status_ok_def on_open_def setStatus_def set_socket_def socket_at_def
          Let_def slot_ok_def shows_status_def intro!: slots_ok_keep)
  qed (use SocketOpen assms in simp)
next
  case (SocketClosing i)
  show ?thesis
  proof (cases "socket_at w i {CONNECTING, OPEN}")
    case True
    with assms have "slot_ok (wm_ws w) i (br_sockets w ! i)" "i < length (br_sockets w)"
        "sk_readyState (br_sockets w ! i) \<in> {CONNECTING, OPEN}"
      by (auto simp: conn_ok_def socket_at_def intro: slots_ok_at)
    then have "slot_ok (wm_ws w) i ((br_sockets w ! i)\<lparr>sk_readyState := CLOSING\<rparr>)"
      by (auto simp: slot_ok_def)
    with SocketClosing assms True show ?thesis
      by (auto simp: conn_ok_def status_ok_def set_socket_def shows_status_def nth_list_update
          slots_ok_keep socket_at_def split: option.splits)
  qed (use SocketClosing assms in simp)
next
  case (SocketClose i)
  show ?thesis
  proof (cases "socket_at w i {CONNECTING, OPEN, CLOSING}")
    case True
    with assms have "slot_ok (wm_ws w) i (br_sockets w ! i)" "i < length (br_sockets w)"
        "sk_readyState (br_sockets w ! i) \<noteq> CLOSED"
      by (auto simp: conn_ok_def socket_at_def intro: slots_ok_at)
    note slot = this
    show ?thesis
    proof (cases "wm_ws w = Some i")
      case own: True
      with slot assms have "sk_attached (br_sockets w ! i)"
          and "slots_ok None ((br_sockets w)[i := (br_sockets w ! i)\<lparr>sk_readyState := CLOSED\<rparr>])"
        by (auto simp: slot_ok_def conn_ok_def intro: slots_ok_drop)
      with own SocketClose True show ?thesis
        by (simp add: conn_ok_def status_ok_def set_socket_def on_close_def setStatus_def
            scheduleReconnect_def set_timer_def Let_def)
    next
      case False
      with slot have "\<not> sk_attached (br_sockets w ! i)"
          and "slot_ok (wm_ws w) i ((br_sockets w ! i)\<lparr>sk_readyState := CLOSED\<rparr>)"
        by (auto simp: slot_ok_def)
      with False SocketClose assms True show ?thesis
        by (auto simp: conn_ok_def status_ok_def set_socket_def slots_ok_keep split: option.splits)
    qed
  qed (use SocketClose assms in simp)
next
  case (SocketMessage i d)
  with assms show ?thesis by (simp add: conn_ok_on_message)
next
  case (TimerFires t)
  with assms show ?thesis
    by (simp add: conn_ok_on_reconnect conn_ok_on_disconnect conn_ok_clear_timer
        split: option.split ws_timer.split)
qed (use assms in \<open>simp_all add: conn_ok_subscribe conn_ok_unsubscribe\<close>)

text \<open>Pending timers: distinct numbers below the next one.\<close>

definition timers_ok :: "'m ws_world \<Rightarrow> bool" where
  "timers_ok w \<longleftrightarrow>
     distinct (map fst (br_timers w)) \<and> (\<forall>t \<in> fst ` set (br_timers w). t < br_nextTimer w)"

text \<open>
  Service: while somebody is subscribed there is a socket or a retry on its way, and a socket that
  nobody is subscribed to any more is about to be given up.
\<close>

definition service_ok :: "'m ws_world \<Rightarrow> bool" where
  "service_ok w \<longleftrightarrow>
     distinct (wm_subscribers w) \<and>
     (wm_disconnectTimer w \<noteq> None \<longrightarrow> wm_subscribers w = []) \<and>
     (wm_subscribers w \<noteq> [] \<longrightarrow>
        wm_ws w \<noteq> None \<or> (\<exists>t d. (t, ReconnectTimer d) \<in> set (br_timers w))) \<and>
     (wm_subscribers w = [] \<and> wm_ws w \<noteq> None \<longrightarrow> (\<exists>t. (t, DisconnectTimer) \<in> set (br_timers w)))"

definition delay_ok :: "int \<Rightarrow> int \<Rightarrow> 'm ws_world \<Rightarrow> bool" where
  "delay_ok i m w \<longleftrightarrow>
     wm_initialReconnectDelay w = i \<and> wm_maxReconnectDelay w = m \<and>
     i \<le> wm_reconnectDelay w \<and> wm_reconnectDelay w \<le> m \<and>
     (\<forall>t d. (t, ReconnectTimer d) \<in> set (br_timers w) \<longrightarrow> i \<le> d \<and> d \<le> m)"

lemma timers_ok_clear [simp]: "timers_ok w \<Longrightarrow> timers_ok (clear_timer t w)"
  by (auto simp: timers_ok_def clear_timer_def distinct_map_filter)

lemma timers_ok_same: "timers_ok w \<Longrightarrow> br_timers w' = br_timers w \<Longrightarrow> br_nextTimer w' = br_nextTimer w \<Longrightarrow> timers_ok w'"
  by (simp add: timers_ok_def)

lemma timers_ok_set [simp]: "timers_ok w \<Longrightarrow> timers_ok (set_timer k w)"
  by (auto simp: timers_ok_def set_timer_def less_SucI)

lemma other_timer_stays:
  assumes "timers_ok w" and "map_of (br_timers w) t = Some k" and "(t', k') \<in> set (br_timers w)" and "k' \<noteq> k"
  shows "(t', k') \<in> set (br_timers (clear_timer t w))"
proof -
  have "map_of (br_timers w) t' = Some k'" using assms(1,3) by (simp add: timers_ok_def)
  with assms(2,4) have "t' \<noteq> t" by auto
  with assms(3) show ?thesis by (simp add: clear_timer_def)
qed

lemma timer_frames [simp]:
  "br_timers (setStatus x w) = br_timers w" "br_nextTimer (setStatus x w) = br_nextTimer w"
  "br_timers (ws_connect w) = br_timers w" "br_nextTimer (ws_connect w) = br_nextTimer w"
  "br_timers (set_socket i f w) = br_timers w" "br_nextTimer (set_socket i f w) = br_nextTimer w"
  "br_timers (on_open i w) = br_timers w" "br_nextTimer (on_open i w) = br_nextTimer w"
  "br_timers (on_message parse i d w) = br_timers w" "br_nextTimer (on_message parse i d w) = br_nextTimer w"
  "br_timers (on_reconnect_timer delay w) = br_timers w" "br_nextTimer (on_reconnect_timer delay w) = br_nextTimer w"
  by (simp_all add: ws_defs split: option.split)

lemma timers_ok_handlers:
  assumes "timers_ok w"
  shows "timers_ok (setStatus x w)" and "timers_ok (set_socket i f w)" and "timers_ok (on_open i w)"
    and "timers_ok (on_message parse i d w)" and "timers_ok (on_reconnect_timer delay w)"
    and "timers_ok (on_close i w)" and "timers_ok (on_disconnect_timer w)"
    and "timers_ok (subscribe s w)" and "timers_ok (unsubscribe s w)"
proof -
  have clear: "timers_ok (clear_timer t w)" and set: "timers_ok (set_timer k w)" for t k
    using assms by simp_all
  show "timers_ok (setStatus x w)" "timers_ok (set_socket i f w)" "timers_ok (on_open i w)"
      "timers_ok (on_message parse i d w)" "timers_ok (on_reconnect_timer delay w)"
    by (rule timers_ok_same [OF assms]; simp)+
  show "timers_ok (on_close i w)"
    using assms set by (auto simp: timers_ok_def on_close_def scheduleReconnect_def set_timer_def Let_def)
  show "timers_ok (unsubscribe s w)"
    using assms set by (auto simp: timers_ok_def unsubscribe_def set_timer_def Let_def)
  show "timers_ok (on_disconnect_timer w)"
    using assms clear
    by (auto simp: timers_ok_def on_disconnect_timer_def ws_disconnect_def clear_timer_def Let_def
        split: option.split)
  show "timers_ok (subscribe s w)"
    using assms clear
    by (auto simp: timers_ok_def subscribe_def clear_timer_def Let_def split: option.split)
qed

lemma timers_ok_step:
  assumes "timers_ok w"
  shows "timers_ok (ws_step parse w e)"
  using assms
  by (cases e) (simp_all add: timers_ok_handlers Let_def split: option.split ws_timer.split)

lemma delay_ok_same:
  "delay_ok i m w \<Longrightarrow> wm_initialReconnectDelay w' = wm_initialReconnectDelay w \<Longrightarrow>
     wm_maxReconnectDelay w' = wm_maxReconnectDelay w \<Longrightarrow>
     wm_reconnectDelay w' \<in> {wm_reconnectDelay w, wm_initialReconnectDelay w} \<Longrightarrow>
     set (br_timers w') \<subseteq> set (br_timers w) \<union> UNIV \<times> {DisconnectTimer, ReconnectTimer (wm_reconnectDelay w)} \<Longrightarrow>
     delay_ok i m w'"
  unfolding delay_ok_def by fastforce

lemma delay_ok_step:
  assumes "0 \<le> i" and "i \<le> m" and ok: "delay_ok i m w"
  shows "delay_ok i m (ws_step parse w e)"
proof (cases e)
  case (TimerFires t)
  show ?thesis
  proof (cases "map_of (br_timers w) t")
    case None
    with TimerFires ok show ?thesis by simp
  next
    case (Some k)
    show ?thesis
    proof (cases k)
      case (ReconnectTimer d)
      with Some ok have "i \<le> d" "d \<le> m" by (auto simp: delay_ok_def dest: map_of_SomeD)
      with Some ReconnectTimer TimerFires ok assms(1,2) show ?thesis
        by (auto simp: delay_ok_def on_reconnect_timer_def ws_connect_def setStatus_def clear_timer_def Let_def)
    next
      case DisconnectTimer
      with Some TimerFires show ?thesis
        by (auto simp: ws_defs split: option.split intro!: delay_ok_same [OF ok])
    qed
  qed
qed (auto simp: ws_defs split: option.split intro!: delay_ok_same [OF ok])

lemma service_ok_subscribe:
  assumes "service_ok w"
  shows "service_ok (subscribe s w)"
proof (cases "wm_subscribers w = []")
  case True
  with assms show ?thesis
    by (cases "wm_disconnectTimer w")
      (auto simp: service_ok_def subscribe_def clear_timer_def ws_connect_def setStatus_def Let_def)
next
  case False
  with assms have "wm_disconnectTimer w = None" by (auto simp: service_ok_def)
  with assms False show ?thesis
    by (auto simp: service_ok_def subscribe_def ws_connect_def setStatus_def Let_def)
qed

lemma service_ok_unsubscribe: "service_ok w \<Longrightarrow> service_ok (unsubscribe s w)"
  by (auto simp: service_ok_def unsubscribe_def set_timer_def Let_def)

lemma service_ok_on_close: "service_ok w \<Longrightarrow> service_ok (on_close i w)"
  by (auto simp: service_ok_def on_close_def setStatus_def scheduleReconnect_def set_timer_def Let_def)

lemma service_ok_same:
  "service_ok w \<Longrightarrow> wm_subscribers w' = wm_subscribers w \<Longrightarrow> wm_disconnectTimer w' = wm_disconnectTimer w \<Longrightarrow>
     wm_ws w' = wm_ws w \<Longrightarrow> br_timers w' = br_timers w \<Longrightarrow> service_ok w'"
  by (simp add: service_ok_def)

lemma service_ok_on_reconnect:
  assumes ok: "service_ok w" and t: "timers_ok w" "map_of (br_timers w) t = Some (ReconnectTimer d)"
  shows "service_ok (on_reconnect_timer d (clear_timer t w))"
proof -
  have "\<exists>t'. (t', DisconnectTimer) \<in> set (br_timers (clear_timer t w))"
    if "wm_subscribers w = []" "wm_ws w \<noteq> None"
    using ok that other_timer_stays [OF t] by (fastforce simp: service_ok_def)
  with ok show ?thesis
    by (auto simp: service_ok_def on_reconnect_timer_def ws_connect_def setStatus_def clear_timer_def Let_def)
qed

lemma service_ok_on_disconnect:
  assumes ok: "service_ok w" and t: "timers_ok w" "map_of (br_timers w) t = Some DisconnectTimer"
  shows "service_ok (on_disconnect_timer (clear_timer t w))"
proof (cases "wm_subscribers w = []")
  case True
  with ok show ?thesis
    by (auto simp: service_ok_def on_disconnect_timer_def ws_disconnect_def setStatus_def
        clear_timer_def set_socket_def Let_def split: option.split)
next
  case False
  then have "wm_ws w \<noteq> None \<or> (\<exists>t' d. (t', ReconnectTimer d) \<in> set (br_timers (clear_timer t w)))"
    using ok other_timer_stays [OF t] by (fastforce simp: service_ok_def)
  with ok False show ?thesis
    by (auto simp: service_ok_def on_disconnect_timer_def clear_timer_def Let_def)
qed

lemma service_ok_step:
  assumes ok: "service_ok w" and "timers_ok w"
  shows "service_ok (ws_step parse w e)"
proof (cases e)
  case (SocketOpen i)
  with ok show ?thesis
    by (auto simp: on_open_def setStatus_def set_socket_def Let_def intro!: service_ok_same [OF ok])
next
  case (SocketMessage i d)
  with ok show ?thesis
    by (auto simp: on_message_def intro!: service_ok_same [OF ok] split: option.split)
next
  case (SocketClosing i)
  with ok show ?thesis by (auto simp: set_socket_def intro!: service_ok_same [OF ok])
next
  case (SocketClose i)
  have "service_ok (set_socket i f w)" for f
    by (rule service_ok_same [OF ok]) (simp_all add: set_socket_def)
  with SocketClose ok show ?thesis by (simp add: service_ok_on_close Let_def)
qed (use assms in \<open>simp_all add: service_ok_subscribe service_ok_unsubscribe service_ok_on_reconnect
      service_ok_on_disconnect split: option.split ws_timer.split\<close>)

section \<open>The machine\<close>

definition ws_inv :: "int \<Rightarrow> int \<Rightarrow> 'm ws_world \<Rightarrow> bool" where
  "ws_inv i m w \<longleftrightarrow> conn_ok w \<and> timers_ok w \<and> service_ok w \<and> delay_ok i m w"

lemma ws_inv_start: "i \<le> m \<Longrightarrow> ws_inv i m (new_manager (Some i) (Some m))"
  by (simp add: ws_inv_def conn_ok_def slots_ok_def status_ok_def timers_ok_def service_ok_def
      delay_ok_def new_manager_def)

lemma ws_inv_step: "0 \<le> i \<Longrightarrow> i \<le> m \<Longrightarrow> ws_inv i m w \<Longrightarrow> ws_inv i m (ws_step parse w e)"
  by (simp add: ws_inv_def conn_ok_step timers_ok_step service_ok_step delay_ok_step)

text \<open>The manager of the application is built with the default delays.\<close>

interpretation ws_machine: step_machine "new_manager None None" "ws_step parse" "ws_inv 1000 30000"
  for parse :: "string \<Rightarrow> 'm option"
proof unfold_locales
  show "ws_inv 1000 30000 (new_manager None None)"
    using ws_inv_start [of 1000 30000] by (simp add: new_manager_def)
qed (simp add: ws_inv_step)

section \<open>Properties\<close>

lemma ws_inv_run: "ws_inv 1000 30000 (ws_run parse (new_manager None None) es)"
  unfolding ws_run_def by (rule ws_machine.inv_run)


lemmas ws_eval = ws_run_def new_manager_def ws_defs socket_at_def


text \<open>C6: while somebody is subscribed, the manager holds a socket or a retry is pending whose delay
  lies between one and thirty seconds; a socket held for nobody has its disconnect pending.\<close>

theorem ws_service:
  "(wm_subscribers (ws_run parse (new_manager None None) es) \<noteq> [] \<longrightarrow>
      wm_ws (ws_run parse (new_manager None None) es) \<noteq> None \<or>
      (\<exists>t d. (t, ReconnectTimer d) \<in> set (br_timers (ws_run parse (new_manager None None) es)) \<and>
         1000 \<le> d \<and> d \<le> 30000)) \<and>
   (wm_subscribers (ws_run parse (new_manager None None) es) = [] \<and>
      wm_ws (ws_run parse (new_manager None None) es) \<noteq> None \<longrightarrow>
      (\<exists>t. (t, DisconnectTimer) \<in> set (br_timers (ws_run parse (new_manager None None) es))))"
  using ws_inv_run [of parse es] unfolding ws_inv_def service_ok_def delay_ok_def by blast

theorem ws_service_witness:
  "\<exists>t d. (t, ReconnectTimer d) \<in>
     set (br_timers (ws_run Some (new_manager None None) [Subscribe 0, SocketClose 0]))"
  using ws_service [of Some "[Subscribe 0, SocketClose 0]"] by (simp add: ws_eval)

text \<open>A connection attempt that fails: the held socket closes, and the retry's timer fires.\<close>

definition fail_round :: "(string \<Rightarrow> 'm option) \<Rightarrow> 'm ws_world \<Rightarrow> 'm ws_world" where
  "fail_round parse w =
     (case wm_ws w of
        None \<Rightarrow> w
      | Some k \<Rightarrow> ws_run parse w [SocketClose k, TimerFires (br_nextTimer w)])"

lemma map_of_snoc_fresh: "timers_ok w \<Longrightarrow> map_of (br_timers w) (br_nextTimer w) = None"
  by (auto simp: timers_ok_def map_of_eq_None_iff)

lemma fail_round_reconnects:
  assumes inv: "ws_inv i m w" and subs: "wm_subscribers w \<noteq> []" and ws: "wm_ws w \<noteq> None"
  shows "wm_ws (fail_round parse w) = Some (length (br_sockets w)) \<and>
    wm_reconnectDelay (fail_round parse w) = min (2 * wm_reconnectDelay w) m \<and>
    wm_subscribers (fail_round parse w) = wm_subscribers w \<and>
    br_timers (fail_round parse w) = br_timers w \<and>
    wm_status (fail_round parse w) = Connecting"
proof -
  obtain k where k: "wm_ws w = Some k" using ws by blast
  have slot: "slot_ok (wm_ws w) k (br_sockets w ! k)" "k < length (br_sockets w)"
    using inv k by (auto simp: ws_inv_def conn_ok_def slots_ok_def)
  then have "socket_at w k {CONNECTING, OPEN, CLOSING}" "sk_attached (br_sockets w ! k)"
    using k by (auto simp: slot_ok_def socket_at_def intro: ready_state.exhaust)
  moreover have "map_of (br_timers w) (br_nextTimer w) = None"
    using inv by (simp add: ws_inv_def map_of_snoc_fresh)
  moreover from this have "filter (\<lambda>p. fst p \<noteq> br_nextTimer w) (br_timers w) = br_timers w"
    by (force simp: map_of_eq_None_iff filter_id_conv)
  moreover have "wm_maxReconnectDelay w = m" using inv by (simp add: ws_inv_def delay_ok_def)
  ultimately show ?thesis
    using k subs by (simp add: fail_round_def ws_run_def ws_defs map_add_def)
qed

lemma ws_inv_fail_round:
  "0 \<le> i \<Longrightarrow> i \<le> m \<Longrightarrow> ws_inv i m w \<Longrightarrow> ws_inv i m (fail_round parse w)"
  by (simp add: fail_round_def ws_run_def ws_inv_step del: ws_step.simps split: option.split)

text \<open>After \<open>n\<close> failed attempts in a row somebody is still being served by a new attempt, and
  the next delay is the first one doubled \<open>n\<close> times, held at the maximum.\<close>

theorem ws_backoff:
  assumes "0 \<le> i" and "i \<le> m" and "ws_inv i m w" and "wm_subscribers w \<noteq> []" and "wm_ws w \<noteq> None"
  shows "wm_reconnectDelay ((fail_round parse ^^ n) w) = min (2 ^ n * wm_reconnectDelay w) m \<and>
    wm_ws ((fail_round parse ^^ n) w) \<noteq> None \<and> br_timers ((fail_round parse ^^ n) w) = br_timers w \<and>
    wm_subscribers ((fail_round parse ^^ n) w) = wm_subscribers w \<and> ws_inv i m ((fail_round parse ^^ n) w)"
proof (induction n)
  case 0
  have "wm_reconnectDelay w \<le> m" using assms(3) by (simp add: ws_inv_def delay_ok_def)
  with assms show ?case by simp
next
  case (Suc n)
  let ?w = "(fail_round parse ^^ n) w"
  have "wm_reconnectDelay (fail_round parse ?w) = min (2 * wm_reconnectDelay ?w) m"
      "wm_ws (fail_round parse ?w) \<noteq> None" "br_timers (fail_round parse ?w) = br_timers ?w"
      "wm_subscribers (fail_round parse ?w) = wm_subscribers ?w" "ws_inv i m (fail_round parse ?w)"
    using Suc.IH fail_round_reconnects [of i m ?w parse] ws_inv_fail_round [of i m ?w parse] assms(1,2,4)
    by simp_all
  with Suc.IH assms(1,2) show ?case by (auto simp: min_def)
qed

theorem ws_backoff_witness:
  "wm_reconnectDelay ((fail_round Some ^^ 5) (ws_run Some (new_manager None None) [Subscribe 0])) = 30000"
proof -
  let ?w = "ws_run Some (new_manager None None) [Subscribe 0]"
  have "wm_subscribers ?w \<noteq> []" "wm_ws ?w \<noteq> None" "wm_reconnectDelay ?w = 1000"
    by (simp_all add: ws_eval)
  with ws_backoff [of 1000 30000 ?w, where n = 5 and parse = Some] ws_inv_run [of Some "[Subscribe 0]"]
  show ?thesis by simp
qed

text \<open>An event of a socket the manager has given up changes nothing but that socket: no field
  of the manager, no timer, no call to a subscriber; a message on the held socket reaches every
  subscriber once, in the order they subscribed, and a text that does not parse reaches nobody.\<close>

theorem ws_stale_events:
  assumes "ws_inv i m w"
  shows "(wm_ws w \<noteq> Some k \<longrightarrow>
      (\<forall>e \<in> {SocketOpen k, SocketMessage k data, SocketClosing k, SocketClose k}.
         ws_step parse w e = w\<lparr>br_sockets := br_sockets (ws_step parse w e)\<rparr>)) \<and>
    (wm_ws w = Some k \<longrightarrow> sk_readyState (br_sockets w ! k) = OPEN \<longrightarrow>
      br_calls (ws_step parse w (SocketMessage k data)) =
        br_calls w @ (case parse data of None \<Rightarrow> []
                      | Some msg \<Rightarrow> map (\<lambda>sub. OnMessage sub msg) (wm_subscribers w)))"
proof (intro conjI impI)
  assume "wm_ws w \<noteq> Some k"
  then show "\<forall>e \<in> {SocketOpen k, SocketMessage k data, SocketClosing k, SocketClose k}.
         ws_step parse w e = w\<lparr>br_sockets := br_sockets (ws_step parse w e)\<rparr>"
    by (auto simp: on_open_def on_message_def on_close_def set_socket_def Let_def)
next
  assume "wm_ws w = Some k" and "sk_readyState (br_sockets w ! k) = OPEN"
  moreover from this assms have "k < length (br_sockets w)" "sk_attached (br_sockets w ! k)"
    by (auto simp: ws_inv_def conn_ok_def slots_ok_def slot_ok_def)
  ultimately show "br_calls (ws_step parse w (SocketMessage k data)) =
        br_calls w @ (case parse data of None \<Rightarrow> []
                      | Some msg \<Rightarrow> map (\<lambda>sub. OnMessage sub msg) (wm_subscribers w))"
    by (simp add: socket_at_def on_message_def split: option.split)
qed

theorem ws_stale_events_witness:
  "br_calls (ws_step Some (ws_run Some (new_manager None None) [Subscribe 4, SocketOpen 0])
     (SocketMessage 0 ''x'')) =
   [OnStatus 4 Disconnected, OnStatus 4 Connecting, OnStatus 4 Connected, OnMessage 4 ''x'']"
  using ws_stale_events [OF ws_inv_run [of Some "[Subscribe 4, SocketOpen 0]"], of 0 "''x''" Some]
  by (simp add: ws_eval)

text \<open>A remount rescues the connection: when the only subscriber leaves and another arrives
  before the timer fires, the socket, its state, the status and the pending timers are those of
  before, and the only call made is the status told to the newcomer; when nobody arrives and the
  timer fires, the socket is detached and closing, the retry timer the manager knows is cleared and
  the delay is the initial one.\<close>

theorem ws_remount:
  assumes "ws_inv i m w" and "wm_subscribers w = [s]" and "wm_ws w = Some k"
  shows "subscribe s' (unsubscribe s w) =
      w\<lparr>wm_subscribers := [s'], br_calls := br_calls w @ [OnStatus s' (wm_status w)],
        br_nextTimer := Suc (br_nextTimer w)\<rparr> \<and>
    wm_ws (ws_run parse w [Unsubscribe s, TimerFires (br_nextTimer w)]) = None \<and>
    sk_readyState (br_sockets (ws_run parse w [Unsubscribe s, TimerFires (br_nextTimer w)]) ! k) = CLOSING \<and>
    \<not> sk_attached (br_sockets (ws_run parse w [Unsubscribe s, TimerFires (br_nextTimer w)]) ! k) \<and>
    wm_reconnectTimer (ws_run parse w [Unsubscribe s, TimerFires (br_nextTimer w)]) = None \<and>
    wm_reconnectDelay (ws_run parse w [Unsubscribe s, TimerFires (br_nextTimer w)]) = i \<and>
    br_calls (ws_run parse w [Unsubscribe s, TimerFires (br_nextTimer w)]) = br_calls w"
proof -
  have none: "map_of (br_timers w) (br_nextTimer w) = None"
    using assms(1) by (simp add: ws_inv_def map_of_snoc_fresh)
  have keep: "filter (\<lambda>p. fst p \<noteq> br_nextTimer w) (br_timers w) = br_timers w"
    using none by (force simp: map_of_eq_None_iff filter_id_conv)
  have "wm_disconnectTimer w = None" using assms by (auto simp: ws_inv_def service_ok_def)
  then have "subscribe s' (unsubscribe s w) =
      w\<lparr>wm_subscribers := [s'], br_calls := br_calls w @ [OnStatus s' (wm_status w)],
        br_nextTimer := Suc (br_nextTimer w)\<rparr>"
    using assms(2,3) keep by (simp add: subscribe_def unsubscribe_def set_timer_def clear_timer_def Let_def)
  moreover have slot: "k < length (br_sockets w)" "sk_attached (br_sockets w ! k)"
      "sk_readyState (br_sockets w ! k) \<noteq> CLOSED"
    using assms(1,3) by (auto simp: ws_inv_def conn_ok_def slots_ok_def slot_ok_def)
  moreover have "wm_initialReconnectDelay w = i" using assms(1) by (simp add: ws_inv_def delay_ok_def)
  ultimately show ?thesis
    using assms(2,3) none keep
    by (cases "sk_readyState (br_sockets w ! k)"; cases "wm_reconnectTimer w")
      (simp_all add: ws_run_def unsubscribe_def on_disconnect_timer_def ws_disconnect_def setStatus_def
        set_timer_def clear_timer_def set_socket_def Let_def map_add_def)
qed

theorem ws_remount_witness:
  "wm_ws (ws_run Some (ws_run Some (new_manager None None) [Subscribe 0, SocketOpen 0])
     [Unsubscribe 0, TimerFires 0]) = None"
proof -
  let ?w = "ws_run Some (new_manager None None) [Subscribe 0, SocketOpen 0]"
  have "wm_subscribers ?w = [0]" "wm_ws ?w = Some 0" "br_nextTimer ?w = 0" by (simp_all add: ws_eval)
  with ws_remount [OF ws_inv_run [of Some "[Subscribe 0, SocketOpen 0]"], of 0 0, where parse = Some]
  show ?thesis by simp
qed

text \<open>A retry timer that is pending when a new subscriber makes the manager connect at once is
  not cancelled: it fires later and doubles the delay of a healthy connection; and if that
  connection closes first, its own retry replaces the handle of the old one, which then survives
  the teardown.\<close>

theorem ws_stale_retry:
  "let w = ws_run parse (new_manager None None)
         [Subscribe 0, SocketClose 0, Unsubscribe 0, Subscribe 0, SocketOpen 1, TimerFires 0]
   in wm_status w = Connected \<and> wm_ws w = Some 1 \<and> wm_reconnectDelay w = 2000 \<and>
     (let v = ws_run parse (new_manager None None)
         [Subscribe 0, SocketClose 0, Unsubscribe 0, Subscribe 0, SocketClose 1, Unsubscribe 0, TimerFires 3]
      in wm_subscribers v = [] \<and> wm_reconnectTimer v = None \<and> br_timers v = [(0, ReconnectTimer 1000)])"
  by (simp add: ws_eval)

end
