(* ===== verification/JsonText.thy ===== *)
theory JsonText
  imports Prelude
begin

text \<open>
  The text of JSON strings as \<open>JSON.stringify\<close> writes it and \<open>JSON.parse\<close> reads it. A
  string is a list of code units; the model's alphabet is the code units below 256 (type
  \<open>char\<close>), so an escape for a larger code unit is read as an error.
\<close>

abbreviation (input) quote_char :: char where "quote_char \<equiv> CHR 0x22"
abbreviation (input) backslash :: char where "backslash \<equiv> CHR 0x5C"

definition code_unit :: "char \<Rightarrow> nat" where
  "code_unit c = of_char c"

definition hex_digit :: "nat \<Rightarrow> char" where
  "hex_digit n = (if n < 10 then char_of (48 + n) else char_of (87 + n))"

definition hex_value :: "char \<Rightarrow> nat option" where
  "hex_value c =
     (let n = code_unit c
      in if 48 \<le> n \<and> n \<le> 57 then Some (n - 48)
         else if 97 \<le> n \<and> n \<le> 102 then Some (n - 87)
         else if 65 \<le> n \<and> n \<le> 70 then Some (n - 55)
         else None)"

text \<open>The escape of one character inside a JSON string literal.\<close>

definition json_escape :: "char \<Rightarrow> string" where
  "json_escape c =
     (if c = quote_char then [backslash, quote_char]
      else if c = backslash then [backslash, backslash]
      else if c = CHR 0x08 then [backslash, CHR ''b'']
      else if c = CHR 0x0C then [backslash, CHR ''f'']
      else if c = CHR 0x0A then [backslash, CHR ''n'']
      else if c = CHR 0x0D then [backslash, CHR ''r'']
      else if c = CHR 0x09 then [backslash, CHR ''t'']
      else if code_unit c < 32
      then [backslash, CHR ''u'', CHR ''0'', CHR ''0'',
            hex_digit (code_unit c div 16), hex_digit (code_unit c mod 16)]
      else [c])"

definition json_quote :: "string \<Rightarrow> string" where
  "json_quote s = quote_char # concat (map json_escape s) @ [quote_char]"

definition json_unescape :: "char \<Rightarrow> char option" where
  "json_unescape e =
     (if e = quote_char \<or> e = backslash \<or> e = CHR ''/'' then Some e
      else if e = CHR ''b'' then Some (CHR 0x08)
      else if e = CHR ''f'' then Some (CHR 0x0C)
      else if e = CHR ''n'' then Some (CHR 0x0A)
      else if e = CHR ''r'' then Some (CHR 0x0D)
      else if e = CHR ''t'' then Some (CHR 0x09)
      else None)"

definition hex4 :: "char \<Rightarrow> char \<Rightarrow> char \<Rightarrow> char \<Rightarrow> char option" where
  "hex4 a b c d =
     (case (hex_value a, hex_value b, hex_value c, hex_value d) of
        (Some w, Some x, Some y, Some z) \<Rightarrow>
          (let n = 4096 * w + 256 * x + 16 * y + z in if n < 256 then Some (char_of n) else None)
      | _ \<Rightarrow> None)"

text \<open>The body of a string literal up to its closing quote, and what follows it.\<close>

fun parse_string_body :: "string \<Rightarrow> (string \<times> string) option" where
  "parse_string_body [] = None"
| "parse_string_body (c # cs) =
     (if c = quote_char then Some ([], cs)
      else if c = backslash then
        (case cs of
           [] \<Rightarrow> None
         | e # es \<Rightarrow>
             if e = CHR ''u'' then
               (case es of
                  h1 # h2 # h3 # h4 # rest \<Rightarrow>
                    (case hex4 h1 h2 h3 h4 of None \<Rightarrow> None
                     | Some x \<Rightarrow> map_option (apfst ((#) x)) (parse_string_body rest))
                | _ \<Rightarrow> None)
             else
               (case json_unescape e of None \<Rightarrow> None
                | Some x \<Rightarrow> map_option (apfst ((#) x)) (parse_string_body es)))
      else if code_unit c < 32 then None
      else map_option (apfst ((#) c)) (parse_string_body cs))"

fun parse_string_literal :: "string \<Rightarrow> (string \<times> string) option" where
  "parse_string_literal [] = None"
| "parse_string_literal (c # cs) = (if c = quote_char then parse_string_body cs else None)"

definition json_space :: "char \<Rightarrow> bool" where
  "json_space c \<longleftrightarrow> c \<in> {CHR '' '', CHR 0x09, CHR 0x0A, CHR 0x0D}"

text \<open>\<open>JSON.parse\<close> of a text that starts with a double quote; \<open>None\<close> is the SyntaxError.\<close>

definition json_parse_string :: "string \<Rightarrow> string option" where
  "json_parse_string s =
     (case parse_string_literal s of
        Some (x, rest) \<Rightarrow> if list_all json_space rest then Some x else None
      | None \<Rightarrow> None)"

section \<open>Round trip\<close>

lemma code_unit_less [simp]: "code_unit c < 256"
  by (simp add: code_unit_def)

lemma hex_digit_value: "n < 16 \<Longrightarrow> hex_value (hex_digit n) = Some n"
  by (auto simp: hex_value_def hex_digit_def code_unit_def Let_def)

lemma hex_zero: "hex_value (CHR ''0'') = Some 0"
  by (simp add: hex_value_def code_unit_def)

lemma hex4_code_unit:
  "code_unit c < 32 \<Longrightarrow>
     hex4 (CHR ''0'') (CHR ''0'') (hex_digit (code_unit c div 16)) (hex_digit (code_unit c mod 16)) =
       Some c"
  by (simp add: hex4_def hex_zero hex_digit_value Let_def) (simp add: code_unit_def)

lemma parse_escape:
  "parse_string_body (json_escape c @ r) = map_option (apfst ((#) c)) (parse_string_body r)"
  by (simp add: json_escape_def json_unescape_def hex4_code_unit)

lemma parse_body_quote:
  "parse_string_body (concat (map json_escape s) @ quote_char # r) = Some (s, r)"
  by (induction s) (simp_all add: parse_escape)

declare parse_string_body.simps(2) [simp del]

interpretation json_string: prefix_codec json_quote parse_string_literal
  by unfold_locales (simp add: json_quote_def parse_body_quote)

lemma json_parse_quote: "json_parse_string (json_quote s) = Some s"
  using json_string.dec_enc_append [of s "[]"] by (simp add: json_parse_string_def)

end
