(* ===== verification/MetricCatalog.thy ===== *)
theory MetricCatalog
  imports Telemetry JsonText JsText
begin

text \<open>
  The metric catalog of \<^verbatim>\<open>lib/metric-catalog.ts\<close>: the rule table, section by section, the
  unit lookup, and the discovery of facets from the attributes of the data points. The text of a
  number inside JSON is the parameter \<open>num_text\<close>, the collation of the sort \<open>localeCompare\<close>
  the parameter \<open>lc\<close>.
\<close>

section \<open>JSON text of a value\<close>

fun json_text :: "(number \<Rightarrow> string) \<Rightarrow> json \<Rightarrow> string" where
  "json_text num_text JNull = ''null''"
| "json_text num_text (JBool b) = (if b then ''true'' else ''false'')"
| "json_text num_text (JNum n) = num_text n"
| "json_text num_text (JStr s) = json_quote s"
| "json_text num_text (JArr js) = ''['' @ join '','' (map (json_text num_text) js) @ '']''"
| "json_text num_text (JObj kvs) =
     ''{'' @ join '','' (map (\<lambda>(k, v). json_quote k @ '':'' @ json_text num_text v) kvs) @ ''}''"

section \<open>The table\<close>

definition DISTRIBUTION_METRIC_TYPES :: "string list" where
  "DISTRIBUTION_METRIC_TYPES = [''Histogram'', ''Summary'', ''ExponentialHistogram'']"

definition isDistributionMetric :: "string \<Rightarrow> bool" where
  "isDistributionMetric type \<longleftrightarrow> type \<in> set DISTRIBUTION_METRIC_TYPES"

record metric_facet =
  fc_attributes :: "string list"
  fc_label :: string

record metric_rule =
  mr_pattern :: string
  mr_unit :: "string option"
  mr_keys :: "metric_facet list option"

definition facet :: "string list \<Rightarrow> string \<Rightarrow> metric_facet" where
  "facet attributes label = \<lparr>fc_attributes = attributes, fc_label = label\<rparr>"

definition rule :: "string \<Rightarrow> string option \<Rightarrow> metric_facet list option \<Rightarrow> metric_rule" where
  "rule pattern unit keys = \<lparr>mr_pattern = pattern, mr_unit = unit, mr_keys = keys\<rparr>"

definition ATTRIBUTE_LABELS :: "(string \<times> string) list" where
  "ATTRIBUTE_LABELS =
    [(''http.request.method'', ''Method''),
     (''http.route'', ''Route''),
     (''http.response.status_code'', ''Status''),
     (''server.address'', ''Host''),
     (''server.port'', ''Port''),
     (''url.scheme'', ''Scheme''),
     (''db.operation.name'', ''Operation''),
     (''db.collection.name'', ''Collection''),
     (''db.namespace'', ''Namespace''),
     (''db.system.name'', ''System''),
     (''db.client.connection.pool.name'', ''Pool''),
     (''db.client.connection.state'', ''State''),
     (''rpc.service'', ''Service''),
     (''rpc.method'', ''Method''),
     (''messaging.destination.name'', ''Destination''),
     (''messaging.system'', ''System''),
     (''messaging.operation.name'', ''Operation''),
     (''gen_ai.operation.name'', ''Operation''),
     (''gen_ai.request.model'', ''Model''),
     (''gen_ai.token.type'', ''Token Type''),
     (''faas.trigger'', ''Trigger''),
     (''jvm.memory.pool.name'', ''Pool''),
     (''jvm.memory.type'', ''Type''),
     (''jvm.gc.name'', ''GC''),
     (''jvm.gc.action'', ''Action''),
     (''jvm.thread.state'', ''State''),
     (''jvm.thread.daemon'', ''Daemon''),
     (''cpu.mode'', ''Mode''),
     (''system.cpu.logical_number'', ''CPU''),
     (''system.memory.state'', ''State''),
     (''system.paging.state'', ''State''),
     (''system.filesystem.state'', ''State''),
     (''system.device'', ''Device''),
     (''network.io.direction'', ''Direction''),
     (''disk.io.direction'', ''Direction''),
     (''k8s.namespace.name'', ''Namespace''),
     (''k8s.pod.name'', ''Pod''),
     (''k8s.container.name'', ''Container''),
     (''k8s.node.name'', ''Node''),
     (''go.memory.type'', ''Type''),
     (''aspnetcore.routing.match_status'', ''Status''),
     (''otel.component.type'', ''Exporter'')]"

definition rules_http_server :: "metric_rule list" where
  "rules_http_server =
    [rule ''http.server.request.duration'' (Some ''s'') (Some [facet [''http.request.method'', ''http.route''] ''Method + Route'']),
     rule ''http.server.request.body.size'' (Some ''By'') (Some [facet [''http.request.method'', ''http.route''] ''Method + Route'']),
     rule ''http.server.response.body.size'' (Some ''By'') (Some [facet [''http.request.method'', ''http.route''] ''Method + Route'']),
     rule ''http.server.active_requests'' None (Some [facet [''http.request.method'', ''http.route''] ''Method + Route'']),
     rule ''http.server.'' None (Some [facet [''http.request.method'', ''http.route''] ''Method + Route''])]"

definition rules_http_client :: "metric_rule list" where
  "rules_http_client =
    [rule ''http.client.request.duration'' (Some ''s'') (Some [facet [''http.request.method'', ''server.address''] ''Method + Host'']),
     rule ''http.client.request.body.size'' (Some ''By'') None,
     rule ''http.client.response.body.size'' (Some ''By'') None,
     rule ''http.client.'' (Some ''s'') None]"

definition rules_database :: "metric_rule list" where
  "rules_database =
    [rule ''db.client.operation.duration'' (Some ''s'') (Some [facet [''db.operation.name'', ''db.collection.name''] ''Operation + Collection'']),
     rule ''db.client.connection.'' None None]"

definition rules_rpc :: "metric_rule list" where
  "rules_rpc =
    [rule ''rpc.server.call.duration'' (Some ''s'') (Some [facet [''rpc.service'', ''rpc.method''] ''Service + Method'']),
     rule ''rpc.client.call.duration'' (Some ''s'') (Some [facet [''rpc.service'', ''rpc.method''] ''Service + Method''])]"

definition rules_messaging :: "metric_rule list" where
  "rules_messaging =
    [rule ''messaging.client.operation.duration'' (Some ''s'') (Some [facet [''messaging.operation.name'', ''messaging.destination.name''] ''Operation + Destination'']),
     rule ''messaging.process.duration'' (Some ''s'') None,
     rule ''messaging.client.sent.messages'' None None,
     rule ''messaging.client.consumed.messages'' None None]"

definition rules_genai :: "metric_rule list" where
  "rules_genai =
    [rule ''gen_ai.client.operation.duration'' (Some ''s'') (Some [facet [''gen_ai.operation.name'', ''gen_ai.request.model''] ''Operation + Model'']),
     rule ''gen_ai.client.token.usage'' (Some ''{token}'') (Some [facet [''gen_ai.token.type'', ''gen_ai.request.model''] ''Token Type + Model'']),
     rule ''gen_ai.server.request.duration'' (Some ''s'') (Some [facet [''gen_ai.operation.name'', ''gen_ai.request.model''] ''Operation + Model''])]"

definition rules_faas :: "metric_rule list" where
  "rules_faas =
    [rule ''faas.invoke_duration'' (Some ''s'') None,
     rule ''faas.init_duration'' (Some ''s'') None,
     rule ''faas.invocations'' None None,
     rule ''faas.errors'' None None]"

definition rules_jvm :: "metric_rule list" where
  "rules_jvm =
    [rule ''jvm.memory.used'' (Some ''By'') None,
     rule ''jvm.memory.committed'' (Some ''By'') None,
     rule ''jvm.memory.limit'' (Some ''By'') None,
     rule ''jvm.gc.duration'' (Some ''s'') (Some [facet [''jvm.gc.name'', ''jvm.gc.action''] ''GC + Action'']),
     rule ''jvm.thread.count'' None None,
     rule ''jvm.cpu.time'' (Some ''s'') None]"

definition rules_node_js :: "metric_rule list" where
  "rules_node_js =
    [rule ''nodejs.eventloop.utilization'' (Some ''1'') None,
     rule ''nodejs.eventloop.time'' (Some ''s'') None]"

definition rules_go :: "metric_rule list" where
  "rules_go =
    [rule ''go.memory.used'' (Some ''By'') None,
     rule ''go.memory.allocated'' (Some ''By'') None,
     rule ''go.schedule.duration'' (Some ''s'') None]"

definition rules_net :: "metric_rule list" where
  "rules_net =
    [rule ''dotnet.gc.pause.time'' (Some ''s'') None,
     rule ''dotnet.process.memory.working_set'' (Some ''By'') None,
     rule ''dotnet.jit.compilation.time'' (Some ''s'') None,
     rule ''aspnetcore.routing.match_attempts'' None None]"

definition rules_system :: "metric_rule list" where
  "rules_system =
    [rule ''system.cpu.utilization'' (Some ''1'') (Some [facet [''system.cpu.logical_number'', ''cpu.mode''] ''CPU + Mode'']),
     rule ''system.cpu.time'' (Some ''s'') None,
     rule ''system.memory.usage'' (Some ''By'') None,
     rule ''system.memory.utilization'' (Some ''1'') None,
     rule ''system.network.io'' (Some ''By'') (Some [facet [''network.io.direction'', ''system.device''] ''Direction + Device'']),
     rule ''system.disk.io'' (Some ''By'') (Some [facet [''disk.io.direction'', ''system.device''] ''Direction + Device'']),
     rule ''system.filesystem.usage'' (Some ''By'') (Some [facet [''system.device'', ''system.filesystem.state''] ''Device + State''])]"

definition rules_process :: "metric_rule list" where
  "rules_process =
    [rule ''process.cpu.time'' (Some ''s'') None,
     rule ''process.cpu.utilization'' (Some ''1'') None,
     rule ''process.memory.usage'' (Some ''By'') None,
     rule ''process.network.io'' (Some ''By'') None,
     rule ''process.disk.io'' (Some ''By'') None]"

definition rules_container :: "metric_rule list" where
  "rules_container =
    [rule ''container.cpu.time'' (Some ''s'') None,
     rule ''container.memory.usage'' (Some ''By'') None,
     rule ''container.network.io'' (Some ''By'') None]"

definition rules_kubernetes :: "metric_rule list" where
  "rules_kubernetes =
    [rule ''k8s.pod.memory.usage'' (Some ''By'') (Some [facet [''k8s.namespace.name'', ''k8s.pod.name''] ''Namespace + Pod'']),
     rule ''k8s.pod.cpu.usage'' None (Some [facet [''k8s.namespace.name'', ''k8s.pod.name''] ''Namespace + Pod'']),
     rule ''k8s.container.cpu.limit'' None (Some [facet [''k8s.pod.name'', ''k8s.container.name''] ''Pod + Container'']),
     rule ''k8s.node.memory.usage'' (Some ''By'') None]"

definition rules_otel_sdk_self_telemetry :: "metric_rule list" where
  "rules_otel_sdk_self_telemetry =
    [rule ''otel.sdk.exporter.operation.duration'' (Some ''s'') None]"

definition METRIC_RULES :: "metric_rule list" where
  "METRIC_RULES =
    rules_http_server @
     rules_http_client @
     rules_database @
     rules_rpc @
     rules_messaging @
     rules_genai @
     rules_faas @
     rules_jvm @
     rules_node_js @
     rules_go @
     rules_net @
     rules_system @
     rules_process @
     rules_container @
     rules_kubernetes @
     rules_otel_sdk_self_telemetry"

section \<open>Lookup\<close>

definition lookupMetricRule :: "string \<Rightarrow> metric_rule option" where
  "lookupMetricRule name = List.find (\<lambda>r. startsWith name (mr_pattern r)) METRIC_RULES"

definition resolveMetricUnit :: "string \<Rightarrow> string \<Rightarrow> string" where
  "resolveMetricUnit name declaredUnit =
     (if declaredUnit \<noteq> [] then declaredUnit
      else case Option.bind (lookupMetricRule name) mr_unit of None \<Rightarrow> [] | Some u \<Rightarrow> u)"

definition DISCOVERED_FACET_MIN :: nat where
  "DISCOVERED_FACET_MIN = 2"

definition DISCOVERED_FACET_MAX :: nat where
  "DISCOVERED_FACET_MAX = 20"

text \<open>The text an attribute value is counted by, and one turn of the inner loop.\<close>

definition value_text :: "(number \<Rightarrow> string) \<Rightarrow> json \<Rightarrow> string" where
  "value_text num_text v = (case v of JStr s \<Rightarrow> s | _ \<Rightarrow> json_text num_text v)"

definition track_value ::
    "(number \<Rightarrow> string) \<Rightarrow> (string \<times> string set) list \<Rightarrow> string \<times> json \<Rightarrow> (string \<times> string set) list" where
  "track_value num_text vals e =
     (case e of (k, v) \<Rightarrow>
        if v = JNull then vals
        else
          let (known, vals') =
                (case map_of vals k of
                   Some s \<Rightarrow> (s, vals)
                 | None \<Rightarrow> ({}, AList.update k {} vals))
          in if card known > DISCOVERED_FACET_MAX then vals'
             else AList.update k (insert (value_text num_text v) known) vals')"

definition computeAttributeCardinality ::
    "(number \<Rightarrow> string) \<Rightarrow> point list \<Rightarrow> (string \<times> nat) list" where
  "computeAttributeCardinality num_text dataPoints =
     map (\<lambda>(k, s). (k, card s))
       (foldl (\<lambda>vals dp. foldl (track_value num_text) vals (dp_attributes dp)) [] dataPoints)"

definition attribute_label :: "string \<Rightarrow> string" where
  "attribute_label attr = (case map_of ATTRIBUTE_LABELS attr of None \<Rightarrow> attr | Some l \<Rightarrow> l)"

definition resolveMetricFacets ::
    "(string \<Rightarrow> string \<Rightarrow> int) \<Rightarrow> string \<Rightarrow> (string \<times> nat) list \<Rightarrow> metric_facet list" where
  "resolveMetricFacets lc name cardinality =
     (let catalog =
            (case Option.bind (lookupMetricRule name) mr_keys of
               None \<Rightarrow> []
             | Some keys \<Rightarrow>
                 filter (\<lambda>f. list_all (\<lambda>a. map_of cardinality a \<noteq> None) (fc_attributes f)) keys);
          sorted = sort_by (\<lambda>p q. lc (fst p) (fst q)) cardinality
      in catalog @
         map (\<lambda>(attr, count). facet [attr] (attribute_label attr))
           (filter (\<lambda>(attr, count). \<not> (count < DISCOVERED_FACET_MIN \<or> count > DISCOVERED_FACET_MAX)) sorted))"

definition facetId :: "metric_facet \<Rightarrow> string" where
  "facetId f = join ''|'' (fc_attributes f)"

section \<open>Cardinality\<close>

text \<open>The distinct texts of an attribute's values that are not null.\<close>

definition entry_texts :: "(number \<Rightarrow> string) \<Rightarrow> (string \<times> json) list \<Rightarrow> string \<Rightarrow> string set" where
  "entry_texts num_text es k = {value_text num_text v | v. (k, v) \<in> set es \<and> v \<noteq> JNull}"

definition distinct_values :: "(number \<Rightarrow> string) \<Rightarrow> point list \<Rightarrow> string \<Rightarrow> string set" where
  "distinct_values num_text dps = entry_texts num_text (concat (map dp_attributes dps))"

definition slot_tracks :: "string set \<Rightarrow> string set option \<Rightarrow> bool" where
  "slot_tracks texts slot \<longleftrightarrow>
     (case slot of
        None \<Rightarrow> texts = {}
      | Some s \<Rightarrow> s \<noteq> {} \<and> s \<subseteq> texts \<and> card s \<le> 21 \<and> (card s < 21 \<longrightarrow> s = texts))"

definition tracks :: "(number \<Rightarrow> string) \<Rightarrow> (string \<times> json) list \<Rightarrow> (string \<times> string set) list \<Rightarrow> bool" where
  "tracks num_text es vals \<longleftrightarrow>
     distinct (map fst vals) \<and> (\<forall>k. slot_tracks (entry_texts num_text es k) (map_of vals k))"

lemma finite_entry_texts [simp]: "finite (entry_texts num_text es k)"
proof -
  have "entry_texts num_text es k \<subseteq> (\<lambda>e. value_text num_text (snd e)) ` set es"
    by (force simp: entry_texts_def)
  then show ?thesis by (rule finite_subset) simp
qed

lemma entry_texts_snoc:
  "entry_texts num_text (es @ [(k, v)]) j =
     (if j = k \<and> v \<noteq> JNull then insert (value_text num_text v) (entry_texts num_text es j)
      else entry_texts num_text es j)"
  by (auto simp: entry_texts_def)

definition grow :: "string \<Rightarrow> string set option \<Rightarrow> string set" where
  "grow x slot = (let known = (case slot of None \<Rightarrow> {} | Some s \<Rightarrow> s) in
     if card known > 20 then known else insert x known)"

lemma map_of_track_value:
  "map_of (track_value num_text vals (k, v)) j =
     (if j = k \<and> v \<noteq> JNull then Some (grow (value_text num_text v) (map_of vals k)) else map_of vals j)"
  by (auto simp: track_value_def grow_def DISCOVERED_FACET_MAX_def update_conv' split: option.split)

lemma distinct_track_value:
  "distinct (map fst vals) \<Longrightarrow> distinct (map fst (track_value num_text vals (k, v)))"
  by (auto simp: track_value_def distinct_update split: option.split)

lemma slot_tracks_grow:
  assumes "finite texts" and "slot_tracks texts slot"
  shows "slot_tracks (insert x texts) (Some (grow x slot))"
proof (cases slot)
  case None
  with assms(2) show ?thesis by (simp add: slot_tracks_def grow_def)
next
  case (Some s)
  with assms(2) have s: "s \<noteq> {}" "s \<subseteq> texts" "card s \<le> 21" "card s < 21 \<Longrightarrow> s = texts"
    by (auto simp: slot_tracks_def)
  have "finite s" using s(2) assms(1) by (rule finite_subset)
  then have "card (insert x s) \<le> Suc (card s)" by (simp add: card_insert_if)
  with Some s show ?thesis by (cases "card s > 20") (auto simp: slot_tracks_def grow_def)
qed

lemma tracks_step:
  assumes "tracks num_text es vals"
  shows "tracks num_text (es @ [(k, v)]) (track_value num_text vals (k, v))"
proof -
  have "slot_tracks (entry_texts num_text (es @ [(k, v)]) j) (map_of (track_value num_text vals (k, v)) j)" for j
    using assms slot_tracks_grow [of "entry_texts num_text es k" "map_of vals k"]
    by (auto simp: tracks_def map_of_track_value entry_texts_snoc)
  with assms show ?thesis by (simp add: tracks_def distinct_track_value)
qed

lemma tracks_foldl:
  "tracks num_text es vals \<Longrightarrow> tracks num_text (es @ fs) (foldl (track_value num_text) vals fs)"
proof (induction fs arbitrary: es vals)
  case (Cons f fs)
  obtain k v where f: "f = (k, v)" by (cases f) auto
  from Cons.IH [OF tracks_step [OF Cons.prems, of k v]] show ?case by (simp add: f)
qed simp

lemma tracks_points:
  "tracks num_text es vals \<Longrightarrow>
     tracks num_text (es @ concat (map dp_attributes dps))
       (foldl (\<lambda>vals dp. foldl (track_value num_text) vals (dp_attributes dp)) vals dps)"
proof (induction dps arbitrary: es vals)
  case (Cons dp dps)
  from Cons.IH [OF tracks_foldl [OF Cons.prems, of "dp_attributes dp"]] show ?case by simp
qed simp

lemma cardinality_lookup:
  "map_of (computeAttributeCardinality num_text dps) k =
     (if distinct_values num_text dps k = {} then None
      else Some (min 21 (card (distinct_values num_text dps k))))"
  "distinct (map fst (computeAttributeCardinality num_text dps))"
proof -
  let ?vals = "foldl (\<lambda>vals dp. foldl (track_value num_text) vals (dp_attributes dp)) [] dps"
  have "tracks num_text [] []" by (simp add: tracks_def slot_tracks_def entry_texts_def)
  from tracks_points [OF this, of dps]
  have t: "tracks num_text (concat (map dp_attributes dps)) ?vals" by simp
  then have "distinct (map fst ?vals)" by (simp add: tracks_def)
  then show "distinct (map fst (computeAttributeCardinality num_text dps))"
    by (simp add: computeAttributeCardinality_def comp_def case_prod_beta)
  have m: "map_of (computeAttributeCardinality num_text dps) k = map_option card (map_of ?vals k)"
    by (simp add: computeAttributeCardinality_def map_of_map)
  let ?D = "distinct_values num_text dps k"
  show "map_of (computeAttributeCardinality num_text dps) k =
      (if ?D = {} then None else Some (min 21 (card ?D)))"
  proof (cases "map_of ?vals k")
    case None
    moreover have "slot_tracks ?D (map_of ?vals k)" using t by (simp add: tracks_def distinct_values_def)
    ultimately show ?thesis using m by (simp add: slot_tracks_def)
  next
    case (Some s)
    moreover have "slot_tracks ?D (map_of ?vals k)" using t by (simp add: tracks_def distinct_values_def)
    ultimately have s: "s \<noteq> {}" "s \<subseteq> ?D" "card s \<le> 21" "card s < 21 \<longrightarrow> s = ?D"
      by (auto simp: slot_tracks_def)
    moreover have "card s \<le> card ?D" using s(2) by (intro card_mono) (simp_all add: distinct_values_def)
    ultimately have "card s = min 21 (card ?D)" "?D \<noteq> {}" by (auto simp: min_def)
    with Some m show ?thesis by simp
  qed
qed

section \<open>Properties\<close>

lemma map_of_filter_keys:
  "distinct (map fst kvs) \<Longrightarrow> set (map f (filter P kvs)) = {f (k, v) | k v. map_of kvs k = Some v \<and> P (k, v)}"
  by force

text \<open>The facets offered are the curated combinations whose attributes all occur in the data, in
  the catalog's order, and then one facet for exactly the attributes with two to twenty distinct
  values, each once: capping the counted set at twenty-one changes no decision, and values that are
  null are not counted.\<close>

theorem facets_discovered:
  "\<exists>found. resolveMetricFacets lc name (computeAttributeCardinality num_text dps) =
       filter (\<lambda>f. \<forall>a \<in> set (fc_attributes f). distinct_values num_text dps a \<noteq> {})
         (case Option.bind (lookupMetricRule name) mr_keys of None \<Rightarrow> [] | Some keys \<Rightarrow> keys) @ found \<and>
     distinct (map fc_attributes found) \<and>
     set found = {facet [a] (attribute_label a) | a.
       2 \<le> card (distinct_values num_text dps a) \<and> card (distinct_values num_text dps a) \<le> 20}"
proof -
  let ?card = "computeAttributeCardinality num_text dps"
  let ?P = "\<lambda>(attr :: string, count). \<not> (count < DISCOVERED_FACET_MIN \<or> count > DISCOVERED_FACET_MAX)"
  let ?kept = "filter ?P (sort_by (\<lambda>p q. lc (fst p) (fst q)) ?card)"
  let ?found = "map (\<lambda>(attr, count). facet [attr] (attribute_label attr)) ?kept"
  note card = cardinality_lookup [of num_text dps]
  have "distinct (map fst ?kept)" using card(2) by (simp add: distinct_map_filter)
  moreover have "map fc_attributes ?found = map (\<lambda>k. [k]) (map fst ?kept)"
    by (simp add: facet_def case_prod_beta)
  moreover have "distinct (map (\<lambda>k. [k]) ks) = distinct ks" for ks :: "string list"
    by (simp add: distinct_map inj_on_def)
  ultimately have d: "distinct (map fc_attributes ?found)" by (simp only:)
  have window: "(\<exists>v. map_of ?card a = Some v \<and> ?P (a, v)) \<longleftrightarrow>
      2 \<le> card (distinct_values num_text dps a) \<and> card (distinct_values num_text dps a) \<le> 20" for a
    by (cases "distinct_values num_text dps a = {}")
      (auto simp: card(1) DISCOVERED_FACET_MIN_def DISCOVERED_FACET_MAX_def)
  have "set ?found = set (map (\<lambda>(attr, count). facet [attr] (attribute_label attr)) (filter ?P ?card))"
    by simp
  also have "\<dots> = {facet [a] (attribute_label a) | a. \<exists>v. map_of ?card a = Some v \<and> ?P (a, v)}"
    unfolding map_of_filter_keys [OF card(2)] by auto
  also have "\<dots> = {facet [a] (attribute_label a) | a.
      2 \<le> card (distinct_values num_text dps a) \<and> card (distinct_values num_text dps a) \<le> 20}"
    unfolding window ..
  finally have "set ?found = \<dots>" .
  moreover have "resolveMetricFacets lc name ?card =
      filter (\<lambda>f. \<forall>a \<in> set (fc_attributes f). distinct_values num_text dps a \<noteq> {})
        (case Option.bind (lookupMetricRule name) mr_keys of None \<Rightarrow> [] | Some keys \<Rightarrow> keys) @ ?found"
    by (simp add: resolveMetricFacets_def card(1) list_all_iff split: option.split)
  ultimately show ?thesis using d by blast
qed

lemmas catalog_table = METRIC_RULES_def rules_http_server_def rules_http_client_def rules_database_def rules_rpc_def rules_messaging_def rules_genai_def rules_faas_def rules_jvm_def rules_node_js_def rules_go_def rules_net_def rules_system_def rules_process_def rules_container_def rules_kubernetes_def rules_otel_sdk_self_telemetry_def rule_def facet_def

text \<open>No rule of the table is hidden by an earlier one: every pattern, used as a metric's name,
  finds its own rule, so exact names do come before the broader prefixes.\<close>

theorem catalog_rules_reachable:
  "list_all (\<lambda>r. lookupMetricRule (mr_pattern r) = Some r) METRIC_RULES"
  unfolding lookupMetricRule_def catalog_table by code_simp

end
