(* ===== verification/SearchSyntax.thy ===== *)
theory SearchSyntax
  imports MetricCatalog
begin

text \<open>
  The search grammar of \<^verbatim>\<open>lib/log-search.ts\<close>: the tokeniser and parser of structured
  terms, their serialisation, numeric comparisons, and the matcher of a term's value with its
  wildcards; with the field list of \<^verbatim>\<open>lib/metric-search.ts\<close>. A value of a record is a
  JSON value, absent where the source has \<open>undefined\<close>.
\<close>

section \<open>Terms\<close>

record search_term =
  te_field :: "string option"
  te_resource :: bool
  te_key :: string
  te_value :: string
  te_quoted :: bool
  te_negated :: bool

record parsed_search =
  ps_plain :: string
  ps_terms :: "search_term list"

definition logFields :: "(string \<times> string) list" where
  "logFields =
     [(''trace_id'', ''traceId''), (''span_id'', ''spanId''), (''service_name'', ''serviceName''),
      (''severity_text'', ''severityText''), (''severity_number'', ''severityNumber''),
      (''body'', ''body'')]"

definition isLogField :: "string \<Rightarrow> bool" where
  "isLogField key \<longleftrightarrow> key \<in> fst ` set logFields"

definition logTermKey :: "search_term \<Rightarrow> string" where
  "logTermKey t =
     (case te_field t of
        Some f \<Rightarrow> f
      | None \<Rightarrow> (if te_resource t then ''resource'' else ''attributes'') @ ''.'' @ te_key t)"

definition metricFields :: "string list" where
  "metricFields = [''name'', ''service_name'', ''type'', ''unit'', ''description'']"

section \<open>Tokens\<close>

definition token_space :: "char \<Rightarrow> bool" where
  "token_space c \<longleftrightarrow> c \<in> {CHR '' '', CHR 0x09, CHR 0x0D, CHR 0x0A}"

text \<open>
  The scan: \<open>cur\<close> is the slice from \<open>start\<close> to the current position. The result is the
  token list, and whether a quote is left open.
\<close>

fun scan_tokens :: "string \<Rightarrow> bool \<Rightarrow> bool \<Rightarrow> string \<Rightarrow> string list \<times> bool" where
  "scan_tokens cur quoted escaped [] = (if cur \<noteq> [] then [cur] else [], quoted)"
| "scan_tokens cur quoted escaped (c # cs) =
     (if escaped then scan_tokens (cur @ [c]) quoted False cs
      else if quoted \<and> c = CHR 0x5C then scan_tokens (cur @ [c]) quoted True cs
      else
        let quoted' = (if c = CHR 0x22 then \<not> quoted else quoted)
        in if \<not> quoted' \<and> token_space c
           then (if cur \<noteq> [] then apfst ((#) cur) (scan_tokens [] quoted' False cs)
                 else scan_tokens [] quoted' False cs)
           else scan_tokens (cur @ [c]) quoted' False cs)"

definition index_of :: "char \<Rightarrow> string \<Rightarrow> nat option" where
  "index_of c s = find_index (\<lambda>x. x = c) s"

text \<open>\<open>s.slice(s.indexOf(".") + 1)\<close>\<close>

definition after_dot :: "string \<Rightarrow> string" where
  "after_dot s = (case index_of CHR ''.'' s of None \<Rightarrow> s | Some i \<Rightarrow> drop (Suc i) s)"

datatype token_kind = PlainToken | BadToken | TermToken search_term

text \<open>One turn of the loop over the tokens; \<open>BadToken\<close> is \<open>return fallback\<close>.\<close>

definition token_value :: "string \<Rightarrow> string option" where
  "token_value value =
     (if startsWith value [CHR 0x22] then json_parse_string value
      else if startsWith value [CHR ''~'', CHR 0x22] then json_parse_string (drop 1 value)
      else Some value)"

definition classify_token :: "string list \<Rightarrow> string \<Rightarrow> token_kind" where
  "classify_token flds token =
     (case index_of CHR '':'' token of
        None \<Rightarrow> PlainToken
      | Some colon \<Rightarrow>
          let negated = startsWith token ''-'';
              field = (if negated then drop 1 (take colon token) else take colon token);
              resource = startsWith field ''resource.''
          in if \<not> resource \<and> \<not> startsWith field ''attributes.'' \<and> field \<notin> set flds then PlainToken
             else
               let key = (if field \<in> set flds then field else after_dot field);
                   value = drop (Suc colon) token
               in if key = [] \<or> value = [] then BadToken
                  else case token_value value of
                         None \<Rightarrow> BadToken
                       | Some v \<Rightarrow>
                           TermToken
                             \<lparr>te_field = (if field \<in> set flds then Some field else None),
                              te_resource = resource, te_key = key, te_value = v,
                              te_quoted = startsWith value [CHR 0x22], te_negated = negated\<rparr>)"

fun collect_tokens :: "string list \<Rightarrow> string list \<Rightarrow> (string list \<times> search_term list) option" where
  "collect_tokens flds [] = Some ([], [])"
| "collect_tokens flds (t # ts) =
     (case classify_token flds t of
        BadToken \<Rightarrow> None
      | PlainToken \<Rightarrow> map_option (\<lambda>(text, terms). (t # text, terms)) (collect_tokens flds ts)
      | TermToken term \<Rightarrow> map_option (\<lambda>(text, terms). (text, term # terms)) (collect_tokens flds ts))"

definition parseLogSearch :: "string \<Rightarrow> string list \<Rightarrow> parsed_search" where
  "parseLogSearch search flds =
     (let fallback = \<lparr>ps_plain = search, ps_terms = []\<rparr>;
          (tokens, quoted) = scan_tokens [] False False search
      in if quoted then fallback
         else case collect_tokens flds tokens of
                None \<Rightarrow> fallback
              | Some (text, terms) \<Rightarrow>
                  if length terms = 0 then fallback
                  else \<lparr>ps_plain = join '' '' (filter (\<lambda>token. token \<noteq> ''AND'') text), ps_terms = terms\<rparr>)"

definition parseMetricSearch :: "string \<Rightarrow> parsed_search" where
  "parseMetricSearch search = parseLogSearch search metricFields"

definition serializeLogTerm :: "search_term \<Rightarrow> string" where
  "serializeLogTerm t =
     (if te_negated t then ''-'' else []) @ logTermKey t @ '':'' @
     (if te_quoted t then json_quote (te_value t)
      else if list_ex (\<lambda>c. js_whitespace c \<or> c = CHR 0x22) (te_value t)
      then ''~'' @ json_quote (te_value t)
      else te_value t)"

section \<open>Numbers in terms\<close>

definition is_digit :: "char \<Rightarrow> bool" where
  "is_digit c \<longleftrightarrow> 48 \<le> char_code c \<and> char_code c \<le> 57"

definition digits_value :: "string \<Rightarrow> int" where
  "digits_value ds = foldl (\<lambda>n c. n * 10 + (int (char_code c) - 48)) 0 ds"

text \<open>
  \<open>logNumberPattern\<close> with the value \<open>Number\<close> gives its match: an optional sign, digits
  with an optional fraction or a fraction alone, and an optional exponent.
\<close>

definition split_sign :: "string \<Rightarrow> bool \<times> string" where
  "split_sign s = (if startsWith s ''-'' then (True, drop 1 s) else (False, s))"

definition split_fraction :: "string \<Rightarrow> (string \<times> string) option" where
  "split_fraction s =
     (let ip = takeWhile is_digit s; rest = dropWhile is_digit s
      in case rest of
           [] \<Rightarrow> if ip = [] then None else Some (ip, [])
         | c # fp \<Rightarrow> if c = CHR ''.'' \<and> list_all is_digit fp \<and> (ip \<noteq> [] \<or> fp \<noteq> []) then Some (ip, fp) else None)"

definition split_exponent :: "string \<Rightarrow> (string \<times> int) option" where
  "split_exponent s =
     (case find_index (\<lambda>c. c = CHR ''e'' \<or> c = CHR ''E'') s of
        None \<Rightarrow> Some (s, 0)
      | Some i \<Rightarrow>
          let e = drop (Suc i) s;
              (neg, ds) = (if startsWith e ''+'' then (False, drop 1 e) else split_sign e)
          in if ds \<noteq> [] \<and> list_all is_digit ds
             then Some (take i s, (if neg then - 1 else 1) * digits_value ds)
             else None)"

definition pow10 :: "int \<Rightarrow> rat" where
  "pow10 e = (if 0 \<le> e then 10 ^ nat e else 1 / 10 ^ nat (- e))"

definition decimal_value :: "string \<Rightarrow> rat option" where
  "decimal_value s =
     (let (neg, body) = split_sign s
      in case split_exponent body of
           None \<Rightarrow> None
         | Some (m, e) \<Rightarrow>
             (case split_fraction m of
                None \<Rightarrow> None
              | Some (ip, fp) \<Rightarrow>
                  Some ((if neg then - 1 else 1) *
                    of_int (digits_value (ip @ fp)) * pow10 (e - int (length fp)))))"

text \<open>
  \<open>logNumberPattern.test(s) && Number.isFinite(Number(s))\<close> with the number: rounding
  overflows from the midpoint above the largest double on.
\<close>

definition finite_number :: "string \<Rightarrow> number option" where
  "finite_number s =
     (case decimal_value s of
        None \<Rightarrow> None
      | Some q \<Rightarrow> if \<bar>q\<bar> < 2 ^ 1024 - 2 ^ 970 then Some (fl q) else None)"

datatype comparison_op = Greater | GreaterEq | Less | LessEq

fun op_text :: "comparison_op \<Rightarrow> string" where
  "op_text Greater = ''>''"
| "op_text GreaterEq = ''>=''"
| "op_text Less = ''<''"
| "op_text LessEq = ''<=''"

definition split_operator :: "string \<Rightarrow> (comparison_op \<times> string) option" where
  "split_operator s =
     (if startsWith s ''>='' \<and> length s > 2 then Some (GreaterEq, drop 2 s)
      else if startsWith s ''<='' \<and> length s > 2 then Some (LessEq, drop 2 s)
      else if startsWith s ''>'' \<and> length s > 1 then Some (Greater, drop 1 s)
      else if startsWith s ''<'' \<and> length s > 1 then Some (Less, drop 1 s)
      else None)"

definition logComparison :: "search_term \<Rightarrow> (comparison_op \<times> number) option" where
  "logComparison t =
     (if te_quoted t then None
      else case split_operator (te_value t) of
             None \<Rightarrow> None
           | Some (operator, n) \<Rightarrow> map_option (\<lambda>v. (operator, v)) (finite_number n))"

section \<open>Matching\<close>

text \<open>
  The regular expression: the parts between the stars, literal but for letter case, with anything
  in between, anchored at both ends.
\<close>

fun match_parts :: "string list \<Rightarrow> string \<Rightarrow> bool" where
  "match_parts [] s = (s = [])"
| "match_parts [p] s = (toLowerCase s = toLowerCase p)"
| "match_parts (p # q # ps) s =
     (startsWith (toLowerCase s) (toLowerCase p) \<and>
      list_ex (\<lambda>n. match_parts (q # ps) (drop n (drop (length p) s))) [0..<Suc (length s - length p)])"

definition value_string :: "(number \<Rightarrow> string) \<Rightarrow> json \<Rightarrow> string option" where
  "value_string num_text v =
     (case v of
        JStr s \<Rightarrow> Some s
      | JNum n \<Rightarrow> Some (num_text n)
      | JBool b \<Rightarrow> Some (if b then ''true'' else ''false'')
      | _ \<Rightarrow> None)"

fun compare_number :: "comparison_op \<Rightarrow> number \<Rightarrow> number \<Rightarrow> bool" where
  "compare_number Greater v x = (v > x)"
| "compare_number GreaterEq v x = (v \<ge> x)"
| "compare_number Less v x = (v < x)"
| "compare_number LessEq v x = (v \<le> x)"

definition term_parts :: "search_term \<Rightarrow> string list" where
  "term_parts t = (if te_quoted t then [te_value t] else split_char CHR ''*'' (te_value t))"

definition term_matches :: "(number \<Rightarrow> string) \<Rightarrow> search_term \<Rightarrow> bool \<Rightarrow> json option \<Rightarrow> bool" where
  "term_matches num_text t numericField val =
     (case val of
        None \<Rightarrow> False
      | Some v \<Rightarrow>
          if v = JNull then False
          else case logComparison t of
                 Some (operator, x) \<Rightarrow> (case v of JNum n \<Rightarrow> compare_number operator n x | _ \<Rightarrow> False)
               | None \<Rightarrow>
                   if \<not> te_quoted t \<and> te_value t = ''*'' then True
                   else if numericField \<and> finite_number (te_value t) \<noteq> None
                   then (case v of JNum n \<Rightarrow> Some n = finite_number (te_value t) | _ \<Rightarrow> False)
                   else (case value_string num_text v of
                           None \<Rightarrow> False
                         | Some s \<Rightarrow> match_parts (term_parts t) s))"

definition createTermMatcher :: "(number \<Rightarrow> string) \<Rightarrow> search_term \<Rightarrow> bool \<Rightarrow> json option \<Rightarrow> bool" where
  "createTermMatcher num_text t numericField val =
     (if te_negated t then \<not> term_matches num_text t numericField val
      else term_matches num_text t numericField val)"

section \<open>Logs\<close>

definition zero_id :: "string \<Rightarrow> bool" where
  "zero_id s \<longleftrightarrow> s = [] \<or> list_all (\<lambda>c. c = CHR ''0'') s"

definition log_field_value :: "log \<Rightarrow> string \<Rightarrow> json option" where
  "log_field_value l field =
     (if field = ''trace_id'' then Some (JStr (lg_traceId l))
      else if field = ''span_id'' then Some (JStr (lg_spanId l))
      else if field = ''service_name'' then Some (JStr (lg_serviceName l))
      else if field = ''severity_text'' then Some (JStr (lg_severityText l))
      else if field = ''severity_number'' then Some (JNum (lg_severityNumber l))
      else if field = ''body'' then Some (JStr (lg_body l))
      else None)"

definition logTermValue :: "log \<Rightarrow> search_term \<Rightarrow> json option" where
  "logTermValue l t =
     (case te_field t of
        Some field \<Rightarrow>
          if isLogField field
          then (if field = ''trace_id'' \<and> zero_id (lg_traceId l) \<or> field = ''span_id'' \<and> zero_id (lg_spanId l)
                then None else log_field_value l field)
          else map_of (if te_resource t then lg_resource l else lg_attributes l) (te_key t)
      | None \<Rightarrow> map_of (if te_resource t then lg_resource l else lg_attributes l) (te_key t))"

definition has_text :: "string \<Rightarrow> string \<Rightarrow> bool" where
  "has_text s q = str_includes (toLowerCase s) q"

definition createLogSearchMatcher :: "(number \<Rightarrow> string) \<Rightarrow> string \<Rightarrow> log \<Rightarrow> bool" where
  "createLogSearchMatcher num_text search l =
     (let parsed = parseLogSearch search (map fst logFields);
          q = toLowerCase (ps_plain parsed)
      in (q = [] \<or>
          list_ex (\<lambda>v. has_text v q) [lg_body l, lg_serviceName l, lg_severityText l, lg_traceId l] \<or>
          has_text (json_text num_text (JObj (lg_attributes l))) q \<or>
          has_text (json_text num_text (JObj (lg_resource l))) q) \<and>
         list_all (\<lambda>t. createTermMatcher num_text t (te_field t = Some ''severity_number'') (logTermValue l t))
           (ps_terms parsed))"

section \<open>Round trip\<close>

definition plain_char :: "char \<Rightarrow> bool" where
  "plain_char c \<longleftrightarrow> c \<noteq> CHR 0x22 \<and> \<not> token_space c"

definition key_char :: "char \<Rightarrow> bool" where
  "key_char c \<longleftrightarrow> plain_char c \<and> c \<noteq> CHR '':''"

text \<open>The field names of a grammar, and the terms it can express.\<close>

definition field_names_ok :: "string list \<Rightarrow> bool" where
  "field_names_ok flds \<longleftrightarrow>
     (\<forall>f \<in> set flds. f \<noteq> [] \<and> list_all key_char f \<and> \<not> startsWith f ''-'' \<and> \<not> startsWith f ''resource.'')"

definition term_ok :: "string list \<Rightarrow> search_term \<Rightarrow> bool" where
  "term_ok flds t \<longleftrightarrow>
     (case te_field t of
        Some f \<Rightarrow> f \<in> set flds \<and> te_key t = f \<and> \<not> te_resource t
      | None \<Rightarrow> te_key t \<noteq> [] \<and> list_all key_char (te_key t) \<and> logTermKey t \<notin> set flds) \<and>
     (te_quoted t \<or> te_value t \<noteq> [])"

lemma scan_plain:
  "list_all plain_char s \<Longrightarrow>
     scan_tokens cur False False (s @ r) = scan_tokens (cur @ s) False False r"
  by (induction s arbitrary: cur) (simp_all add: plain_char_def)

lemma hex_digit_plain: "n < 16 \<Longrightarrow> hex_digit n \<noteq> CHR 0x22 \<and> hex_digit n \<noteq> CHR 0x5C"
proof -
  assume n: "n < 16"
  have "char_code (hex_digit n) \<noteq> 34 \<and> char_code (hex_digit n) \<noteq> 92" using n by (simp add: hex_digit_def)
  moreover have "char_code (CHR 0x22) = 34" "char_code (CHR 0x5C) = 92" by (simp_all add: char_code_def)
  ultimately show ?thesis by metis
qed

lemma scan_escape:
  "scan_tokens cur True False (json_escape c @ r) = scan_tokens (cur @ json_escape c) True False r"
proof (cases "code_unit c < 32")
  case True
  then have "code_unit c div 16 < 16" "code_unit c mod 16 < 16" by simp_all
  then show ?thesis using hex_digit_plain [of "code_unit c div 16"] hex_digit_plain [of "code_unit c mod 16"]
    by (simp add: json_escape_def)
qed (simp add: json_escape_def)

lemma scan_body:
  "scan_tokens cur True False (concat (map json_escape s) @ r) =
     scan_tokens (cur @ concat (map json_escape s)) True False r"
  by (induction s arbitrary: cur) (simp_all add: scan_escape)

lemma scan_quote:
  "scan_tokens cur False False (json_quote s @ r) = scan_tokens (cur @ json_quote s) False False r"
  by (simp add: json_quote_def scan_body token_space_def)

lemma token_space_whitespace: "token_space c \<Longrightarrow> js_whitespace c"
  by (auto simp: token_space_def js_whitespace_def char_code_def)

lemma raw_value_plain:
  "\<not> list_ex (\<lambda>c. js_whitespace c \<or> c = CHR 0x22) v \<Longrightarrow> list_all plain_char v"
  using token_space_whitespace by (fastforce simp: list_all_iff list_ex_iff plain_char_def)

lemma key_text_ok:
  assumes "field_names_ok flds" and "term_ok flds t"
  shows "list_all key_char (logTermKey t)" and "\<not> startsWith (logTermKey t) ''-''"
    and "startsWith (logTermKey t) ''resource.'' \<longleftrightarrow> te_resource t"
    and "logTermKey t \<in> set flds \<longleftrightarrow> te_field t \<noteq> None"
    and "te_field t = None \<Longrightarrow> startsWith (logTermKey t) ''attributes.'' \<or> te_resource t"
    and "te_field t = None \<Longrightarrow> after_dot (logTermKey t) = te_key t"
    and "te_key t \<noteq> []"
  using assms
  by (auto simp: field_names_ok_def term_ok_def logTermKey_def key_char_def plain_char_def token_space_def
      after_dot_def index_of_def split: option.splits if_splits)

lemma scan_term:
  assumes "field_names_ok flds" and "term_ok flds t"
  shows "scan_tokens cur False False (serializeLogTerm t @ r) =
    scan_tokens (cur @ serializeLogTerm t) False False r"
proof -
  have k: "list_all plain_char (logTermKey t @ '':'')"
    using key_text_ok(1) [OF assms] by (auto simp: list_all_iff key_char_def plain_char_def token_space_def)
  have n: "list_all plain_char (if te_negated t then ''-'' else [])" by (simp add: plain_char_def token_space_def)
  have a: "list_all plain_char ((if te_negated t then ''-'' else []) @ logTermKey t @ '':'')"
    using k n by (simp del: append_assoc)
  consider "te_quoted t" | "\<not> te_quoted t" "list_ex (\<lambda>c. js_whitespace c \<or> c = CHR 0x22) (te_value t)"
    | "\<not> te_quoted t" "\<not> list_ex (\<lambda>c. js_whitespace c \<or> c = CHR 0x22) (te_value t)" by blast
  then show ?thesis
  proof cases
    case 1
    then show ?thesis
      using scan_plain [OF a, of cur "json_quote (te_value t) @ r"] by (simp add: serializeLogTerm_def scan_quote)
  next
    case 2
    have "list_all plain_char (((if te_negated t then ''-'' else []) @ logTermKey t @ '':'') @ ''~'')"
      using a by (simp add: plain_char_def token_space_def del: append_assoc)
    from scan_plain [OF this, of cur "json_quote (te_value t) @ r"] 2 show ?thesis
      by (simp add: serializeLogTerm_def scan_quote)
  next
    case 3
    with a raw_value_plain have
      "list_all plain_char (((if te_negated t then ''-'' else []) @ logTermKey t @ '':'') @ te_value t)"
      by (simp del: append_assoc)
    from scan_plain [OF this, of cur r] 3 show ?thesis by (simp add: serializeLogTerm_def)
  qed
qed

lemma serialize_nonempty: "serializeLogTerm t \<noteq> []"
  by (simp add: serializeLogTerm_def)

lemma scan_terms:
  assumes "field_names_ok flds"
  shows "list_all (term_ok flds) ts \<Longrightarrow>
    scan_tokens [] False False (join '' '' (map serializeLogTerm ts)) = (map serializeLogTerm ts, False)"
proof (induction ts rule: induct_list012)
  case (2 t)
  then show ?case using scan_term [OF assms, of t "[]" "[]"] by (simp add: serialize_nonempty)
next
  case (3 t u ts)
  then have "term_ok flds t" by simp
  from scan_term [OF assms this, of "[]" "'' '' @ join '' '' (map serializeLogTerm (u # ts))"] 3
  show ?case by (simp add: serialize_nonempty token_space_def)
qed simp

lemma index_of_first: "c \<notin> set a \<Longrightarrow> index_of c (a @ c # b) = Some (length a)"
  by (induction a) (auto simp: index_of_def)

lemma token_value_serialized:
  assumes "te_quoted t \<or> te_value t \<noteq> []"
  shows "let v = (if te_quoted t then json_quote (te_value t)
      else if list_ex (\<lambda>c. js_whitespace c \<or> c = CHR 0x22) (te_value t) then ''~'' @ json_quote (te_value t)
      else te_value t)
    in v \<noteq> [] \<and> token_value v = Some (te_value t) \<and> (startsWith v [CHR 0x22] \<longleftrightarrow> te_quoted t)"
proof -
  have q: "json_quote x = CHR 0x22 # tl (json_quote x)" for x by (simp add: json_quote_def)
  consider "te_quoted t" | "\<not> te_quoted t" "list_ex (\<lambda>c. js_whitespace c \<or> c = CHR 0x22) (te_value t)"
    | "\<not> te_quoted t" "\<not> list_ex (\<lambda>c. js_whitespace c \<or> c = CHR 0x22) (te_value t)" by blast
  then show ?thesis
  proof cases
    case 1
    have "startsWith (json_quote (te_value t)) [CHR 0x22]" by (subst q) simp
    with 1 q show ?thesis by (simp add: token_value_def json_parse_quote) (simp add: json_quote_def)
  next
    case 2
    have "startsWith (json_quote (te_value t)) [CHR 0x22]" by (subst q) simp
    with 2 show ?thesis by (simp add: token_value_def json_parse_quote)
  next
    case 3
    then have "CHR 0x22 \<notin> set (te_value t)" by (auto simp: list_ex_iff)
    then have "\<not> startsWith (te_value t) [CHR 0x22]" "\<not> startsWith (te_value t) [CHR ''~'', CHR 0x22]"
      by (auto simp: startsWith_iff)
    with 3 assms show ?thesis by (simp add: token_value_def)
  qed
qed

lemma classify_serialized:
  assumes ok: "field_names_ok flds" "term_ok flds t"
  shows "classify_token flds (serializeLogTerm t) = TermToken t"
proof -
  note k = key_text_ok [OF ok]
  define v where "v = (if te_quoted t then json_quote (te_value t)
      else if list_ex (\<lambda>c. js_whitespace c \<or> c = CHR 0x22) (te_value t) then ''~'' @ json_quote (te_value t)
      else te_value t)"
  define pre where "pre = (if te_negated t then ''-'' else [])"
  have ser: "serializeLogTerm t = (pre @ logTermKey t) @ CHR '':'' # v"
    by (simp add: serializeLogTerm_def v_def pre_def)
  have "CHR '':'' \<notin> set (pre @ logTermKey t)"
    using k(1) by (auto simp: pre_def list_all_iff key_char_def)
  then have colon: "index_of CHR '':'' (serializeLogTerm t) = Some (length (pre @ logTermKey t))"
    unfolding ser by (rule index_of_first)
  have neg: "startsWith (serializeLogTerm t) ''-'' \<longleftrightarrow> te_negated t"
    using k(2) by (cases "logTermKey t") (auto simp: ser pre_def)
  have field: "(if te_negated t then drop 1 (take (length (pre @ logTermKey t)) (serializeLogTerm t))
      else take (length (pre @ logTermKey t)) (serializeLogTerm t)) = logTermKey t"
    by (simp add: ser pre_def)
  have val: "drop (Suc (length (pre @ logTermKey t))) (serializeLogTerm t) = v" by (simp add: ser)
  have v: "v \<noteq> []" "token_value v = Some (te_value t)" "startsWith v [CHR 0x22] \<longleftrightarrow> te_quoted t"
    using token_value_serialized [of t] ok(2) by (simp_all add: v_def Let_def term_ok_def)
  have key: "(if logTermKey t \<in> set flds then logTermKey t else after_dot (logTermKey t)) = te_key t"
    using k(4,6) ok(2) by (auto simp: term_ok_def logTermKey_def split: option.splits)
  have fld: "(if logTermKey t \<in> set flds then Some (logTermKey t) else None) = te_field t"
    using k(4) ok(2) by (auto simp: logTermKey_def split: option.splits)
  have known: "\<not> (\<not> te_resource t \<and> \<not> startsWith (logTermKey t) ''attributes.'' \<and> logTermKey t \<notin> set flds)"
    using k(4,5) by auto
  show ?thesis
    unfolding classify_token_def colon option.case Let_def neg field k(3) val key fld
    using known v k(7) by simp
qed

lemma collect_serialized:
  "field_names_ok flds \<Longrightarrow> list_all (term_ok flds) ts \<Longrightarrow>
     collect_tokens flds (map serializeLogTerm ts) = Some ([], ts)"
  by (induction ts) (simp_all add: classify_serialized)

lemma parse_serialized:
  assumes "field_names_ok flds" and "ts \<noteq> []" and "list_all (term_ok flds) ts"
  shows "parseLogSearch (join '' '' (map serializeLogTerm ts)) flds = \<lparr>ps_plain = [], ps_terms = ts\<rparr>"
  using assms scan_terms [OF assms(1,3)] collect_serialized [OF assms(1,3)]
  by (simp add: parseLogSearch_def)

section \<open>Wildcards\<close>

text \<open>The parts of a pattern with a filling in each gap between two of them.\<close>

fun weave :: "string list \<Rightarrow> string list \<Rightarrow> string" where
  "weave [] gs = []"
| "weave [p] gs = p"
| "weave (p # q # ps) [] = p @ weave (q # ps) []"
| "weave (p # q # ps) (g # gs) = p @ g @ weave (q # ps) gs"

lemma toLowerCase_drop: "toLowerCase (drop n s) = drop n (toLowerCase s)"
  by (simp add: toLowerCase_def drop_map)

lemma match_parts_Cons2:
  "match_parts (p # q # ps) s \<longleftrightarrow>
     startsWith (toLowerCase s) (toLowerCase p) \<and>
     (\<exists>n \<le> length s - length p. match_parts (q # ps) (drop n (drop (length p) s)))"
  by (auto simp: list_ex_iff less_Suc_eq_le simp del: upt_Suc drop_drop)

lemma match_parts_weave:
  "ps \<noteq> [] \<Longrightarrow> match_parts ps s \<longleftrightarrow>
     (\<exists>gs. length gs = length ps - 1 \<and> toLowerCase s = weave (map toLowerCase ps) gs)"
proof (induction ps s rule: match_parts.induct)
  case (3 p q ps s)
  have IH: "match_parts (q # ps) (drop n (drop (length p) s)) \<longleftrightarrow>
      (\<exists>gs. length gs = length ps \<and>
        drop n (drop (length p) (toLowerCase s)) = weave (map toLowerCase (q # ps)) gs)"
    if "n \<le> length s - length p" for n
  proof -
    from that have "n \<in> set [0..<Suc (length s - length p)]" by (simp del: upt_Suc add: less_Suc_eq_le)
    from "3.IH" [OF this] show ?thesis by (simp add: toLowerCase_drop del: drop_drop)
  qed
  show ?case
  proof
    assume m: "match_parts (p # q # ps) s"
    then obtain n where n: "n \<le> length s - length p" "match_parts (q # ps) (drop n (drop (length p) s))"
      unfolding match_parts_Cons2 by blast
    from m obtain r where r: "toLowerCase s = toLowerCase p @ r" by (auto simp: startsWith_iff)
    from n(2) obtain gs
      where gs: "length gs = length ps" "drop n (drop (length p) (toLowerCase s)) =
        weave (map toLowerCase (q # ps)) gs"
      unfolding IH [OF n(1)] by blast
    from r gs(2) have "drop n r = weave (map toLowerCase (q # ps)) gs" by simp
    then have "toLowerCase s = toLowerCase p @ take n r @ weave (map toLowerCase (q # ps)) gs"
      using r by (metis append_take_drop_id)
    with gs(1) show "\<exists>gs. length gs = length (p # q # ps) - 1 \<and>
        toLowerCase s = weave (map toLowerCase (p # q # ps)) gs"
      by (intro exI [of _ "take n r # gs"]) simp
  next
    assume "\<exists>gs. length gs = length (p # q # ps) - 1 \<and> toLowerCase s = weave (map toLowerCase (p # q # ps)) gs"
    then obtain g gs where gs: "length gs = length ps"
      "toLowerCase s = toLowerCase p @ g @ weave (map toLowerCase (q # ps)) gs"
      by (auto simp: length_Suc_conv)
    from arg_cong [OF gs(2), of length] have len: "length g \<le> length s - length p" by simp
    have "drop (length g) (drop (length p) (toLowerCase s)) = weave (map toLowerCase (q # ps)) gs"
      unfolding gs(2) by simp
    with gs(1) have "match_parts (q # ps) (drop (length g) (drop (length p) s))" unfolding IH [OF len] by blast
    with len gs(2) show "match_parts (p # q # ps) s" unfolding match_parts_Cons2 by auto
  qed
qed auto

section \<open>Properties\<close>

text \<open>C31: writing well-formed terms one after the other and parsing the text gives the terms back and
  no free text, whatever characters their values hold: quotes, backslashes, white space and colons
  are protected by the quoting, and a wildcard value with blanks stays a wildcard.\<close>

theorem search_terms_round_trip:
  assumes "field_names_ok flds" and "ts \<noteq> []" and "list_all (term_ok flds) ts"
  shows "parseLogSearch (join '' '' (map serializeLogTerm ts)) flds = \<lparr>ps_plain = [], ps_terms = ts\<rparr>"
  using assms by (rule parse_serialized)

theorem search_terms_round_trip_witness:
  "parseLogSearch (join '' ''
     (map serializeLogTerm
       [\<lparr>te_field = None, te_resource = True, te_key = ''k8s.pod'', te_value = ''a b'', te_quoted = False,
         te_negated = True\<rparr>])) (map fst logFields) =
   \<lparr>ps_plain = [], ps_terms =
     [\<lparr>te_field = None, te_resource = True, te_key = ''k8s.pod'', te_value = ''a b'', te_quoted = False,
       te_negated = True\<rparr>]\<rparr>"
proof (rule search_terms_round_trip)
  show "field_names_ok (map fst logFields)"
    by (simp add: field_names_ok_def logFields_def key_char_def plain_char_def token_space_def)
qed (simp_all add: term_ok_def logTermKey_def logFields_def key_char_def plain_char_def token_space_def)

text \<open>An unquoted term without a comparison matches a string exactly when, letter case aside, the
  string is the pieces of the term's value between its stars with some text in the place of each star,
  and a quoted term when the string is its value: no other character of the value is special.\<close>

theorem wildcard_exact:
  assumes "logComparison t = None"
  shows "term_matches num_text t False (Some (JStr s)) \<longleftrightarrow>
    (if te_quoted t then toLowerCase s = toLowerCase (te_value t)
     else \<exists>gaps. length gaps = length (split_char CHR ''*'' (te_value t)) - 1 \<and>
       toLowerCase s = weave (map toLowerCase (split_char CHR ''*'' (te_value t))) gaps)"
proof -
  have star: "match_parts (split_char CHR ''*'' ''*'') s"
    by (simp add: match_parts_Cons2 del: match_parts.simps(3)) (auto intro: exI [of _ "length s"])
  have "term_matches num_text t False (Some (JStr s)) \<longleftrightarrow> match_parts (term_parts t) s"
    using assms star by (auto simp: term_matches_def value_string_def term_parts_def)
  then show ?thesis by (simp add: term_parts_def match_parts_weave)
qed

theorem wildcard_exact_witness:
  "term_matches (\<lambda>_. []) \<lparr>te_field = None, te_resource = False, te_key = ''k'', te_value = ''a*c'',
     te_quoted = False, te_negated = False\<rparr> False (Some (JStr ''ABBC''))"
proof -
  have "logComparison \<lparr>te_field = None, te_resource = False, te_key = ''k'', te_value = ''a*c'',
     te_quoted = False, te_negated = False\<rparr> = None" by (simp add: logComparison_def split_operator_def)
  moreover have "toLowerCase ''ABBC'' = weave (map toLowerCase (split_char CHR ''*'' ''a*c'')) [''bb'']"
    by code_simp
  ultimately show ?thesis
    by (subst wildcard_exact) (simp_all del: weave.simps, intro exI [of _ "[''bb'']"], simp)
qed

end
