(* ===== verification/LogFilter.thy ===== *)
theory LogFilter
  imports SearchSyntax
begin

text \<open>
  The filter editor of \<^verbatim>\<open>lib/log-filter.ts\<close>: the drafts a user edits, their validation,
  and their translation to and from search terms. The text of a number (\<open>String(n)\<close>) is the
  parameter \<open>num_text\<close>.
\<close>

section \<open>Operators and drafts\<close>

datatype filter_operator =
    Is
  | IsNot
  | Contains
  | NotContains
  | Matches
  | NotMatches
  | Exists
  | NotExists
  | Compare comparison_op

fun operator_value :: "filter_operator \<Rightarrow> string" where
  "operator_value Is = ''is''"
| "operator_value IsNot = ''is_not''"
| "operator_value Contains = ''contains''"
| "operator_value NotContains = ''not_contains''"
| "operator_value Matches = ''matches''"
| "operator_value NotMatches = ''not_matches''"
| "operator_value Exists = ''exists''"
| "operator_value NotExists = ''not_exists''"
| "operator_value (Compare c) = op_text c"

text \<open>The display labels are left out.\<close>

definition logFilterOperators :: "filter_operator list" where
  "logFilterOperators =
     [Is, IsNot, Contains, NotContains, Matches, NotMatches, Exists, NotExists,
      Compare Greater, Compare GreaterEq, Compare Less, Compare LessEq]"

record filter_draft =
  df_key :: string
  df_operator :: filter_operator
  df_value :: string

definition is_numeric :: "filter_operator \<Rightarrow> bool" where
  "is_numeric op \<longleftrightarrow> (case op of Compare _ \<Rightarrow> True | _ \<Rightarrow> False)"

definition filterDraft :: "(number \<Rightarrow> string) \<Rightarrow> search_term option \<Rightarrow> filter_draft" where
  "filterDraft num_text term =
     (case term of
        None \<Rightarrow> \<lparr>df_key = [], df_operator = Is, df_value = []\<rparr>
      | Some t \<Rightarrow>
          let key = logTermKey t; draft = (\<lambda>op v. \<lparr>df_key = key, df_operator = op, df_value = v\<rparr>)
          in case logComparison t of
               Some (operator, x) \<Rightarrow>
                 if te_negated t then draft NotMatches (te_value t)
                 else draft (Compare operator) (num_text x)
             | None \<Rightarrow>
                 if \<not> te_quoted t \<and> te_value t = ''*''
                 then draft (if te_negated t then NotExists else Exists) []
                 else if \<not> te_quoted t \<and> startsWith (te_value t) ''*'' \<and> endsWith (te_value t) ''*''
                 then draft (if te_negated t then NotContains else Contains) (js_slice 1 (- 1) (te_value t))
                 else if \<not> te_quoted t \<and> CHR ''*'' \<in> set (te_value t)
                 then draft (if te_negated t then NotMatches else Matches) (te_value t)
                 else draft (if te_negated t then IsNot else Is) (te_value t))"

text \<open>The test \<open>/^(attributes|resource)\.[^\s:"]+$/\<close>.\<close>

definition key_rest_ok :: "string \<Rightarrow> bool" where
  "key_rest_ok s \<longleftrightarrow> s \<noteq> [] \<and> list_all (\<lambda>c. \<not> js_whitespace c \<and> c \<noteq> CHR '':'' \<and> c \<noteq> CHR 0x22) s"

definition attribute_key_ok :: "string \<Rightarrow> bool" where
  "attribute_key_ok key \<longleftrightarrow>
     startsWith key ''attributes.'' \<and> key_rest_ok (drop 11 key) \<or>
     startsWith key ''resource.'' \<and> key_rest_ok (drop 9 key)"

datatype draft_error = ChooseField | NumericFieldRequired | FiniteNumberRequired | ValueRequired

fun draft_error_text :: "draft_error \<Rightarrow> string" where
  "draft_error_text ChooseField = ''Choose a field, attributes.key, or resource.key.''"
| "draft_error_text NumericFieldRequired = ''Numeric comparisons require a numeric field.''"
| "draft_error_text FiniteNumberRequired = ''Enter a finite number for this operator.''"
| "draft_error_text ValueRequired = ''Enter a value to match.''"

definition filterDraftError :: "filter_draft \<Rightarrow> string list \<Rightarrow> string list \<Rightarrow> draft_error option" where
  "filterDraftError draft flds numericFields =
     (let key = trim (df_key draft)
      in if key \<notin> set flds \<and> \<not> attribute_key_ok key then Some ChooseField
         else if key \<in> set flds \<and> key \<notin> set numericFields \<and> is_numeric (df_operator draft)
         then Some NumericFieldRequired
         else if is_numeric (df_operator draft) \<and> finite_number (df_value draft) = None
         then Some FiniteNumberRequired
         else if df_operator draft \<in> {Contains, NotContains, Matches, NotMatches} \<and> df_value draft = []
         then Some ValueRequired
         else None)"

text \<open>A clicked value: \<open>None\<close> is \<open>undefined\<close>.\<close>

definition valueToFilterDraft :: "(number \<Rightarrow> string) \<Rightarrow> string \<Rightarrow> json option \<Rightarrow> filter_draft" where
  "valueToFilterDraft num_text key val =
     \<lparr>df_key = key,
      df_operator =
        (case val of
           None \<Rightarrow> NotExists
         | Some JNull \<Rightarrow> NotExists
         | Some (JArr _) \<Rightarrow> Exists
         | Some (JObj _) \<Rightarrow> Exists
         | Some _ \<Rightarrow> Is),
      df_value =
        (case val of
           Some (JStr s) \<Rightarrow> s
         | Some (JNum n) \<Rightarrow> num_text n
         | Some (JBool b) \<Rightarrow> (if b then ''true'' else ''false'')
         | _ \<Rightarrow> [])\<rparr>"

definition draftTerm :: "filter_draft \<Rightarrow> string list \<Rightarrow> search_term" where
  "draftTerm draft flds =
     (let key = trim (df_key draft); operator = df_operator draft
      in \<lparr>te_field = (if key \<in> set flds then Some key else None),
          te_resource = startsWith key ''resource.'',
          te_key = after_dot key,
          te_value =
            (case operator of
               Exists \<Rightarrow> ''*''
             | NotExists \<Rightarrow> ''*''
             | Contains \<Rightarrow> ''*'' @ df_value draft @ ''*''
             | NotContains \<Rightarrow> ''*'' @ df_value draft @ ''*''
             | Compare c \<Rightarrow> op_text c @ df_value draft
             | _ \<Rightarrow> df_value draft),
          te_quoted = (operator = Is \<or> operator = IsNot),
          te_negated = (operator \<in> {IsNot, NotContains, NotExists, NotMatches})\<rparr>)"

section \<open>Lemmas\<close>

text \<open>The field names of a signal: what the two grammars have in common.\<close>

definition plain_fields :: "string list \<Rightarrow> bool" where
  "plain_fields flds \<longleftrightarrow>
     field_names_ok flds \<and> (\<forall>f \<in> set flds. CHR ''.'' \<notin> set f \<and> list_all (\<lambda>c. \<not> js_whitespace c) f)"

lemma trim_no_space: "list_all (\<lambda>c. \<not> js_whitespace c) s \<Longrightarrow> trim s = s"
  by (rule trim_id) (cases "s = []", auto simp: list_all_iff)

lemma after_dot_none: "CHR ''.'' \<notin> set s \<Longrightarrow> after_dot s = s"
proof -
  assume "CHR ''.'' \<notin> set s"
  then have "index_of CHR ''.'' s = None" unfolding index_of_def find_index_None by auto
  then show "after_dot s = s" by (simp add: after_dot_def)
qed

lemma op_text_nonempty [simp]: "op_text c \<noteq> []"
  by (cases c) simp_all

lemma key_rest_key_chars: "key_rest_ok s \<Longrightarrow> list_all key_char s"
  using token_space_whitespace by (fastforce simp: key_rest_ok_def list_all_iff key_char_def plain_char_def)

lemma attribute_key_parts:
  assumes "attribute_key_ok key"
  obtains k where "key_rest_ok k" "key = (if startsWith key ''resource.'' then ''resource'' else ''attributes'') @ ''.'' @ k"
proof -
  consider r where "key = ''attributes.'' @ r" "key_rest_ok r" | r where "key = ''resource.'' @ r" "key_rest_ok r"
    using assms by (auto simp: attribute_key_ok_def startsWith_iff)
  then show thesis by cases (auto intro: that)
qed

lemma finite_number_head:
  assumes "finite_number s = Some x"
  obtains c r where "s = c # r" "c \<noteq> CHR ''=''"
proof (cases s)
  case Nil
  with assms show thesis
    by (simp add: finite_number_def decimal_value_def split_sign_def split_exponent_def split_fraction_def)
next
  case (Cons c r)
  have "c \<noteq> CHR ''=''"
  proof
    assume c: "c = CHR ''=''"
    have f: "split_fraction (CHR ''='' # u) = None" for u
      by (simp add: split_fraction_def is_digit_def char_code_def)
    have "decimal_value s = None"
    proof (cases "split_exponent s")
      case (Some me)
      then obtain u where "fst me = CHR ''='' # u"
        using Cons c by (auto simp: split_exponent_def Let_def split: option.splits if_splits prod.splits)
      with Some Cons c f show ?thesis by (cases me) (simp add: decimal_value_def split_sign_def)
    qed (use Cons c in \<open>simp add: decimal_value_def split_sign_def\<close>)
    with assms show False by (simp add: finite_number_def)
  qed
  with Cons show thesis by (rule that)
qed

lemma split_operator_text:
  assumes "finite_number s = Some x"
  shows "split_operator (op_text c @ s) = Some (c, s)"
proof -
  from assms obtain d r where "s = d # r" "d \<noteq> CHR ''=''" by (rule finite_number_head)
  then show ?thesis by (cases c) (simp_all add: split_operator_def)
qed

text \<open>The key of an accepted draft.\<close>

lemma draft_key_ok:
  assumes "plain_fields flds" and "filterDraftError d flds nums = None"
  shows "case te_field (draftTerm d flds) of
      Some f \<Rightarrow> f \<in> set flds \<and> te_key (draftTerm d flds) = f \<and> \<not> te_resource (draftTerm d flds)
    | None \<Rightarrow> te_key (draftTerm d flds) \<noteq> [] \<and> list_all key_char (te_key (draftTerm d flds)) \<and>
        logTermKey (draftTerm d flds) \<notin> set flds"
proof (cases "trim (df_key d) \<in> set flds")
  case True
  with assms(1) have "\<not> startsWith (trim (df_key d)) ''resource.''" "CHR ''.'' \<notin> set (trim (df_key d))"
    by (auto simp: plain_fields_def field_names_ok_def)
  with True show ?thesis by (simp add: draftTerm_def Let_def after_dot_none)
next
  case False
  with assms(2) have "attribute_key_ok (trim (df_key d))"
    by (auto simp: filterDraftError_def Let_def split: if_splits)
  then obtain k where k: "key_rest_ok k"
    "trim (df_key d) = (if startsWith (trim (df_key d)) ''resource.'' then ''resource'' else ''attributes'') @ ''.'' @ k"
    by (rule attribute_key_parts)
  from k(2) have "after_dot (trim (df_key d)) = k"
    by (auto simp: after_dot_def index_of_def split: if_splits)
  moreover from this k(2) have "logTermKey (draftTerm d flds) = trim (df_key d)"
    using False by (simp add: logTermKey_def draftTerm_def Let_def)
  ultimately show ?thesis
    using False k(1) key_rest_key_chars [OF k(1)] by (simp add: draftTerm_def Let_def key_rest_ok_def)
qed

lemma accepted_term_ok:
  assumes "plain_fields flds" and "filterDraftError d flds nums = None"
  shows "term_ok flds (draftTerm d flds)"
proof -
  have "te_quoted (draftTerm d flds) \<or> te_value (draftTerm d flds) \<noteq> []"
    using assms(2) by (auto simp: filterDraftError_def draftTerm_def Let_def
        split: filter_operator.split if_splits)
  with draft_key_ok [OF assms] show ?thesis by (simp add: term_ok_def)
qed

lemma match_self: "match_parts [s] s"
  by simp

lemma edit_key:
  assumes "plain_fields flds" and "term_ok flds t" and "list_all (\<lambda>c. \<not> js_whitespace c) (te_key t)"
  shows "trim (logTermKey t) = logTermKey t"
    and "logTermKey t \<in> set flds \<longleftrightarrow> te_field t \<noteq> None"
    and "(if logTermKey t \<in> set flds then Some (logTermKey t) else None) = te_field t"
    and "startsWith (logTermKey t) ''resource.'' \<longleftrightarrow> te_resource t"
    and "after_dot (logTermKey t) = te_key t"
proof -
  have f: "field_names_ok flds" using assms(1) by (simp add: plain_fields_def)
  note k = key_text_ok [OF f assms(2)]
  show "trim (logTermKey t) = logTermKey t"
    by (rule trim_no_space)
      (use assms in \<open>auto simp: plain_fields_def term_ok_def logTermKey_def js_whitespace_def char_code_def
        split: option.splits\<close>)
  show "logTermKey t \<in> set flds \<longleftrightarrow> te_field t \<noteq> None" by (rule k(4))
  show "(if logTermKey t \<in> set flds then Some (logTermKey t) else None) = te_field t"
    using k(4) by (auto simp: logTermKey_def split: option.splits)
  show "startsWith (logTermKey t) ''resource.'' \<longleftrightarrow> te_resource t" by (rule k(3))
  show "after_dot (logTermKey t) = te_key t"
  proof (cases "te_field t")
    case (Some g)
    with assms show ?thesis
      by (simp add: term_ok_def plain_fields_def logTermKey_def after_dot_none)
  qed (rule k(6))
qed

lemma edit_head:
  assumes "plain_fields flds" and "term_ok flds t" and "list_all (\<lambda>c. \<not> js_whitespace c) (te_key t)"
  shows "let t' = draftTerm (filterDraft num_text (Some t)) flds in
    te_field t' = te_field t \<and> te_resource t' = te_resource t \<and> te_key t' = te_key t"
proof -
  have "df_key (filterDraft num_text (Some t)) = logTermKey t"
    by (simp add: filterDraft_def Let_def split: option.split prod.split)
  with edit_key [OF assms] show ?thesis by (simp add: draftTerm_def Let_def)
qed

lemma starred:
  assumes "startsWith v ''*''" and "endsWith v ''*''" and "v \<noteq> ''*''"
  shows "CHR ''*'' # js_slice 1 (- 1) v @ ''*'' = v"
proof -
  from assms(1) obtain r where r: "v = CHR ''*'' # r" by (auto simp: startsWith_iff)
  from assms(2) obtain q where q: "v = q @ ''*''" by (auto simp: endsWith_iff)
  from r q assms(3) obtain m where "v = CHR ''*'' # m @ ''*''" by (cases q) auto
  then show ?thesis by (simp add: js_slice_def slice_pos_def)
qed

lemma matcher_cong:
  assumes "te_value t' = te_value t" and "te_quoted t' = te_quoted t" and "te_negated t' = te_negated t"
  shows "createTermMatcher num_text t' numericField val = createTermMatcher num_text t numericField val"
proof -
  have c: "logComparison t' = logComparison t" "term_parts t' = term_parts t"
    using assms by (simp_all add: logComparison_def term_parts_def)
  show ?thesis unfolding createTermMatcher_def term_matches_def c assms ..
qed

lemma term_matches_comparison:
  assumes "logComparison t = Some (oper, x)"
  shows "term_matches num_text t numericField val =
    (case val of Some (JNum n) \<Rightarrow> compare_number oper n x | _ \<Rightarrow> False)"
  unfolding term_matches_def assms by (cases val) (simp_all split: json.splits)

lemma term_matches_absent: "val = None \<or> val = Some JNull \<Longrightarrow> \<not> term_matches num_text t numericField val"
  unfolding term_matches_def by auto

lemma term_matches_star:
  assumes "logComparison t = None" and "\<not> te_quoted t" and "te_value t = ''*''"
  shows "term_matches num_text t numericField val \<longleftrightarrow> (\<exists>v. val = Some v \<and> v \<noteq> JNull)"
  unfolding term_matches_def assms by (cases val) (use assms in auto)

lemma term_matches_plain:
  assumes "logComparison t = None" and "te_quoted t \<or> te_value t \<noteq> ''*''"
  shows "term_matches num_text t numericField val =
    (case val of
       None \<Rightarrow> False
     | Some v \<Rightarrow> v \<noteq> JNull \<and>
         (if numericField \<and> finite_number (te_value t) \<noteq> None
          then (case v of JNum n \<Rightarrow> Some n = finite_number (te_value t) | _ \<Rightarrow> False)
          else (case value_string num_text v of None \<Rightarrow> False | Some s \<Rightarrow> match_parts (term_parts t) s)))"
proof -
  from assms(2) have q: "(\<not> te_quoted t \<and> te_value t = ''*'') = False" by blast
  show ?thesis unfolding term_matches_def assms(1) option.case q if_False
    by (rule option.case_cong) (auto simp only: if_split)
qed

lemma edit_value:
  assumes "\<forall>operator x. logComparison t = Some (operator, x) \<longrightarrow> finite_number (num_text x) = Some x"
  shows "createTermMatcher num_text (draftTerm (filterDraft num_text (Some t)) flds) numericField val =
    createTermMatcher num_text t numericField val"
proof -
  let ?t = "draftTerm (filterDraft num_text (Some t)) flds"
  have same: ?thesis if "te_value ?t = te_value t" "te_quoted ?t = te_quoted t" "te_negated ?t = te_negated t"
    using that by (rule matcher_cong)
  show ?thesis
  proof (cases "logComparison t")
    case (Some oc)
    then obtain oper x where oc: "logComparison t = Some (oper, x)" by (cases oc) auto
    then have q: "\<not> te_quoted t" by (auto simp: logComparison_def split: if_splits)
    show ?thesis
    proof (cases "te_negated t")
      case True
      with oc q show ?thesis by (intro same) (simp_all add: draftTerm_def filterDraft_def Let_def)
    next
      case False
      with oc have t: "te_value ?t = op_text oper @ num_text x" "\<not> te_quoted ?t" "\<not> te_negated ?t"
        by (simp_all add: draftTerm_def filterDraft_def Let_def)
      with assms oc have "logComparison ?t = Some (oper, x)"
        by (simp add: logComparison_def split_operator_text)
      from this oc show ?thesis
        unfolding createTermMatcher_def by (simp add: term_matches_comparison False t(3))
    qed
  next
    case None
    consider "\<not> te_quoted t" "CHR ''*'' \<in> set (te_value t)" | "te_quoted t \<or> CHR ''*'' \<notin> set (te_value t)" by blast
    then show ?thesis
    proof cases
      case 1
      with None show ?thesis
        by (intro same) (auto simp: draftTerm_def filterDraft_def Let_def starred)
    next
      case 2
      then have "te_quoted t \<or> \<not> startsWith (te_value t) ''*'' \<and> te_value t \<noteq> ''*''"
        by (auto simp: startsWith_iff)
      with 2 None have t: "te_value ?t = te_value t" "te_quoted ?t" "te_negated ?t = te_negated t"
        by (auto simp: draftTerm_def filterDraft_def Let_def)
      then have "logComparison ?t = None" by (simp add: logComparison_def)
      moreover have "term_parts ?t = term_parts t"
        using 2 t by (auto simp: term_parts_def split_char_single)
      moreover have "te_quoted t \<or> te_value t \<noteq> ''*''" using 2 by auto
      ultimately have "term_matches num_text ?t numericField val = term_matches num_text t numericField val"
        by (simp only: term_matches_plain [OF \<open>logComparison ?t = None\<close> disjI1 [OF t(2)]]
            term_matches_plain [OF None] t(1))
      then show ?thesis unfolding createTermMatcher_def t(3) by simp
    qed
  qed
qed

lemma clicked_matches:
  assumes num: "\<forall>n. val = Some (JNum n) \<longrightarrow> finite_number (num_text n) = Some n"
    and field: "numericField \<longrightarrow> (\<nexists>s. val = Some (JStr s)) \<and> (\<nexists>b. val = Some (JBool b))"
  shows "createTermMatcher num_text (draftTerm (valueToFilterDraft num_text key val) flds) numericField val"
proof -
  let ?d = "valueToFilterDraft num_text key val"
  let ?t = "draftTerm ?d flds"
  have op: "te_quoted ?t = (df_operator ?d = Is \<or> df_operator ?d = IsNot)"
    "te_negated ?t = (df_operator ?d \<in> {IsNot, NotContains, NotExists, NotMatches})"
    by (simp_all add: draftTerm_def Let_def)
  have absent: ?thesis if "val = None \<or> val = Some JNull"
  proof -
    have "df_operator ?d = NotExists" using that by (auto simp: valueToFilterDraft_def)
    then have "te_negated ?t" using op by simp
    with term_matches_absent [OF that] show ?thesis by (simp add: createTermMatcher_def)
  qed
  have complex: ?thesis if "df_operator ?d = Exists" "val = Some v" "v \<noteq> JNull" for v
  proof -
    have "te_value ?t = ''*''" using that(1) by (simp add: draftTerm_def Let_def)
    moreover from this have "logComparison ?t = None"
      by (simp add: logComparison_def split_operator_def)
    ultimately show ?thesis
      using that op term_matches_star [of ?t] by (simp add: createTermMatcher_def)
  qed
  have simple: ?thesis
    if "df_operator ?d = Is" "val = Some v" "v \<noteq> JNull" "value_string num_text v = Some (df_value ?d)"
      "numericField \<longrightarrow> (\<exists>n. v = JNum n \<and> finite_number (df_value ?d) = Some n)" for v
  proof -
    have t: "te_value ?t = df_value ?d" "te_quoted ?t" "\<not> te_negated ?t"
      using that(1) op by (simp_all add: draftTerm_def Let_def)
    have "logComparison ?t = None" using t(2) by (simp add: logComparison_def)
    moreover have "term_parts ?t = [df_value ?d]" using t by (simp add: term_parts_def)
    ultimately show ?thesis
      using t that by (auto simp: createTermMatcher_def term_matches_plain)
  qed
  show ?thesis
  proof (cases val)
    case (Some v)
    show ?thesis
    proof (cases v)
      case (JArr js)
      with Some show ?thesis by (intro complex [of v]) (simp_all add: valueToFilterDraft_def)
    next
      case (JObj kvs)
      with Some show ?thesis by (intro complex [of v]) (simp_all add: valueToFilterDraft_def)
    qed (use Some num field in
        \<open>(intro absent simple [of v]; simp add: valueToFilterDraft_def value_string_def)\<close>)+
  qed (rule absent; simp)
qed

lemma finite_number_int:
  assumes "decimal_value s = Some (of_int n)" and "safe_int n"
  shows "finite_number s = Some (of_int n)"
proof -
  have "(of_int \<bar>n\<bar> :: rat) < of_int (2 ^ 53)" using assms(2) by (simp only: of_int_less_iff safe_int_def)
  moreover have "(2 :: rat) ^ 53 < 2 ^ 1024 - 2 ^ 970" by simp
  ultimately have "\<bar>of_int n :: rat\<bar> < 2 ^ 1024 - 2 ^ 970" by simp
  with assms show ?thesis by (simp add: finite_number_def)
qed

lemma finite_number_digits: "finite_number ''9'' = Some 9" "finite_number ''4'' = Some 4"
proof -
  have "decimal_value ''9'' = Some (of_int 9)" "decimal_value ''4'' = Some (of_int 4)" by code_simp+
  from this [THEN finite_number_int] show "finite_number ''9'' = Some 9" "finite_number ''4'' = Some 4"
    by (simp_all add: safe_int_def)
qed

section \<open>Properties\<close>

text \<open>A draft the editor accepts becomes a term that survives the trip through the URL: its
  serialisation parses back to exactly that term, with no free text left over.\<close>

theorem accepted_draft_round_trip:
  assumes "plain_fields flds" and "filterDraftError d flds nums = None"
  shows "parseLogSearch (serializeLogTerm (draftTerm d flds)) flds =
    \<lparr>ps_plain = [], ps_terms = [draftTerm d flds]\<rparr>"
  using assms accepted_term_ok [OF assms] parse_serialized [of flds "[draftTerm d flds]"]
  by (simp add: plain_fields_def)

theorem accepted_draft_round_trip_witness:
  "parseLogSearch (serializeLogTerm
      (draftTerm \<lparr>df_key = '' resource.host '', df_operator = Contains, df_value = ''a b''\<rparr> [''body''])) [''body''] =
    \<lparr>ps_plain = [], ps_terms =
      [draftTerm \<lparr>df_key = '' resource.host '', df_operator = Contains, df_value = ''a b''\<rparr> [''body'']]\<rparr>"
proof (rule accepted_draft_round_trip)
  show "plain_fields [''body'']" by code_simp
  show "filterDraftError \<lparr>df_key = '' resource.host '', df_operator = Contains, df_value = ''a b''\<rparr> [''body''] []
    = None" by code_simp
qed

text \<open>Opening a filter in the editor and applying it unchanged keeps its meaning: the term of its
  draft has the same field and key and accepts the same values, for every kind of operator the draft
  may show, provided the text of the compared number reads back as that number.\<close>

theorem edit_preserves_meaning:
  assumes "plain_fields flds" and "term_ok flds t" and "list_all (\<lambda>c. \<not> js_whitespace c) (te_key t)"
    and "\<forall>operator x. logComparison t = Some (operator, x) \<longrightarrow> finite_number (num_text x) = Some x"
  shows "let t' = draftTerm (filterDraft num_text (Some t)) flds in
    te_field t' = te_field t \<and> te_resource t' = te_resource t \<and> te_key t' = te_key t \<and>
    createTermMatcher num_text t' numericField val = createTermMatcher num_text t numericField val"
  using edit_value [of t num_text flds numericField val] edit_head [OF assms(1-3), of num_text] assms(4)
  by (simp add: Let_def)

theorem edit_preserves_meaning_witness:
  "let t = \<lparr>te_field = Some ''severity_number'', te_resource = False, te_key = ''severity_number'',
        te_value = ''>=9'', te_quoted = False, te_negated = False\<rparr>;
       t' = draftTerm (filterDraft (\<lambda>_. ''9'') (Some t)) [''severity_number'']
   in te_field t' = te_field t \<and> te_resource t' = te_resource t \<and> te_key t' = te_key t \<and>
      createTermMatcher (\<lambda>_. ''9'') t' True (Some (JNum 17)) = createTermMatcher (\<lambda>_. ''9'') t True (Some (JNum 17))"
proof -
  let ?t = "\<lparr>te_field = Some ''severity_number'', te_resource = False, te_key = ''severity_number'',
        te_value = ''>=9'', te_quoted = False, te_negated = False\<rparr>"
  have "plain_fields [''severity_number'']" by code_simp
  moreover have "term_ok [''severity_number''] ?t" by code_simp
  moreover have "list_all (\<lambda>c. \<not> js_whitespace c) (te_key ?t)" by code_simp
  moreover have n: "finite_number ''9'' = Some 9" by (rule finite_number_digits)
  then have "logComparison ?t = Some (GreaterEq, 9)" by (simp add: logComparison_def split_operator_def)
  with n have "\<forall>operator x. logComparison ?t = Some (operator, x) \<longrightarrow> finite_number ''9'' = Some x" by auto
  ultimately show ?thesis unfolding Let_def [of ?t] by (rule edit_preserves_meaning)
qed

text \<open>Filtering by a value clicked in a detail view selects the record it was clicked in: the term
  made from the value matches that value, also where the value is missing, null, an array or an
  object.\<close>

theorem clicked_value_matches:
  assumes "\<forall>n. val = Some (JNum n) \<longrightarrow> finite_number (num_text n) = Some n"
    and "numericField \<longrightarrow> (\<nexists>s. val = Some (JStr s)) \<and> (\<nexists>b. val = Some (JBool b))"
  shows "createTermMatcher num_text (draftTerm (valueToFilterDraft num_text key val) flds) numericField val"
  using assms by (rule clicked_matches)

theorem clicked_value_matches_witness:
  "createTermMatcher (\<lambda>_. ''4'') (draftTerm (valueToFilterDraft (\<lambda>_. ''4'') ''severity_number'' (Some (JNum 4)))
     [''severity_number'']) True (Some (JNum 4))"
proof (rule clicked_value_matches)
  have "finite_number ''4'' = Some 4" by (rule finite_number_digits)
  then show "\<forall>n. Some (JNum 4) = Some (JNum n) \<longrightarrow> finite_number ''4'' = Some n" by auto
qed simp_all

end
