(* ===== verification/TraceSearch.thy ===== *)
theory TraceSearch
  imports LogFilter
begin

text \<open>
  The trace search of \<^verbatim>\<open>lib/trace-search.ts\<close>. A \<open>Partial<SpanData>\<close> is a record of
  optional fields. The text of an event has the keys in the order of its interface.
\<close>

section \<open>Fields\<close>

definition traceFields :: "string list" where
  "traceFields =
     [''trace_id'', ''span_id'', ''parent_span_id'', ''service_name'', ''name'', ''kind'', ''status_code'',
      ''status_message'', ''duration_ms'']"

record part_span =
  pt_traceId :: "string option"
  pt_spanId :: "string option"
  pt_parentSpanId :: "string option"
  pt_serviceName :: "string option"
  pt_name :: "string option"
  pt_kind :: "string option"
  pt_statusCode :: "string option"
  pt_statusMessage :: "string option"
  pt_duration :: "number option"
  pt_attributes :: "attrs option"
  pt_resource :: "attrs option"
  pt_events :: "span_event list option"

fun status_text :: "span_status \<Rightarrow> string" where
  "status_text Unset = ''Unset''"
| "status_text Ok = ''Ok''"
| "status_text Error = ''Error''"

text \<open>A span of a loaded trace, and what a summary row stands for.\<close>

definition full_span :: "span \<Rightarrow> part_span" where
  "full_span s =
     \<lparr>pt_traceId = Some (sp_traceId s), pt_spanId = Some (sp_spanId s), pt_parentSpanId = Some (sp_parentSpanId s),
      pt_serviceName = Some (sp_serviceName s), pt_name = Some (sp_name s), pt_kind = Some (sp_kind s),
      pt_statusCode = Some (status_text (sp_statusCode s)), pt_statusMessage = Some (sp_statusMessage s),
      pt_duration = Some (sp_duration s), pt_attributes = Some (sp_attributes s),
      pt_resource = Some (sp_resource s), pt_events = Some (sp_events s)\<rparr>"

definition summary_span :: "trace \<Rightarrow> part_span" where
  "summary_span t =
     \<lparr>pt_traceId = Some (tr_traceId t), pt_spanId = None, pt_parentSpanId = None,
      pt_serviceName = Some (tr_serviceName t),
      pt_name = map_option rt_name (tr_rootSpan t), pt_kind = map_option rt_kind (tr_rootSpan t),
      pt_statusCode = map_option (status_text \<circ> rt_statusCode) (tr_rootSpan t), pt_statusMessage = None,
      pt_duration = map_option rt_duration (tr_rootSpan t), pt_attributes = None, pt_resource = None,
      pt_events = None\<rparr>"

definition spanFields :: "part_span \<Rightarrow> string \<Rightarrow> string option" where
  "spanFields s field =
     (if field = ''trace_id'' then pt_traceId s
      else if field = ''span_id'' then pt_spanId s
      else if field = ''parent_span_id'' then pt_parentSpanId s
      else if field = ''service_name'' then pt_serviceName s
      else if field = ''name'' then pt_name s
      else if field = ''kind'' then pt_kind s
      else if field = ''status_code'' then pt_statusCode s
      else if field = ''status_message'' then pt_statusMessage s
      else None)"

definition traceTermValue :: "part_span \<Rightarrow> search_term \<Rightarrow> json option" where
  "traceTermValue s t =
     (case te_field t of
        Some field \<Rightarrow>
          if field = ''duration_ms'' then map_option (\<lambda>d. JNum (num_div d 1000000)) (pt_duration s)
          else
            let val = spanFields s field
            in if endsWith field ''_id'' \<and> (case val of None \<Rightarrow> True | Some v \<Rightarrow> zero_id v) then None
               else map_option JStr val
      | None \<Rightarrow>
          map_of (case (if te_resource t then pt_resource s else pt_attributes s) of None \<Rightarrow> [] | Some a \<Rightarrow> a)
            (te_key t))"

definition parseTraceSearch :: "string \<Rightarrow> parsed_search" where
  "parseTraceSearch search = parseLogSearch search traceFields"

section \<open>The matcher\<close>

definition event_json :: "span_event \<Rightarrow> json" where
  "event_json e =
     JObj [(''name'', JStr (ev_name e)), (''timestamp'', JStr (ev_timestamp e)),
           (''attributes'', JObj (ev_attributes e))]"

definition opt_has_text :: "string \<Rightarrow> string option \<Rightarrow> bool" where
  "opt_has_text q v = (case v of None \<Rightarrow> False | Some s \<Rightarrow> has_text s q)"

definition trace_values :: "trace \<Rightarrow> string option list" where
  "trace_values t =
     [Some (tr_traceId t), Some (tr_serviceName t), map_option rt_name (tr_rootSpan t),
      map_option (status_text \<circ> rt_statusCode) (tr_rootSpan t)] @
     map Some (case tr_searchValues t of None \<Rightarrow> [] | Some vs \<Rightarrow> vs)"

definition span_values :: "(number \<Rightarrow> string) \<Rightarrow> part_span \<Rightarrow> string option list" where
  "span_values num_text s =
     [pt_traceId s, pt_spanId s, pt_name s, pt_statusCode s, pt_statusMessage s, pt_serviceName s,
      map_option (\<lambda>a. json_text num_text (JObj a)) (pt_attributes s),
      map_option (\<lambda>a. json_text num_text (JObj a)) (pt_resource s),
      map_option (\<lambda>es. json_text num_text (JArr (map event_json es))) (pt_events s)]"

definition trace_spans :: "trace \<Rightarrow> part_span list" where
  "trace_spans t = (if tr_spans t \<noteq> [] then map full_span (tr_spans t) else [summary_span t])"

definition SUMMARY_FIELDS :: "string list" where
  "SUMMARY_FIELDS = [''trace_id'', ''service_name'', ''name'', ''kind'', ''status_code'', ''duration_ms'']"

text \<open>The terms a summary row cannot decide, in either direction.\<close>

definition summary_undecided :: "trace \<Rightarrow> search_term list \<Rightarrow> bool" where
  "summary_undecided t terms \<longleftrightarrow>
     list_ex (\<lambda>term. case te_field term of None \<Rightarrow> True | Some f \<Rightarrow> f \<notin> set SUMMARY_FIELDS) terms \<or>
     (tr_rootSpan t = None \<and>
      list_ex (\<lambda>term. te_field term \<noteq> Some ''trace_id'' \<and> te_field term \<noteq> Some ''service_name'') terms)"

definition span_matches_terms :: "(number \<Rightarrow> string) \<Rightarrow> search_term list \<Rightarrow> part_span \<Rightarrow> bool" where
  "span_matches_terms num_text terms s =
     list_all (\<lambda>term. createTermMatcher num_text term (te_field term = Some ''duration_ms'') (traceTermValue s term))
       terms"

definition createTraceSearchMatcher :: "(number \<Rightarrow> string) \<Rightarrow> string \<Rightarrow> trace \<Rightarrow> bool" where
  "createTraceSearchMatcher num_text search t =
     (let parsed = parseTraceSearch search; terms = ps_terms parsed; q = toLowerCase (ps_plain parsed)
      in if terms = [] \<and> (q = [] \<or> list_ex (opt_has_text q) (trace_values t)) then True
         else if tr_spans t = [] \<and> summary_undecided t terms then False
         else
           list_ex (\<lambda>s.
             (q = [] \<or> list_ex (opt_has_text q) (span_values num_text s) \<or>
              (terms = [] \<and>
               list_ex (\<lambda>v. has_text v q) (case tr_searchValues t of None \<Rightarrow> [] | Some vs \<Rightarrow> vs))) \<and>
             span_matches_terms num_text terms s) (trace_spans t))"

section \<open>Summaries and loaded traces\<close>

lemma traceFields_plain: "plain_fields traceFields"
  by code_simp

text \<open>The summary of a loaded trace agrees with one of its spans on what it shows.\<close>

definition summarises :: "trace \<Rightarrow> trace \<Rightarrow> span \<Rightarrow> bool" where
  "summarises summary full rs \<longleftrightarrow>
     tr_spans summary = [] \<and> rs \<in> set (tr_spans full) \<and>
     tr_traceId summary = sp_traceId rs \<and> tr_serviceName summary = sp_serviceName rs \<and>
     tr_rootSpan summary =
       Some \<lparr>rt_name = sp_name rs, rt_kind = sp_kind rs, rt_statusCode = sp_statusCode rs,
             rt_duration = sp_duration rs\<rparr>"

lemma summary_term_value:
  assumes "summarises summary full rs" and "te_field t = Some f" and "f \<in> set SUMMARY_FIELDS"
  shows "traceTermValue (summary_span summary) t = traceTermValue (full_span rs) t"
proof -
  have v: "spanFields (summary_span summary) f = spanFields (full_span rs) f"
    using assms(3) unfolding SUMMARY_FIELDS_def list.set
    by (elim insertE emptyE)
      (use assms(1) in \<open>simp_all add: summarises_def spanFields_def summary_span_def full_span_def\<close>)
  have d: "pt_duration (summary_span summary) = pt_duration (full_span rs)"
    using assms(1) by (simp add: summarises_def summary_span_def full_span_def)
  show ?thesis unfolding traceTermValue_def assms(2) option.case v d ..
qed

lemma opt_text_values:
  assumes "summarises summary full rs" and "opt_has_text q v" and "v \<in> set (span_values num_text (summary_span summary))"
  shows "v \<in> set (span_values num_text (full_span rs))"
  using assms by (auto simp: summarises_def span_values_def summary_span_def full_span_def opt_has_text_def)


text \<open>A loaded trace and its summary row.\<close>

definition sample_span :: span where
  "sample_span =
     \<lparr>sp_linkCount = 0, sp_droppedLinksCount = 0, sp_traceId = ''t1'', sp_spanId = ''s1'', sp_parentSpanId = [],
      sp_name = ''GET /'', sp_kind = ''Server'', sp_serviceName = ''api'', sp_startTime = [], sp_endTime = [],
      sp_duration = 2000000, sp_statusCode = Ok, sp_statusMessage = [], sp_attributes = [], sp_events = [],
      sp_resource = [], sp_startEpochNs = 0, sp_endEpochNs = 2000000\<rparr>"

definition sample_summary :: trace where
  "sample_summary =
     \<lparr>tr_linkCount = 0, tr_traceId = ''t1'',
      tr_rootSpan = Some \<lparr>rt_name = ''GET /'', rt_kind = ''Server'', rt_statusCode = Ok, rt_duration = 2000000\<rparr>,
      tr_serviceName = ''api'', tr_searchValues = None, tr_spanCount = 1, tr_startTime = [],
      tr_duration = 2000000, tr_spans = [], tr_startEpochNs = 0\<rparr>"


end
