(* ===== verification/TraceStore.thy ===== *)
theory TraceStore
  imports Store
begin

text \<open>
  The trace buffer of \<^verbatim>\<open>stores/telemetry.ts\<close>: merging of spans, search values and
  summaries, the batched live update, the focused lookup, the detail refresh and the removal.
  \<open>replaceEqualDeep\<close> of the query library is the parameter \<open>red\<close>; it returns a value
  equal to its second argument (\<open>structural_sharing\<close>).
\<close>

section \<open>Definitions\<close>

definition mergeSpans :: "span list \<Rightarrow> span list \<Rightarrow> span list" where
  "mergeSpans existing incoming =
     (let seen = set (map sp_spanId existing);
          deduped = filter (\<lambda>s. sp_spanId s \<notin> seen) incoming
      in if length deduped = 0 then existing else existing @ deduped)"

fun mergeSearchValues :: "string list option \<Rightarrow> string list option \<Rightarrow> string list option" where
  "mergeSearchValues None incoming = incoming"
| "mergeSearchValues (Some []) incoming = incoming"
| "mergeSearchValues existing None = existing"
| "mergeSearchValues existing (Some []) = existing"
| "mergeSearchValues (Some e) (Some i) = Some (uniq (e @ i))"

definition newest_cmp :: "trace \<Rightarrow> trace \<Rightarrow> int" where
  "newest_cmp a b =
     (if tr_startEpochNs b > tr_startEpochNs a then 1
      else if tr_startEpochNs b < tr_startEpochNs a then - 1
      else 0)"

definition newestTraceStartFirst :: "trace list \<Rightarrow> trace list" where
  "newestTraceStartFirst ts = sort_by newest_cmp ts"

fun isBetterRoot :: "trace_root option \<Rightarrow> trace_root option \<Rightarrow> bool" where
  "isBetterRoot current None = False"
| "isBetterRoot None (Some candidate) = True"
| "isBetterRoot (Some current) (Some candidate) = (rt_duration candidate > rt_duration current)"

definition mergeTrace :: "trace \<Rightarrow> trace \<Rightarrow> trace option" where
  "mergeTrace existing incoming =
     (let spans = mergeSpans (tr_spans existing) (tr_spans incoming);
          rootChanged = isBetterRoot (tr_rootSpan existing) (tr_rootSpan incoming);
          incomingStart = tr_startEpochNs incoming;
          existingStart = tr_startEpochNs existing
      in if length spans = length (tr_spans existing) \<and> \<not> rootChanged \<and>
            tr_spanCount incoming \<le> tr_spanCount existing \<and>
            tr_linkCount incoming \<le> tr_linkCount existing \<and>
            tr_duration incoming \<le> tr_duration existing \<and>
            incomingStart \<ge> existingStart
         then None
         else let startsEarlier = incomingStart < existingStart
              in Some (existing
                   \<lparr>tr_spans := spans,
                    tr_searchValues :=
                      mergeSearchValues (tr_searchValues existing) (tr_searchValues incoming),
                    tr_spanCount := max (tr_spanCount existing) (tr_spanCount incoming),
                    tr_linkCount := max (tr_linkCount existing) (tr_linkCount incoming),
                    tr_rootSpan := (if rootChanged then tr_rootSpan incoming else tr_rootSpan existing),
                    tr_serviceName :=
                      (if rootChanged then tr_serviceName incoming else tr_serviceName existing),
                    tr_startTime :=
                      (if startsEarlier then tr_startTime incoming else tr_startTime existing),
                    tr_startEpochNs :=
                      (if startsEarlier then tr_startEpochNs incoming else tr_startEpochNs existing),
                    tr_duration := max (tr_duration existing) (tr_duration incoming)\<rparr>))"

text \<open>The batched update: the local variables of the loop are a record.\<close>

record add_traces_vars =
  at_indexById :: "(string \<times> nat) list"
  at_working :: "trace list"
  at_addedCount :: int
  at_changed :: bool

definition add_traces_body :: "add_traces_vars \<Rightarrow> trace \<Rightarrow> add_traces_vars" where
  "add_traces_body v newTrace =
     (case map_of (at_indexById v) (tr_traceId newTrace) of
        Some idx \<Rightarrow>
          (case mergeTrace (at_working v ! idx) newTrace of
             None \<Rightarrow> v
           | Some merged \<Rightarrow>
               v\<lparr>at_working := (at_working v)[idx := merged], at_changed := True\<rparr>)
      | None \<Rightarrow>
          v\<lparr>at_addedCount := at_addedCount v + 1,
            at_indexById := AList.update (tr_traceId newTrace) (length (at_working v)) (at_indexById v),
            at_working := at_working v @ [newTrace],
            at_changed := True\<rparr>)"

definition addTraces :: "trace list \<Rightarrow> store \<Rightarrow> store" where
  "addTraces newTraces st =
     (if length newTraces = 0 then st
      else
        let st1 = st\<lparr>st_liveTraceBatch := newTraces\<rparr>;
            current = st_traces st1;
            maxTraces = cap_traceCap (st_bufferCaps st1);
            v = foldl add_traces_body
                  \<lparr>at_indexById = index_map (map tr_traceId current), at_working = current,
                   at_addedCount = 0, at_changed = False\<rparr> newTraces
        in if \<not> at_changed v then st1
           else
             let st2 = (if at_addedCount v > 0
                        then st1\<lparr>st_newTraceCount := st_newTraceCount st1 + at_addedCount v\<rparr>
                        else st1);
                 next = newestTraceStartFirst (at_working v)
             in st2\<lparr>st_traces := cap_list maxTraces next\<rparr>)"

definition addTrace :: "trace \<Rightarrow> store \<Rightarrow> store" where
  "addTrace newTrace st = addTraces [newTrace] st"

definition cacheTrace :: "trace \<Rightarrow> store \<Rightarrow> store" where
  "cacheTrace trace st =
     (let current = st_traces st
      in case find_index (\<lambda>item. tr_traceId item = tr_traceId trace) current of
           Some idx \<Rightarrow>
             (case mergeTrace (current ! idx) trace of
                None \<Rightarrow> st
              | Some merged \<Rightarrow> st\<lparr>st_traces := newestTraceStartFirst (current[idx := merged])\<rparr>)
         | None \<Rightarrow>
             let next = newestTraceStartFirst (current @ [trace]);
                 cap = cap_traceCap (st_bufferCaps st)
             in if int (length next) \<le> cap then st\<lparr>st_traces := next\<rparr>
                else
                  let withoutTrace = filter (\<lambda>item. tr_traceId item \<noteq> tr_traceId trace) next
                  in st\<lparr>st_traces :=
                          newestTraceStartFirst (js_slice 0 (cap - 1) withoutTrace @ [trace])\<rparr>)"

definition replaceTraceSpans ::
    "(span list \<Rightarrow> span list \<Rightarrow> span list) \<Rightarrow> string \<Rightarrow> span list \<Rightarrow> store \<Rightarrow> store" where
  "replaceTraceSpans red traceId payloadSpans st =
     (let current = st_traces st
      in case find_index (\<lambda>trace. tr_traceId trace = traceId) current of
           None \<Rightarrow> st
         | Some index \<Rightarrow>
             let trace = current ! index;
                 spans = red (tr_spans trace) payloadSpans
             in if spans = tr_spans trace then st
                else st\<lparr>st_traces := current[index := trace\<lparr>tr_spans := spans\<rparr>]\<rparr>)"

definition removeTrace :: "string \<Rightarrow> store \<Rightarrow> store" where
  "removeTrace traceId st =
     st\<lparr>st_traces := filter (\<lambda>trace. tr_traceId trace \<noteq> traceId) (st_traces st),
        st_removedTraceCount := st_removedTraceCount st + 1\<rparr>"

text \<open>What the query library documents of \<open>replaceEqualDeep\<close>.\<close>

definition structural_sharing :: "('a \<Rightarrow> 'a \<Rightarrow> 'a) \<Rightarrow> bool" where
  "structural_sharing red \<longleftrightarrow> (\<forall>old new. red old new = new)"

text \<open>The well-formed trace buffer: one entry per trace, newest start first.\<close>

definition newest_first :: "trace list \<Rightarrow> bool" where
  "newest_first ts \<longleftrightarrow> sorted_wrt (\<lambda>a b. tr_startEpochNs a \<ge> tr_startEpochNs b) ts"

definition trace_buffer_ok :: "trace list \<Rightarrow> bool" where
  "trace_buffer_ok ts \<longleftrightarrow> distinct (map tr_traceId ts) \<and> newest_first ts"

text \<open>A merge that changes nothing keeps the entry.\<close>

definition trace_merge :: "trace \<Rightarrow> trace \<Rightarrow> trace" where
  "trace_merge existing incoming =
     (case mergeTrace existing incoming of None \<Rightarrow> existing | Some merged \<Rightarrow> merged)"

section \<open>Merging\<close>

lemma mergeSpans_eq:
  "mergeSpans e i = e @ filter (\<lambda>s. sp_spanId s \<notin> set (map sp_spanId e)) i"
  by (auto simp: mergeSpans_def Let_def)

lemma mergeSpans_length_eq [simp]: "length (mergeSpans e i) = length e \<longleftrightarrow> mergeSpans e i = e"
  by (auto simp: mergeSpans_eq)

lemma mergeSpans_absorb [simp]: "mergeSpans (mergeSpans e i) i = mergeSpans e i"
  by (auto simp: mergeSpans_eq filter_empty_conv)

lemma mergeSpans_self [simp]: "mergeSpans e e = e"
  by (auto simp: mergeSpans_eq filter_empty_conv)

lemma isBetterRoot_irrefl [simp]: "\<not> isBetterRoot r r"
  by (cases r) auto

lemma trace_merge_fields [simp]:
  "tr_traceId (trace_merge a b) = tr_traceId a"
  "tr_spans (trace_merge a b) = mergeSpans (tr_spans a) (tr_spans b)"
  "tr_spanCount (trace_merge a b) = max (tr_spanCount a) (tr_spanCount b)"
  "tr_linkCount (trace_merge a b) = max (tr_linkCount a) (tr_linkCount b)"
  "tr_duration (trace_merge a b) = max (tr_duration a) (tr_duration b)"
  "tr_startEpochNs (trace_merge a b) = min (tr_startEpochNs a) (tr_startEpochNs b)"
  "tr_rootSpan (trace_merge a b) =
     (if isBetterRoot (tr_rootSpan a) (tr_rootSpan b) then tr_rootSpan b else tr_rootSpan a)"
  by (auto simp: trace_merge_def mergeTrace_def Let_def max_def min_def)

lemma mergeTrace_absorbed: "mergeTrace (trace_merge a b) b = None"
  by (simp add: mergeTrace_def Let_def)

lemma trace_merge_absorb: "trace_merge (trace_merge a b) b = trace_merge a b"
  by (simp add: trace_merge_def [of "trace_merge a b"] mergeTrace_absorbed)

lemma mergeTrace_self: "mergeTrace t t = None"
  by (simp add: mergeTrace_def Let_def)

lemma trace_merge_epochs_ok:
  assumes "trace_epochs_ok parse a" and "trace_epochs_ok parse b"
  shows "trace_epochs_ok parse (trace_merge a b)"
proof -
  have "list_all (span_epochs_ok parse) (mergeSpans (tr_spans a) (tr_spans b))"
    using assms by (auto simp: trace_epochs_ok_def mergeSpans_eq list_all_iff)
  moreover have "parse (tr_startTime (trace_merge a b)) = Some (tr_startEpochNs (trace_merge a b))"
    using assms by (auto simp: trace_epochs_ok_def trace_merge_def mergeTrace_def Let_def)
  ultimately show ?thesis by (simp add: trace_epochs_ok_def)
qed

interpretation trace_buf: absorbing_buffer tr_traceId "\<lambda>t. t" trace_merge
  by unfold_locales (simp_all add: trace_merge_absorb, simp add: trace_merge_def mergeTrace_self)

abbreviation trace_upsert :: "trace list \<Rightarrow> trace \<Rightarrow> trace list" where
  "trace_upsert \<equiv> list_upsert tr_traceId (\<lambda>t. t) trace_merge"

section \<open>Ordering\<close>

lemma newest_cmp_key: "newest_cmp a b \<le> 0 \<longleftrightarrow> - tr_startEpochNs a \<le> - tr_startEpochNs b"
  by (simp add: newest_cmp_def)

lemma newestTraceStartFirst_sort_key:
  "newestTraceStartFirst ts = sort_key (\<lambda>t. - tr_startEpochNs t) ts"
  unfolding newestTraceStartFirst_def by (rule sort_by_key) (rule newest_cmp_key)

lemma newest_first_sorted: "newest_first ts \<longleftrightarrow> sorted (map (\<lambda>t. - tr_startEpochNs t) ts)"
  by (simp add: newest_first_def sorted_map)

lemma newest_first_newestTraceStartFirst [simp]: "newest_first (newestTraceStartFirst ts)"
  by (simp add: newest_first_sorted newestTraceStartFirst_sort_key)

lemma mset_newestTraceStartFirst [simp]: "mset (newestTraceStartFirst ts) = mset ts"
  by (simp add: newestTraceStartFirst_def)

lemma set_newestTraceStartFirst [simp]: "set (newestTraceStartFirst ts) = set ts"
  by (simp add: newestTraceStartFirst_def)

lemma length_newestTraceStartFirst [simp]: "length (newestTraceStartFirst ts) = length ts"
  by (simp add: newestTraceStartFirst_def)

lemma distinct_newestTraceStartFirst [simp]:
  "distinct (map f (newestTraceStartFirst ts)) = distinct (map f ts)"
  by (simp add: newestTraceStartFirst_def)

lemma sort_key_sorted_id: "sorted (map f xs) \<Longrightarrow> sort_key f xs = xs"
proof (induction xs)
  case (Cons x xs)
  then show ?case by (cases xs) simp_all
qed simp

lemma newestTraceStartFirst_id: "newest_first ts \<Longrightarrow> newestTraceStartFirst ts = ts"
  by (simp add: newest_first_sorted newestTraceStartFirst_sort_key sort_key_sorted_id)

lemma newest_first_take: "newest_first ts \<Longrightarrow> newest_first (take n ts)"
  by (simp add: newest_first_sorted flip: take_map)

lemma newest_first_filter: "newest_first ts \<Longrightarrow> newest_first (filter P ts)"
  by (simp add: newest_first_def sorted_wrt_filter)

lemma trace_buffer_ok_sort: "distinct (map tr_traceId ts) \<Longrightarrow> trace_buffer_ok (newestTraceStartFirst ts)"
  by (simp add: trace_buffer_ok_def)

lemma trace_buffer_ok_take: "trace_buffer_ok ts \<Longrightarrow> trace_buffer_ok (take n ts)"
  by (simp add: trace_buffer_ok_def newest_first_take flip: take_map)

section \<open>The batched update\<close>

definition vars_ok :: "trace list \<Rightarrow> add_traces_vars \<Rightarrow> bool" where
  "vars_ok base v \<longleftrightarrow>
     distinct (map tr_traceId (at_working v)) \<and>
     (\<forall>k. map_of (at_indexById v) k = find_index (\<lambda>t. tr_traceId t = k) (at_working v)) \<and>
     at_addedCount v = int (length (at_working v)) - int (length base) \<and>
     (\<not> at_changed v \<longrightarrow> at_working v = base)"

lemma add_traces_body_upsert:
  assumes "vars_ok base v"
  shows "at_working (add_traces_body v t) = trace_upsert (at_working v) t"
  using assms
  by (auto simp: vars_ok_def add_traces_body_def list_upsert_def trace_merge_def
      split: option.splits)

lemma add_traces_body_ok:
  assumes ok: "vars_ok base v"
  shows "vars_ok base (add_traces_body v t)"
proof -
  let ?v = "add_traces_body v t"
  have d: "distinct (map tr_traceId (at_working ?v))"
    using ok by (simp add: add_traces_body_upsert [OF ok] trace_buf.distinct_upsert vars_ok_def)
  show ?thesis
  proof (cases "find_index (\<lambda>y. tr_traceId y = tr_traceId t) (at_working v)")
    case None
    with ok have "tr_traceId t \<notin> tr_traceId ` set (at_working v)" by (simp add: find_index_key_None)
    then show ?thesis using ok d None
      by (auto simp: vars_ok_def add_traces_body_def index_map_push)
  next
    case (Some i)
    then have i: "i < length (at_working v)" "tr_traceId (at_working v ! i) = tr_traceId t"
      by (auto dest: find_index_SomeD)
    have "tr_traceId m = tr_traceId (at_working v ! i)"
      if "mergeTrace (at_working v ! i) t = Some m" for m
      using trace_merge_fields(1) [of "at_working v ! i" t] that by (simp add: trace_merge_def)
    then show ?thesis using ok d Some i
      by (auto simp: vars_ok_def add_traces_body_def find_index_update split: option.splits)
  qed
qed

lemma add_traces_loop:
  "vars_ok base v \<Longrightarrow>
     at_working (foldl add_traces_body v ts) = foldl trace_upsert (at_working v) ts \<and>
     vars_ok base (foldl add_traces_body v ts)"
  by (induction ts arbitrary: v) (simp_all add: add_traces_body_upsert add_traces_body_ok)

lemma add_traces_start_ok:
  "distinct (map tr_traceId ts) \<Longrightarrow>
     vars_ok ts \<lparr>at_indexById = index_map (map tr_traceId ts), at_working = ts,
                at_addedCount = 0, at_changed = False\<rparr>"
  by (simp add: vars_ok_def index_map_find)

definition trace_store_ok :: "store \<Rightarrow> bool" where
  "trace_store_ok st \<longleftrightarrow>
     trace_buffer_ok (st_traces st) \<and>
     int (length (st_traces st)) \<le> cap_traceCap (st_bufferCaps st)"

lemma trace_store_cap_nonneg: "trace_store_ok st \<Longrightarrow> 0 \<le> cap_traceCap (st_bufferCaps st)"
  by (simp add: trace_store_ok_def)

lemma trace_store_length:
  "trace_store_ok st \<Longrightarrow> length (st_traces st) \<le> nat (cap_traceCap (st_bufferCaps st))"
  unfolding trace_store_ok_def by arith

text \<open>The capped list operation that the batched loop with its index map implements.\<close>

lemma addTraces_traces:
  assumes ok: "trace_store_ok st"
  shows "st_traces (addTraces ts st) =
    take (nat (cap_traceCap (st_bufferCaps st)))
      (newestTraceStartFirst (foldl trace_upsert (st_traces st) ts))"
proof -
  let ?v = "foldl add_traces_body
    \<lparr>at_indexById = index_map (map tr_traceId (st_traces st)), at_working = st_traces st,
     at_addedCount = 0, at_changed = False\<rparr> ts"
  have d: "distinct (map tr_traceId (st_traces st))"
    using ok by (simp add: trace_store_ok_def trace_buffer_ok_def)
  note v = add_traces_loop [OF add_traces_start_ok [OF d], of ts]
  have keep: "take (nat (cap_traceCap (st_bufferCaps st))) (newestTraceStartFirst (st_traces st)) =
      st_traces st"
    using ok trace_store_length [OF ok]
    by (simp add: trace_store_ok_def trace_buffer_ok_def newestTraceStartFirst_id)
  have c: "0 \<le> cap_traceCap (st_bufferCaps st)" using ok by (rule trace_store_cap_nonneg)
  show ?thesis
  proof (cases "ts = []")
    case False
    then show ?thesis using v keep c
      by (cases "at_changed ?v") (auto simp: addTraces_def Let_def vars_ok_def)
  qed (simp add: addTraces_def keep)
qed

lemma addTraces_newTraceCount:
  assumes ok: "trace_store_ok st"
  shows "st_newTraceCount (addTraces ts st) = st_newTraceCount st +
    int (card (tr_traceId ` set ts - tr_traceId ` set (st_traces st)))"
proof -
  let ?v = "foldl add_traces_body
    \<lparr>at_indexById = index_map (map tr_traceId (st_traces st)), at_working = st_traces st,
     at_addedCount = 0, at_changed = False\<rparr> ts"
  have d: "distinct (map tr_traceId (st_traces st))"
    using ok by (simp add: trace_store_ok_def trace_buffer_ok_def)
  note v = add_traces_loop [OF add_traces_start_ok [OF d], of ts]
  have "at_addedCount ?v = int (card (tr_traceId ` set ts - tr_traceId ` set (st_traces st)))"
    using v trace_buf.length_foldl [OF d, of ts] by (simp add: vars_ok_def)
  then show ?thesis using v
    by (cases "ts = []") (auto simp: addTraces_def Let_def vars_ok_def)
qed

lemma addTraces_caps [simp]: "st_bufferCaps (addTraces ts st) = st_bufferCaps st"
  by (simp add: addTraces_def Let_def)

lemma addTraces_other_lists [simp]:
  "st_metrics (addTraces ts st) = st_metrics st"
  "st_logs (addTraces ts st) = st_logs st"
  "st_removedTraceCount (addTraces ts st) = st_removedTraceCount st"
  by (simp_all add: addTraces_def Let_def)

lemma addTraces_store_ok:
  assumes ok: "trace_store_ok st"
  shows "trace_store_ok (addTraces ts st)"
proof -
  have "distinct (map tr_traceId (foldl trace_upsert (st_traces st) ts))"
    using ok by (simp add: trace_store_ok_def trace_buffer_ok_def trace_buf.distinct_foldl)
  then show ?thesis
    unfolding trace_store_ok_def addTraces_traces [OF ok] addTraces_caps
    by (intro conjI trace_buffer_ok_take trace_buffer_ok_sort int_length_take
        trace_store_cap_nonneg [OF ok])
qed

lemma traces_lookup:
  assumes ok: "trace_store_ok st"
    and fits: "int (card (tr_traceId ` set (st_traces st) \<union> tr_traceId ` set ts))
      \<le> cap_traceCap (st_bufferCaps st)"
  shows "lookup_by tr_traceId (st_traces (addTraces ts st)) =
    foldl (map_upsert tr_traceId (\<lambda>t. t) trace_merge) (lookup_by tr_traceId (st_traces st)) ts"
proof -
  let ?w = "foldl trace_upsert (st_traces st) ts"
  have d: "distinct (map tr_traceId ?w)"
    using ok by (simp add: trace_store_ok_def trace_buffer_ok_def trace_buf.distinct_foldl)
  then have "length ?w = card (tr_traceId ` set (st_traces st) \<union> tr_traceId ` set ts)"
    by (metis distinct_card length_map set_map trace_buf.keys_foldl)
  with fits have "length ?w \<le> nat (cap_traceCap (st_bufferCaps st))" by arith
  then have "st_traces (addTraces ts st) = newestTraceStartFirst ?w"
    by (simp add: addTraces_traces [OF ok])
  moreover have "lookup_by tr_traceId (newestTraceStartFirst ?w) = lookup_by tr_traceId ?w"
    using d by (intro lookup_by_mset) simp_all
  ultimately show ?thesis by (simp add: trace_buf.lookup_foldl)
qed

section \<open>Absorption of repeated batches\<close>

lemma isBetterRoot_trans:
  "\<not> isBetterRoot b a \<Longrightarrow> isBetterRoot b c \<Longrightarrow> \<not> isBetterRoot c a"
  by (cases a; cases b; cases c) auto

lemma mergeTrace_None_iff:
  "mergeTrace y x = None \<longleftrightarrow>
     mergeSpans (tr_spans y) (tr_spans x) = tr_spans y \<and>
     \<not> isBetterRoot (tr_rootSpan y) (tr_rootSpan x) \<and>
     tr_spanCount x \<le> tr_spanCount y \<and> tr_linkCount x \<le> tr_linkCount y \<and>
     tr_duration x \<le> tr_duration y \<and> tr_startEpochNs y \<le> tr_startEpochNs x"
  by (simp add: mergeTrace_def Let_def)

lemma mergeTrace_None_mono: "mergeTrace y x = None \<Longrightarrow> mergeTrace (trace_merge y z) x = None"
  by (auto simp: mergeTrace_None_iff mergeSpans_eq filter_empty_conv dest: isBetterRoot_trans)

definition absorbed :: "trace list \<Rightarrow> trace \<Rightarrow> bool" where
  "absorbed ts x \<longleftrightarrow>
     (\<exists>y. lookup_by tr_traceId ts (tr_traceId x) = Some y \<and> mergeTrace y x = None)"

lemma absorbed_upsert_same: "absorbed (trace_upsert ts x) x"
  by (auto simp: absorbed_def trace_buf.lookup_upsert map_upsert_def mergeTrace_absorbed
      mergeTrace_self split: option.split)

lemma absorbed_upsert: "absorbed ts x \<Longrightarrow> absorbed (trace_upsert ts z) x"
  by (auto simp: absorbed_def trace_buf.lookup_upsert map_upsert_def mergeTrace_None_mono
      split: option.split)

lemma absorbed_foldl: "absorbed ts x \<Longrightarrow> absorbed (foldl trace_upsert ts zs) x"
  by (induction zs arbitrary: ts) (simp_all add: absorbed_upsert)

lemma absorbed_after_batch: "x \<in> set xs \<Longrightarrow> absorbed (foldl trace_upsert ts xs) x"
  by (induction xs arbitrary: ts) (auto simp: absorbed_upsert_same absorbed_foldl)

lemma upsert_absorbed: "absorbed ts x \<Longrightarrow> trace_upsert ts x = ts"
  by (auto simp: absorbed_def lookup_by_find_index list_upsert_def trace_merge_def
      split: option.splits dest: find_index_SomeD)

lemma foldl_absorbed: "\<forall>x \<in> set xs. absorbed ts x \<Longrightarrow> foldl trace_upsert ts xs = ts"
  by (induction xs) (simp_all add: upsert_absorbed)

lemma absorbed_mset:
  assumes "distinct (map tr_traceId ts)" and "mset ts = mset us"
  shows "absorbed ts x = absorbed us x"
  using lookup_by_mset [OF assms] by (simp add: absorbed_def)

section \<open>Properties\<close>

text \<open>Concrete traces and stores for the witnesses.\<close>

definition mk_trace :: "string \<Rightarrow> int \<Rightarrow> number \<Rightarrow> int \<Rightarrow> trace" where
  "mk_trace i start dur n =
     \<lparr>tr_linkCount = 0, tr_traceId = i, tr_rootSpan = None, tr_serviceName = ''svc'',
      tr_searchValues = None, tr_spanCount = n, tr_startTime = ''s'', tr_duration = dur,
      tr_spans = [], tr_startEpochNs = start\<rparr>"

definition trace_store_with :: "int \<Rightarrow> trace list \<Rightarrow> store" where
  "trace_store_with cap ts =
     initial_store\<lparr>st_bufferCaps := DEFAULT_CONFIG\<lparr>cap_traceCap := cap\<rparr>, st_traces := ts\<rparr>"

lemmas trace_witness_defs =
  trace_store_with_def mk_trace_def trace_store_ok_def trace_buffer_ok_def newest_first_def
  initial_store_def DEFAULT_CONFIG_def

text \<open>C1: one batched write with an index map computes the same buffer as merging the deliveries
  one by one into the entry of the same id (or appending), then sorting newest first and cutting
  to the cap; the counter of new traces grows by the number of ids the buffer did not hold; the
  buffer stays free of duplicate ids, sorted and within its cap.\<close>

theorem addTraces_refines_upsert:
  assumes "trace_store_ok st"
  shows "st_traces (addTraces ts st) =
      take (nat (cap_traceCap (st_bufferCaps st)))
        (newestTraceStartFirst (foldl trace_upsert (st_traces st) ts)) \<and>
    st_newTraceCount (addTraces ts st) = st_newTraceCount st +
      int (card (tr_traceId ` set ts - tr_traceId ` set (st_traces st))) \<and>
    trace_store_ok (addTraces ts st)"
  using assms by (simp add: addTraces_traces addTraces_newTraceCount addTraces_store_ok)

theorem addTraces_refines_upsert_witness:
  "st_newTraceCount (addTraces [mk_trace ''b'' 7 1 1] (trace_store_with 1 [mk_trace ''a'' 5 1 1])) =
     0 + int (card (tr_traceId ` set [mk_trace ''b'' 7 1 1] -
       tr_traceId ` set (st_traces (trace_store_with 1 [mk_trace ''a'' 5 1 1]))))"
  using addTraces_refines_upsert [of "trace_store_with 1 [mk_trace ''a'' 5 1 1]" "[mk_trace ''b'' 7 1 1]"]
  by (simp add: trace_witness_defs)

text \<open>As long as the distinct traces fit the cap, the buffer is a map from trace id to the
  merge of everything delivered for that id: looking an id up after the batch gives the fold of
  the deliveries over the old entry.\<close>

theorem addTraces_lookup:
  assumes ok: "trace_store_ok st"
    and fits: "int (card (tr_traceId ` set (st_traces st) \<union> tr_traceId ` set ts))
      \<le> cap_traceCap (st_bufferCaps st)"
  shows "lookup_by tr_traceId (st_traces (addTraces ts st)) =
    foldl (map_upsert tr_traceId (\<lambda>t. t) trace_merge) (lookup_by tr_traceId (st_traces st)) ts"
  using assms by (rule traces_lookup)

theorem addTraces_lookup_witness:
  "lookup_by tr_traceId (st_traces (addTraces [mk_trace ''a'' 3 9 2]
       (trace_store_with 1 [mk_trace ''a'' 5 1 1]))) =
     foldl (map_upsert tr_traceId (\<lambda>t. t) trace_merge)
       (lookup_by tr_traceId (st_traces (trace_store_with 1 [mk_trace ''a'' 5 1 1])))
       [mk_trace ''a'' 3 9 2]"
  by (rule addTraces_lookup) (simp_all add: trace_witness_defs)



definition trace_extent :: "trace \<Rightarrow> int \<times> int \<times> number \<times> int \<times> number option" where
  "trace_extent t =
     (tr_spanCount t, tr_linkCount t, tr_duration t, tr_startEpochNs t,
      map_option rt_duration (tr_rootSpan t))"

definition extent_join ::
    "int \<times> int \<times> number \<times> int \<times> number option \<Rightarrow> int \<times> int \<times> number \<times> int \<times> number option
     \<Rightarrow> int \<times> int \<times> number \<times> int \<times> number option" where
  "extent_join a b =
     (case (a, b) of ((s, l, d, t, r), (s', l', d', t', r')) \<Rightarrow>
        (max s s', max l l', max d d', min t t',
         (case (r, r') of (None, q) \<Rightarrow> q | (q, None) \<Rightarrow> q | (Some p, Some q) \<Rightarrow> Some (max p q))))"

lemma trace_extent_merge: "trace_extent (trace_merge a b) = extent_join (trace_extent a) (trace_extent b)"
  by (cases "tr_rootSpan a"; cases "tr_rootSpan b") (auto simp: trace_extent_def extent_join_def)

lemma extent_join_swap: "extent_join (extent_join a b) c = extent_join (extent_join a c) b"
  by (auto simp: extent_join_def ac_simps split: prod.splits option.splits)

lemma trace_extent_foldl:
  "trace_extent (foldl trace_merge t xs) = fold (\<lambda>x e. extent_join e (trace_extent x)) xs (trace_extent t)"
  by (induction xs arbitrary: t) (simp_all add: trace_extent_merge)

text \<open>The summary a trace ends up with (counts, duration, start, duration of its
  representative root) does not depend on the order its deliveries arrive in.\<close>

theorem trace_extent_order_free:
  assumes "mset xs = mset ys"
  shows "trace_extent (foldl trace_merge t xs) = trace_extent (foldl trace_merge t ys)"
proof -
  have "fold (\<lambda>x e. extent_join e (trace_extent x)) xs =
      fold (\<lambda>x e. extent_join e (trace_extent x)) ys"
    using assms by (intro fold_multiset_equiv) (auto simp: fun_eq_iff extent_join_swap)
  then show ?thesis by (simp add: trace_extent_foldl)
qed

theorem trace_extent_order_free_witness:
  "trace_extent (foldl trace_merge (mk_trace ''a'' 5 1 1) [mk_trace ''a'' 3 2 4, mk_trace ''a'' 4 7 2]) =
   trace_extent (foldl trace_merge (mk_trace ''a'' 5 1 1) [mk_trace ''a'' 4 7 2, mk_trace ''a'' 3 2 4])"
  by (rule trace_extent_order_free) simp

section \<open>Focused lookups, detail refreshes and removal\<close>

lemma trace_update_same_id:
  "i < length ts \<Longrightarrow> tr_traceId t = tr_traceId (ts ! i) \<Longrightarrow>
     map tr_traceId (ts[i := t]) = map tr_traceId ts"
  by (rule map_update_same_key)

lemma mergeTrace_Some: "mergeTrace a b = Some m \<Longrightarrow> m = trace_merge a b"
  by (simp add: trace_merge_def)

lemma cacheTrace_hit:
  assumes "trace_store_ok st"
    and "find_index (\<lambda>item. tr_traceId item = tr_traceId t) (st_traces st) = Some i"
  shows "cacheTrace t st =
    st\<lparr>st_traces := newestTraceStartFirst ((st_traces st)[i := trace_merge (st_traces st ! i) t])\<rparr>"
proof (cases "mergeTrace (st_traces st ! i) t")
  case None
  then have "trace_merge (st_traces st ! i) t = st_traces st ! i" by (simp add: trace_merge_def)
  then show ?thesis using assms None
    by (simp add: cacheTrace_def trace_store_ok_def trace_buffer_ok_def newestTraceStartFirst_id)
next
  case (Some m)
  then have "m = trace_merge (st_traces st ! i) t" by (rule mergeTrace_Some)
  with Some assms(2) show ?thesis by (simp add: cacheTrace_def Let_def)
qed

lemma cacheTrace_kept:
  assumes ok: "trace_store_ok st" and cap: "1 \<le> cap_traceCap (st_bufferCaps st)"
  shows "lookup_by tr_traceId (st_traces (cacheTrace t st)) (tr_traceId t) \<noteq> None \<and>
    trace_store_ok (cacheTrace t st) \<and>
    (int (length (st_traces st)) < cap_traceCap (st_bufferCaps st) \<longrightarrow>
      tr_traceId ` set (st_traces (cacheTrace t st)) =
        insert (tr_traceId t) (tr_traceId ` set (st_traces st)))"
proof (cases "find_index (\<lambda>item. tr_traceId item = tr_traceId t) (st_traces st)")
  case (Some i)
  let ?ts = "(st_traces st)[i := trace_merge (st_traces st ! i) t]"
  have i: "i < length (st_traces st)" "tr_traceId (st_traces st ! i) = tr_traceId t"
    using Some by (auto dest: find_index_SomeD)
  then have k: "map tr_traceId ?ts = map tr_traceId (st_traces st)"
    by (simp add: trace_update_same_id)
  then have kset: "tr_traceId ` set ?ts = tr_traceId ` set (st_traces st)"
    by (metis set_map)
  have "tr_traceId t \<in> tr_traceId ` set (st_traces st)" using i by (metis image_eqI nth_mem)
  then show ?thesis using ok k kset
    by (simp add: cacheTrace_hit [OF ok Some] trace_store_ok_def trace_buffer_ok_def lookup_by_None
        insert_absorb)
next
  case None
  let ?next = "newestTraceStartFirst (st_traces st @ [t])"
  let ?cap = "cap_traceCap (st_bufferCaps st)"
  let ?kept = "take (nat (?cap - 1)) (filter (\<lambda>item. tr_traceId item \<noteq> tr_traceId t) ?next) @ [t]"
  have new: "tr_traceId t \<notin> tr_traceId ` set (st_traces st)"
    using None by (simp add: find_index_key_None)
  then have d: "distinct (map tr_traceId (st_traces st @ [t]))"
    using ok by (simp add: trace_store_ok_def trace_buffer_ok_def)
  show ?thesis
  proof (cases "int (length ?next) \<le> ?cap")
    case True
    then show ?thesis using None d
      by (auto simp: cacheTrace_def trace_store_ok_def trace_buffer_ok_def lookup_by_None)
  next
    case False
    have "distinct (map tr_traceId ?next)" using d by simp
    then have "distinct (map tr_traceId ?kept)"
      by (auto simp: distinct_map_filter distinct_take simp flip: take_map dest!: in_set_takeD)
    moreover have "int (length ?kept) \<le> ?cap" using cap by (simp add: min_def) arith
    moreover have "st_traces (cacheTrace t st) = newestTraceStartFirst ?kept"
      using None False cap by (simp add: cacheTrace_def Let_def)
    moreover have "st_bufferCaps (cacheTrace t st) = st_bufferCaps st"
      by (simp add: cacheTrace_def Let_def split: option.split)
    ultimately show ?thesis using False
      by (auto simp: trace_store_ok_def trace_buffer_ok_def lookup_by_None)
  qed
qed

text \<open>C22: a trace fetched by id is in the buffer afterwards, even when it is older than every row
  of a full buffer; the buffer stays free of duplicates and sorted, no other row is lost unless
  the buffer was full, and then at most as many rows as the cap allows remain.\<close>

theorem cacheTrace_resident:
  assumes ok: "trace_store_ok st" and cap: "1 \<le> cap_traceCap (st_bufferCaps st)"
  shows "lookup_by tr_traceId (st_traces (cacheTrace t st)) (tr_traceId t) \<noteq> None \<and>
    trace_store_ok (cacheTrace t st) \<and>
    (int (length (st_traces st)) < cap_traceCap (st_bufferCaps st) \<longrightarrow>
      tr_traceId ` set (st_traces (cacheTrace t st)) =
        insert (tr_traceId t) (tr_traceId ` set (st_traces st)))"
  using assms by (rule cacheTrace_kept)

theorem cacheTrace_resident_witness:
  "lookup_by tr_traceId (st_traces (cacheTrace (mk_trace ''old'' 1 1 1)
     (trace_store_with 1 [mk_trace ''a'' 5 1 1]))) ''old'' \<noteq> None"
  using cacheTrace_resident [of "trace_store_with 1 [mk_trace ''a'' 5 1 1]" "mk_trace ''old'' 1 1 1"]
  by (simp add: trace_witness_defs)

definition traces_epochs_ok :: "instant_parser \<Rightarrow> store \<Rightarrow> bool" where
  "traces_epochs_ok parse st \<longleftrightarrow> list_all (trace_epochs_ok parse) (st_traces st)"

lemma upsert_epochs_ok:
  assumes "list_all (trace_epochs_ok parse) ts" and "trace_epochs_ok parse t"
  shows "list_all (trace_epochs_ok parse) (trace_upsert ts t)"
  using assms
  by (auto simp: list_upsert_def list_all_iff trace_merge_epochs_ok dest!: find_index_SomeD
      set_update_subset_insert [THEN subsetD] split: option.split)

lemma foldl_upsert_epochs_ok:
  "list_all (trace_epochs_ok parse) ts \<Longrightarrow> list_all (trace_epochs_ok parse) us \<Longrightarrow>
     list_all (trace_epochs_ok parse) (foldl trace_upsert ts us)"
  by (induction us arbitrary: ts) (simp_all add: upsert_epochs_ok)

text \<open>C23: the pre-parsed epochs agree with the ISO timestamps in every row, and stay in agreement
  through the live update, the focused lookup, the removal and the detail refresh.\<close>

theorem trace_epochs_lockstep:
  assumes "trace_store_ok st" and "1 \<le> cap_traceCap (st_bufferCaps st)"
    and ok: "traces_epochs_ok parse st"
    and new: "list_all (trace_epochs_ok parse) ts" "list_all (span_epochs_ok parse) ss"
    and red: "structural_sharing red"
  shows "traces_epochs_ok parse (addTraces ts st) \<and>
    (\<forall>t \<in> set ts. traces_epochs_ok parse (cacheTrace t st)) \<and>
    traces_epochs_ok parse (replaceTraceSpans red i ss st) \<and>
    traces_epochs_ok parse (removeTrace i st)"
proof (intro conjI ballI)
  show "traces_epochs_ok parse (addTraces ts st)"
    using foldl_upsert_epochs_ok [OF ok [unfolded traces_epochs_ok_def] new(1)]
    by (auto simp: traces_epochs_ok_def addTraces_traces [OF assms(1)] list_all_iff dest: in_set_takeD)
  show "traces_epochs_ok parse (cacheTrace t st)" if "t \<in> set ts" for t
  proof -
    have t: "trace_epochs_ok parse t" using that new(1) by (simp add: list_all_iff)
    show ?thesis
    proof (cases "find_index (\<lambda>item. tr_traceId item = tr_traceId t) (st_traces st)")
      case None
      then show ?thesis using ok t assms(2)
        by (auto simp: cacheTrace_def Let_def traces_epochs_ok_def list_all_iff dest!: in_set_takeD)
    next
      case (Some a)
      then show ?thesis using ok t
        by (auto simp: cacheTrace_hit [OF assms(1) Some] traces_epochs_ok_def list_all_iff
            trace_merge_epochs_ok dest!: find_index_SomeD set_update_subset_insert [THEN subsetD])
    qed
  qed
  show "traces_epochs_ok parse (replaceTraceSpans red i ss st)"
    using ok new(2) red
    by (auto simp: replaceTraceSpans_def Let_def traces_epochs_ok_def structural_sharing_def
        list_all_iff trace_epochs_ok_def dest!: find_index_SomeD
          set_update_subset_insert [THEN subsetD] split: option.split)
  show "traces_epochs_ok parse (removeTrace i st)"
    using ok by (simp add: traces_epochs_ok_def removeTrace_def list_all_iff)
qed

theorem trace_epochs_lockstep_witness:
  "traces_epochs_ok (\<lambda>_. Some 5)
     (addTraces [mk_trace ''b'' 5 1 1] (trace_store_with 2 [mk_trace ''a'' 5 1 1]))"
  using trace_epochs_lockstep [of "trace_store_with 2 [mk_trace ''a'' 5 1 1]" "\<lambda>_. Some 5"
      "[mk_trace ''b'' 5 1 1]" "[]" "\<lambda>a b. b" "''a''"]
  by (simp add: trace_witness_defs traces_epochs_ok_def trace_epochs_ok_def structural_sharing_def)

text \<open>A detail refresh replaces the spans of exactly the trace it is for by the fetched set,
  and leaves every other trace, every summary field and the order of the buffer alone; for a
  trace the buffer does not hold it does nothing.\<close>

theorem replaceTraceSpans_exact:
  assumes red: "structural_sharing red" and ok: "trace_buffer_ok (st_traces st)"
  shows "st_traces (replaceTraceSpans red i ss st) =
      map (\<lambda>t. if tr_traceId t = i then t\<lparr>tr_spans := ss\<rparr> else t) (st_traces st) \<and>
    trace_buffer_ok (st_traces (replaceTraceSpans red i ss st))"
proof -
  let ?f = "\<lambda>t. if tr_traceId t = i then t\<lparr>tr_spans := ss\<rparr> else t"
  have update: "ts[n := (ts ! n)\<lparr>tr_spans := ss\<rparr>] = map ?f ts"
    if "distinct (map tr_traceId ts)" and "find_index (\<lambda>t. tr_traceId t = i) ts = Some n" for ts n
    using that
  proof (induction ts arbitrary: n)
    case (Cons t ts)
    then have "tr_traceId t = i \<Longrightarrow> \<forall>x \<in> set ts. tr_traceId x \<noteq> i"
      by (auto simp: image_iff)
    with Cons show ?case
      by (cases "tr_traceId t = i") (auto intro!: map_idI [symmetric])
  qed simp
  have same: "map ?f ts = ts"
    if "find_index (\<lambda>t. tr_traceId t = i) ts = None" for ts
    using that by (auto simp: find_index_None intro!: map_idI)
  have "st_traces (replaceTraceSpans red i ss st) = map ?f (st_traces st)"
  proof (cases "find_index (\<lambda>t. tr_traceId t = i) (st_traces st)")
    case None
    then show ?thesis by (simp add: replaceTraceSpans_def same)
  next
    case (Some n)
    then show ?thesis
      using red ok update [OF _ Some]
      by (auto simp: replaceTraceSpans_def Let_def structural_sharing_def trace_buffer_ok_def
          dest: sym)
  qed
  moreover have "trace_buffer_ok (map ?f (st_traces st))"
    using ok by (simp add: trace_buffer_ok_def newest_first_sorted comp_def if_distrib cong: if_cong)
  ultimately show ?thesis by simp
qed

theorem replaceTraceSpans_exact_witness:
  "trace_buffer_ok (st_traces (replaceTraceSpans (\<lambda>a b. b) ''a'' []
     (trace_store_with 2 [mk_trace ''a'' 5 1 1])))"
  using replaceTraceSpans_exact [of "\<lambda>a b. b" "trace_store_with 2 [mk_trace ''a'' 5 1 1]" "''a''" "[]"]
  by (simp add: trace_witness_defs structural_sharing_def)

section \<open>Findings\<close>

text \<open>
  \<open>mergeSpans\<close> removes ids the existing list holds, but not a duplicate inside the incoming
  list, although its comment promises a union by span id.
\<close>

lemma mergeSpans_keeps_incoming_duplicates:
  "length (mergeSpans [] [s, s]) = 2"
  by (simp add: mergeSpans_eq)

text \<open>
  When the buffered summary already covers a delivery, the delivery's search values are dropped
  with it, although a later search may need them.
\<close>

lemma covered_delivery_loses_search_values:
  "trace_merge t (t\<lparr>tr_searchValues := Some vs\<rparr>) = t"
  by (simp add: trace_merge_def mergeTrace_def Let_def)

text \<open>
  A delivery for a trace that starts before every row of a full buffer is cut off again at
  once, but still counts as a new trace: each repetition of it raises the badge by one while the
  buffer does not change.
\<close>

theorem evicted_delivery_recounted:
  assumes ok: "trace_store_ok st" and full: "int (length (st_traces st)) = cap_traceCap (st_bufferCaps st)"
    and new: "tr_traceId t \<notin> tr_traceId ` set (st_traces st)"
    and old: "\<forall>u \<in> set (st_traces st). tr_startEpochNs t \<le> tr_startEpochNs u"
  shows "st_traces (addTraces [t] st) = st_traces st \<and>
    st_newTraceCount (addTraces [t] st) = st_newTraceCount st + 1"
proof -
  have "trace_upsert (st_traces st) t = st_traces st @ [t]"
    using new by (simp add: list_upsert_def find_index_key_None [THEN iffD2])
  moreover have "newest_first (st_traces st @ [t])"
    using ok old by (simp add: trace_store_ok_def trace_buffer_ok_def newest_first_def sorted_wrt_append)
  moreover have "nat (cap_traceCap (st_bufferCaps st)) = length (st_traces st)" using full by arith
  ultimately have "st_traces (addTraces [t] st) = st_traces st"
    by (simp add: addTraces_traces [OF ok] newestTraceStartFirst_id)
  then show ?thesis using new by (simp add: addTraces_newTraceCount [OF ok] insert_Diff_if)
qed

theorem evicted_delivery_recounted_witness:
  "st_newTraceCount (addTraces [mk_trace ''old'' 1 1 1] (trace_store_with 1 [mk_trace ''a'' 5 1 1])) =
     st_newTraceCount (trace_store_with 1 [mk_trace ''a'' 5 1 1]) + 1"
  using evicted_delivery_recounted [of "trace_store_with 1 [mk_trace ''a'' 5 1 1]" "mk_trace ''old'' 1 1 1"]
  by (simp add: trace_witness_defs)

end
