(* ===== verification/MetricStore.thy ===== *)
theory MetricStore
  imports Store JsonText
begin

text \<open>
  The metric buffer of \<^verbatim>\<open>stores/telemetry.ts\<close> with the key of
  \<^verbatim>\<open>lib/metric-key.ts\<close>, and the log buffer's live update.
\<close>

section \<open>Definitions\<close>

definition metricKeyToString :: "string \<Rightarrow> string \<Rightarrow> string" where
  "metricKeyToString serviceName name =
     ''['' @ json_quote serviceName @ '','' @ json_quote name @ '']''"

definition mt_key :: "metric \<Rightarrow> string" where
  "mt_key m = metricKeyToString (mt_serviceName m) (mt_name m)"

text \<open>One iteration of either loop of \<open>mergeDataPoints\<close>: the set of seen ids and the result.\<close>

definition push_unseen :: "string set \<times> point list \<Rightarrow> point \<Rightarrow> string set \<times> point list" where
  "push_unseen acc dp =
     (case acc of (seen, merged) \<Rightarrow>
        if dp_id dp \<in> seen then (seen, merged) else (insert (dp_id dp) seen, merged @ [dp]))"

definition mergeDataPoints :: "point list \<Rightarrow> point list \<Rightarrow> point list" where
  "mergeDataPoints existing incoming =
     snd (foldl push_unseen (foldl push_unseen ({}, []) existing) incoming)"

datatype metric_array = WorkingArray | NewArray

record metric_location =
  loc_arr :: metric_array
  loc_idx :: nat

definition merge_metric :: "int \<Rightarrow> metric \<Rightarrow> metric \<Rightarrow> metric" where
  "merge_metric maxDataPoints existing newMetric =
     (let merged = mergeDataPoints (mt_dataPoints existing) (mt_dataPoints newMetric);
          addedCount = int (length merged) - int (length (mt_dataPoints existing))
      in existing
           \<lparr>mt_dataPoints := js_slice_from (- maxDataPoints) merged,
            mt_pointCount := mt_pointCount existing + addedCount,
            mt_latestValue :=
              (if addedCount > 0 then Some (dp_value (last merged)) else mt_latestValue existing),
            mt_receivedAt := mt_receivedAt newMetric\<rparr>)"

definition fresh_metric :: "metric \<Rightarrow> metric" where
  "fresh_metric newMetric =
     newMetric
       \<lparr>mt_pointCount := int (length (mt_dataPoints newMetric)),
        mt_latestValue :=
          (if mt_dataPoints newMetric = [] then None
           else Some (dp_value (last (mt_dataPoints newMetric))))\<rparr>"

record add_metrics_vars =
  am_working :: "metric list"
  am_newGroups :: "metric list"
  am_locationByKey :: "(string \<times> metric_location) list"
  am_addedGroupCount :: int

definition add_metrics_body :: "int \<Rightarrow> add_metrics_vars \<Rightarrow> metric \<Rightarrow> add_metrics_vars" where
  "add_metrics_body maxDataPoints v newMetric =
     (let key = mt_key newMetric
      in case map_of (am_locationByKey v) key of
           Some loc \<Rightarrow>
             (case loc_arr loc of
                WorkingArray \<Rightarrow>
                  v\<lparr>am_working := (am_working v)
                      [loc_idx loc := merge_metric maxDataPoints (am_working v ! loc_idx loc) newMetric]\<rparr>
              | NewArray \<Rightarrow>
                  v\<lparr>am_newGroups := (am_newGroups v)
                      [loc_idx loc := merge_metric maxDataPoints (am_newGroups v ! loc_idx loc) newMetric]\<rparr>)
         | None \<Rightarrow>
             v\<lparr>am_addedGroupCount := am_addedGroupCount v + 1,
               am_locationByKey := AList.update key
                 \<lparr>loc_arr = NewArray, loc_idx = length (am_newGroups v)\<rparr> (am_locationByKey v),
               am_newGroups := am_newGroups v @ [fresh_metric newMetric]\<rparr>)"

definition working_locations :: "metric list \<Rightarrow> (string \<times> metric_location) list" where
  "working_locations current =
     map (\<lambda>(k, i). (k, \<lparr>loc_arr = WorkingArray, loc_idx = i\<rparr>)) (index_map (map mt_key current))"

definition addMetrics :: "metric list \<Rightarrow> store \<Rightarrow> store" where
  "addMetrics newMetrics st =
     (if length newMetrics = 0 then st
      else
        let current = st_metrics st;
            maxMetrics = cap_metricCap (st_bufferCaps st);
            maxDataPoints = cap_maxDataPoints (st_bufferCaps st);
            v = foldl (add_metrics_body maxDataPoints)
                  \<lparr>am_working = current, am_newGroups = [],
                   am_locationByKey = working_locations current, am_addedGroupCount = 0\<rparr> newMetrics;
            st1 = (if am_addedGroupCount v > 0
                   then st\<lparr>st_newMetricCount := st_newMetricCount st + am_addedGroupCount v\<rparr>
                   else st);
            next = rev (am_newGroups v) @ am_working v
        in st1\<lparr>st_metrics := cap_list maxMetrics next\<rparr>)"

definition addMetric :: "metric \<Rightarrow> store \<Rightarrow> store" where
  "addMetric newMetric st = addMetrics [newMetric] st"

definition addLogs :: "log list \<Rightarrow> store \<Rightarrow> store" where
  "addLogs newLogs st =
     (if length newLogs = 0 then st
      else
        let maxLogs = cap_logCap (st_bufferCaps st);
            st1 = st\<lparr>st_newLogCount := st_newLogCount st + int (length newLogs)\<rparr>;
            next = rev newLogs @ st_logs st1
        in st1\<lparr>st_logs := cap_list maxLogs next\<rparr>)"

definition addLog :: "log \<Rightarrow> store \<Rightarrow> store" where
  "addLog newLog st = addLogs [newLog] st"

section \<open>Keys\<close>

lemma metricKey_inject:
  "metricKeyToString s n = metricKeyToString s' n' \<longleftrightarrow> s = s' \<and> n = n'"
  using json_string.whole.enc_inj [of n n'] by (simp add: metricKeyToString_def json_string.enc_append_inj)

lemma mt_key_eq: "mt_key a = mt_key b \<longleftrightarrow> mt_serviceName a = mt_serviceName b \<and> mt_name a = mt_name b"
  by (simp add: mt_key_def metricKey_inject)

lemma mt_key_merge [simp]: "mt_key (merge_metric d a b) = mt_key a"
  by (simp add: mt_key_def merge_metric_def Let_def)

lemma mt_key_fresh [simp]: "mt_key (fresh_metric a) = mt_key a"
  by (simp add: mt_key_def fresh_metric_def)

interpretation metric_buf: keyed_buffer mt_key fresh_metric "merge_metric maxDataPoints" for maxDataPoints
  by unfold_locales simp_all

abbreviation metric_upsert :: "int \<Rightarrow> metric list \<Rightarrow> metric \<Rightarrow> metric list" where
  "metric_upsert d \<equiv> list_upsert mt_key fresh_metric (merge_metric d)"

section \<open>Data points\<close>

lemma push_unseen_ok:
  assumes "fst acc = dp_id ` set (snd acc)" and "distinct (map dp_id (snd acc))"
  shows "fst (push_unseen acc p) = dp_id ` set (snd (push_unseen acc p)) \<and>
    distinct (map dp_id (snd (push_unseen acc p)))"
  using assms by (auto simp: push_unseen_def split: prod.splits)

lemma push_unseen_foldl_ok:
  "fst acc = dp_id ` set (snd acc) \<Longrightarrow> distinct (map dp_id (snd acc)) \<Longrightarrow>
     fst (foldl push_unseen acc ps) = dp_id ` set (snd (foldl push_unseen acc ps)) \<and>
     distinct (map dp_id (snd (foldl push_unseen acc ps)))"
proof (induction ps arbitrary: acc)
  case (Cons p ps)
  then show ?case using push_unseen_ok [OF Cons.prems, of p] by simp
qed simp

lemma push_unseen_foldl:
  "fst acc = dp_id ` set (snd acc) \<Longrightarrow>
     map dp_id (snd (foldl push_unseen acc ps)) =
       map dp_id (snd acc) @ uniq_from (map dp_id (snd acc)) (map dp_id ps)"
proof (induction ps arbitrary: acc)
  case (Cons p ps)
  have "fst (push_unseen acc p) = dp_id ` set (snd (push_unseen acc p))"
    using Cons.prems by (auto simp: push_unseen_def split: prod.splits)
  then show ?case
    using Cons.IH [of "push_unseen acc p"] Cons.prems
      uniq_from_cong [of "map dp_id (snd acc) @ [dp_id p]" "dp_id p # map dp_id (snd acc)" "map dp_id ps"]
    by (auto simp: push_unseen_def split: prod.splits)
qed simp

lemma push_unseen_snd:
  "snd (push_unseen acc p) = snd acc @ (if dp_id p \<in> fst acc then [] else [p])"
  by (simp add: push_unseen_def split: prod.split)

lemma push_unseen_prefix:
  "take (length (snd acc)) (snd (foldl push_unseen acc ps)) = snd acc"
proof (induction ps arbitrary: acc)
  case (Cons p ps)
  let ?a = "push_unseen acc p"
  have "take (length (snd acc)) (snd (foldl push_unseen ?a ps)) =
      take (length (snd acc)) (take (length (snd ?a)) (snd (foldl push_unseen ?a ps)))"
    by (simp add: push_unseen_snd min_def)
  also have "\<dots> = snd acc" by (subst Cons.IH) (simp add: push_unseen_snd)
  finally show ?case by simp
qed simp

lemma push_unseen_distinct:
  "distinct (map dp_id ps) \<Longrightarrow> fst acc \<inter> dp_id ` set ps = {} \<Longrightarrow>
     snd (foldl push_unseen acc ps) = snd acc @ ps"
  by (induction ps arbitrary: acc) (auto simp: push_unseen_def split: prod.splits)

lemma mergeDataPoints_ids:
  "map dp_id (mergeDataPoints e i) = uniq (map dp_id e @ map dp_id i)"
proof -
  let ?a = "foldl push_unseen ({}, []) e"
  have a: "fst ?a = dp_id ` set (snd ?a)" using push_unseen_foldl_ok [of "({}, [])" e] by simp
  have ida: "map dp_id (snd ?a) = uniq_from [] (map dp_id e)"
    using push_unseen_foldl [of "({}, [])" e] by simp
  have "uniq_from (map dp_id (snd ?a)) (map dp_id i) = uniq_from (map dp_id e @ []) (map dp_id i)"
    by (rule uniq_from_cong) (simp add: ida set_uniq_from del: set_map)
  then show ?thesis
    using push_unseen_foldl [OF a, of i]
    by (simp add: mergeDataPoints_def uniq_def uniq_from_append ida)
qed

lemma distinct_mergeDataPoints [simp]: "distinct (map dp_id (mergeDataPoints e i))"
  by (simp add: mergeDataPoints_ids)

lemma set_ids_mergeDataPoints: "dp_id ` set (mergeDataPoints e i) = dp_id ` set e \<union> dp_id ` set i"
  using arg_cong [OF mergeDataPoints_ids [of e i], of set] by auto

lemma mergeDataPoints_prefix:
  assumes "distinct (map dp_id e)"
  shows "take (length e) (mergeDataPoints e i) = e"
  using push_unseen_prefix [of "foldl push_unseen ({}, []) e" i] push_unseen_distinct [OF assms, of "({}, [])"]
  by (simp add: mergeDataPoints_def)

lemma length_mergeDataPoints:
  "length (mergeDataPoints e i) = card (dp_id ` set e \<union> dp_id ` set i)"
  by (metis distinct_card distinct_mergeDataPoints length_map set_ids_mergeDataPoints set_map)

text \<open>The points of a group: one per id.\<close>

definition metric_points_ok :: "metric \<Rightarrow> bool" where
  "metric_points_ok m \<longleftrightarrow> distinct (map dp_id (mt_dataPoints m))"

lemma distinct_map_drop: "distinct (map f xs) \<Longrightarrow> distinct (map f (drop n xs))"
  by (simp add: drop_map [symmetric] distinct_drop)

lemma merge_metric_points:
  "0 < d \<Longrightarrow> mt_dataPoints (merge_metric d a b) =
     drop (length (mergeDataPoints (mt_dataPoints a) (mt_dataPoints b)) - nat d)
       (mergeDataPoints (mt_dataPoints a) (mt_dataPoints b))"
  using js_slice_from_last [of "nat d" "mergeDataPoints (mt_dataPoints a) (mt_dataPoints b)"]
  by (simp add: merge_metric_def Let_def)

lemma merge_metric_points_ok: "0 < d \<Longrightarrow> metric_points_ok (merge_metric d a b)"
  by (simp add: metric_points_ok_def merge_metric_points distinct_map_drop)

section \<open>The batched update\<close>

text \<open>
  The two arrays of the loop as one list: the working rows, then the new groups in the order they
  appeared. \<open>newest_groups_first\<close> is the order the buffer ends up in.
\<close>

definition all_groups :: "add_metrics_vars \<Rightarrow> metric list" where
  "all_groups v = am_working v @ am_newGroups v"

definition newest_groups_first :: "nat \<Rightarrow> metric list \<Rightarrow> metric list" where
  "newest_groups_first n ms = rev (drop n ms) @ take n ms"

definition loc_pos :: "nat \<Rightarrow> metric_location \<Rightarrow> nat" where
  "loc_pos n l = (case loc_arr l of WorkingArray \<Rightarrow> loc_idx l | NewArray \<Rightarrow> n + loc_idx l)"

definition mvars_ok :: "nat \<Rightarrow> add_metrics_vars \<Rightarrow> bool" where
  "mvars_ok n v \<longleftrightarrow>
     length (am_working v) = n \<and> distinct (map mt_key (all_groups v)) \<and>
     (\<forall>k. map_option (loc_pos n) (map_of (am_locationByKey v) k) =
        find_index (\<lambda>m. mt_key m = k) (all_groups v)) \<and>
     (\<forall>k l. map_of (am_locationByKey v) k = Some l \<longrightarrow> loc_arr l = WorkingArray \<longrightarrow> loc_idx l < n) \<and>
     am_addedGroupCount v = int (length (am_newGroups v))"

lemma add_metrics_body_upsert:
  assumes ok: "mvars_ok n v"
  shows "all_groups (add_metrics_body d v m) = metric_upsert d (all_groups v) m"
proof (cases "map_of (am_locationByKey v) (mt_key m)")
  case None
  then have "find_index (\<lambda>y. mt_key y = mt_key m) (all_groups v) = None"
    using ok by (metis mvars_ok_def option.simps(8))
  with None show ?thesis by (simp add: add_metrics_body_def list_upsert_def all_groups_def)
next
  case (Some l)
  then have f: "find_index (\<lambda>y. mt_key y = mt_key m) (all_groups v) = Some (loc_pos n l)"
    using ok by (metis mvars_ok_def option.simps(9))
  have "loc_arr l = WorkingArray \<Longrightarrow> loc_idx l < length (am_working v)"
    using ok Some by (simp add: mvars_ok_def)
  with f Some ok show ?thesis
    by (cases "loc_arr l")
      (auto simp: add_metrics_body_def Let_def list_upsert_def all_groups_def loc_pos_def
        mvars_ok_def list_update_append nth_append)
qed

lemma add_metrics_body_ok:
  assumes ok: "mvars_ok n v"
  shows "mvars_ok n (add_metrics_body d v m)"
proof -
  let ?v = "add_metrics_body d v m"
  have d': "distinct (map mt_key (all_groups ?v))"
    using ok by (simp add: add_metrics_body_upsert [OF ok] metric_buf.distinct_upsert mvars_ok_def)
  show ?thesis
  proof (cases "map_of (am_locationByKey v) (mt_key m)")
    case None
    then have "find_index (\<lambda>y. mt_key y = mt_key m) (all_groups v) = None"
      using ok by (metis mvars_ok_def option.simps(8))
    then have new: "mt_key (fresh_metric m) \<notin> mt_key ` set (all_groups v)"
      by (simp add: find_index_key_None)
    have "all_groups ?v = all_groups v @ [fresh_metric m]"
      using None by (simp add: add_metrics_body_def all_groups_def)
    then have "find_index (\<lambda>y. mt_key y = k) (all_groups ?v) =
        (if k = mt_key m then Some (length (all_groups v))
         else find_index (\<lambda>y. mt_key y = k) (all_groups v))" for k
      using find_index_snoc [OF new] by simp
    then show ?thesis using ok d' None
      by (auto simp: mvars_ok_def add_metrics_body_def map_of_AList_update loc_pos_def all_groups_def)
  next
    case (Some l)
    then have f: "find_index (\<lambda>y. mt_key y = mt_key m) (all_groups v) = Some (loc_pos n l)"
      using ok by (metis mvars_ok_def option.simps(9))
    then have i: "loc_pos n l < length (all_groups v)" "mt_key (all_groups v ! loc_pos n l) = mt_key m"
      by (auto dest: find_index_SomeD)
    have "find_index (\<lambda>y. mt_key y = k) (all_groups ?v) = find_index (\<lambda>y. mt_key y = k) (all_groups v)"
      for k
      using i by (simp add: add_metrics_body_upsert [OF ok] list_upsert_def f find_index_update)
    then show ?thesis using ok d' Some
      by (cases "loc_arr l") (auto simp: mvars_ok_def add_metrics_body_def Let_def)
  qed
qed

lemma add_metrics_loop:
  "mvars_ok n v \<Longrightarrow>
     all_groups (foldl (add_metrics_body d) v ms) = foldl (metric_upsert d) (all_groups v) ms \<and>
     mvars_ok n (foldl (add_metrics_body d) v ms)"
  by (induction ms arbitrary: v) (simp_all add: add_metrics_body_upsert add_metrics_body_ok)

lemma map_of_working_locations:
  "map_of (working_locations ms) k =
     map_option (\<lambda>i. \<lparr>loc_arr = WorkingArray, loc_idx = i\<rparr>) (map_of (index_map (map mt_key ms)) k)"
  by (simp add: working_locations_def map_of_map)

lemma add_metrics_start_ok:
  assumes "distinct (map mt_key ms)"
  shows "mvars_ok (length ms)
    \<lparr>am_working = ms, am_newGroups = [], am_locationByKey = working_locations ms,
     am_addedGroupCount = 0\<rparr>"
  using assms
  by (auto simp: mvars_ok_def all_groups_def map_of_working_locations index_map_find [OF assms]
      option.map_comp comp_def loc_pos_def option.map_ident dest: find_index_SomeD)

definition metric_store_ok :: "store \<Rightarrow> bool" where
  "metric_store_ok st \<longleftrightarrow>
     distinct (map mt_key (st_metrics st)) \<and>
     int (length (st_metrics st)) \<le> cap_metricCap (st_bufferCaps st)"

lemma metric_store_cap: "metric_store_ok st \<Longrightarrow> 0 \<le> cap_metricCap (st_bufferCaps st)"
  by (simp add: metric_store_ok_def)

lemma addMetrics_loop_result:
  fixes st :: store and ms :: "metric list"
  defines "d \<equiv> cap_maxDataPoints (st_bufferCaps st)"
  defines "v \<equiv> foldl (add_metrics_body d)
    \<lparr>am_working = st_metrics st, am_newGroups = [],
     am_locationByKey = working_locations (st_metrics st), am_addedGroupCount = 0\<rparr> ms"
  assumes "distinct (map mt_key (st_metrics st))"
  shows "rev (am_newGroups v) @ am_working v =
      newest_groups_first (length (st_metrics st)) (foldl (metric_upsert d) (st_metrics st) ms) \<and>
    am_addedGroupCount v = int (card (mt_key ` set ms - mt_key ` set (st_metrics st)))"
proof -
  note v = add_metrics_loop [OF add_metrics_start_ok [OF assms(3)], of d ms, folded v_def]
  have g: "am_working v @ am_newGroups v = foldl (metric_upsert d) (st_metrics st) ms"
    using v by (simp add: all_groups_def)
  have n: "length (am_working v) = length (st_metrics st)" using v by (simp add: mvars_ok_def)
  have "length (am_working v @ am_newGroups v) =
      length (st_metrics st) + card (mt_key ` set ms - mt_key ` set (st_metrics st))"
    by (simp only: g metric_buf.length_foldl [OF assms(3)])
  with n v show ?thesis
    by (simp add: newest_groups_first_def mvars_ok_def flip: g)
qed

lemma addMetrics_metrics:
  assumes ok: "metric_store_ok st"
  shows "st_metrics (addMetrics ms st) =
    take (nat (cap_metricCap (st_bufferCaps st)))
      (newest_groups_first (length (st_metrics st))
        (foldl (metric_upsert (cap_maxDataPoints (st_bufferCaps st))) (st_metrics st) ms))"
proof (cases "ms = []")
  case True
  have "length (st_metrics st) \<le> nat (cap_metricCap (st_bufferCaps st))"
    using ok unfolding metric_store_ok_def by arith
  with True show ?thesis by (simp add: addMetrics_def newest_groups_first_def)
next
  case False
  then show ?thesis
    using addMetrics_loop_result [of st ms] ok metric_store_cap [OF ok]
    by (simp add: addMetrics_def Let_def metric_store_ok_def del: take_append)
qed

lemma addMetrics_newMetricCount:
  assumes ok: "metric_store_ok st"
  shows "st_newMetricCount (addMetrics ms st) =
    st_newMetricCount st + int (card (mt_key ` set ms - mt_key ` set (st_metrics st)))"
  using addMetrics_loop_result [of st ms] ok
  by (cases "ms = []") (auto simp: addMetrics_def Let_def metric_store_ok_def)

lemma addMetrics_caps [simp]: "st_bufferCaps (addMetrics ms st) = st_bufferCaps st"
  by (simp add: addMetrics_def Let_def)

lemma mset_newest_groups_first [simp]: "mset (newest_groups_first n ms) = mset ms"
proof -
  have "mset (take n ms) + mset (drop n ms) = mset ms" by (metis append_take_drop_id mset_append)
  then show ?thesis by (simp add: newest_groups_first_def add.commute)
qed

lemma set_newest_groups_first [simp]: "set (newest_groups_first n ms) = set ms"
  by (rule mset_eq_setD) simp

lemma length_newest_groups_first [simp]: "length (newest_groups_first n ms) = length ms"
  by (rule mset_eq_length) simp

lemma addMetrics_store_ok:
  assumes ok: "metric_store_ok st"
  shows "metric_store_ok (addMetrics ms st)"
proof -
  let ?g = "newest_groups_first (length (st_metrics st))
    (foldl (metric_upsert (cap_maxDataPoints (st_bufferCaps st))) (st_metrics st) ms)"
  have "distinct (map mt_key ?g)"
    using ok distinct_map_mset [OF mset_newest_groups_first] metric_buf.distinct_foldl
    by (metis metric_store_ok_def)
  then have "distinct (map mt_key (take n ?g))" for n by (simp flip: take_map)
  then show ?thesis
    unfolding metric_store_ok_def addMetrics_metrics [OF ok] addMetrics_caps
    by (intro conjI int_length_take metric_store_cap [OF ok])
qed

section \<open>Batches and single deliveries\<close>

definition metrics_fit :: "metric list \<Rightarrow> store \<Rightarrow> bool" where
  "metrics_fit ms st \<longleftrightarrow>
     int (card (mt_key ` set (st_metrics st) \<union> mt_key ` set ms)) \<le> cap_metricCap (st_bufferCaps st)"

lemma addMetrics_uncapped:
  assumes ok: "metric_store_ok st" and fit: "metrics_fit ms st"
  shows "st_metrics (addMetrics ms st) =
    newest_groups_first (length (st_metrics st))
      (foldl (metric_upsert (cap_maxDataPoints (st_bufferCaps st))) (st_metrics st) ms)"
proof -
  let ?w = "foldl (metric_upsert (cap_maxDataPoints (st_bufferCaps st))) (st_metrics st) ms"
  have "distinct (map mt_key ?w)"
    using ok by (simp add: metric_store_ok_def metric_buf.distinct_foldl)
  then have "length ?w = card (mt_key ` set (st_metrics st) \<union> mt_key ` set ms)"
    by (metis distinct_card length_map set_map metric_buf.keys_foldl)
  with fit have "length ?w \<le> nat (cap_metricCap (st_bufferCaps st))"
    unfolding metrics_fit_def by arith
  then show ?thesis by (simp add: addMetrics_metrics [OF ok])
qed

lemma keys_newest_groups_first:
  "map mt_key (newest_groups_first (length ms) (foldl (metric_upsert d) ms ns)) =
     rev (uniq_from (map mt_key ms) (map mt_key ns)) @ map mt_key ms"
  by (simp add: newest_groups_first_def metric_buf.keys_order_foldl flip: rev_map drop_map take_map)

lemma lookup_newest_groups_first:
  "distinct (map mt_key ms) \<Longrightarrow>
     lookup_by mt_key (newest_groups_first (length ms) (foldl (metric_upsert d) ms ns)) =
       foldl (map_upsert mt_key fresh_metric (merge_metric d)) (lookup_by mt_key ms) ns"
  unfolding metric_buf.lookup_foldl [symmetric]
  by (rule lookup_by_mset) (simp_all add: metric_buf.distinct_foldl distinct_map_mset [of "newest_groups_first _ _"])

lemma addMetrics_append:
  assumes ok: "metric_store_ok st" and fit: "metrics_fit (ms @ ns) st"
  shows "st_metrics (addMetrics (ms @ ns) st) = st_metrics (addMetrics ns (addMetrics ms st))"
proof -
  let ?d = "cap_maxDataPoints (st_bufferCaps st)"
  let ?m1 = "st_metrics (addMetrics ms st)"
  have d: "distinct (map mt_key (st_metrics st))" using ok by (simp add: metric_store_ok_def)
  have fit1: "metrics_fit ms st"
  proof -
    have "card (mt_key ` set (st_metrics st) \<union> mt_key ` set ms)
        \<le> card (mt_key ` set (st_metrics st) \<union> mt_key ` set (ms @ ns))"
      by (intro card_mono) auto
    with fit show ?thesis unfolding metrics_fit_def by linarith
  qed
  note m1 = addMetrics_uncapped [OF ok fit1]
  have k1: "map mt_key ?m1 = rev (uniq_from (map mt_key (st_metrics st)) (map mt_key ms)) @
      map mt_key (st_metrics st)"
    unfolding m1 by (rule keys_newest_groups_first)
  have s1: "set (map mt_key ?m1) = set (map mt_key ms @ map mt_key (st_metrics st))"
    unfolding k1 by (auto simp: set_uniq_from)
  have ok1: "metric_store_ok (addMetrics ms st)" using ok by (rule addMetrics_store_ok)
  then have d1: "distinct (map mt_key ?m1)" by (simp add: metric_store_ok_def)
  have "mt_key ` set ?m1 \<union> mt_key ` set ns = mt_key ` set (st_metrics st) \<union> mt_key ` set (ms @ ns)"
    using s1 by auto
  then have fit2: "metrics_fit ns (addMetrics ms st)" using fit by (simp add: metrics_fit_def)
  note m2 = addMetrics_uncapped [OF ok1 fit2]
  note m = addMetrics_uncapped [OF ok fit]
  show ?thesis
  proof (rule list_eq_by_lookup [where key = mt_key])
    show "map mt_key (st_metrics (addMetrics (ms @ ns) st)) =
        map mt_key (st_metrics (addMetrics ns (addMetrics ms st)))"
      unfolding m m2 keys_newest_groups_first k1 using uniq_from_cong [OF s1]
      by (simp add: uniq_from_append k1)
    show "distinct (map mt_key (st_metrics (addMetrics (ms @ ns) st)))"
      using addMetrics_store_ok [OF ok] by (simp add: metric_store_ok_def)
    have "lookup_by mt_key ?m1 =
        foldl (map_upsert mt_key fresh_metric (merge_metric ?d)) (lookup_by mt_key (st_metrics st)) ms"
      unfolding m1 using d by (rule lookup_newest_groups_first)
    then show "lookup_by mt_key (st_metrics (addMetrics (ms @ ns) st)) =
        lookup_by mt_key (st_metrics (addMetrics ns (addMetrics ms st)))"
      unfolding m m2 addMetrics_caps
      using lookup_newest_groups_first [OF d, of ?d "ms @ ns"] lookup_newest_groups_first [OF d1, of ?d ns]
      by simp
  qed
qed

lemma addMetrics_counts:
  assumes ok: "metric_store_ok st" and fit: "metrics_fit (ms @ ns) st"
  shows "st_newMetricCount (addMetrics (ms @ ns) st) = st_newMetricCount (addMetrics ns (addMetrics ms st))"
proof -
  have ok1: "metric_store_ok (addMetrics ms st)" using ok by (rule addMetrics_store_ok)
  have "metrics_fit ms st"
  proof -
    have "card (mt_key ` set (st_metrics st) \<union> mt_key ` set ms)
        \<le> card (mt_key ` set (st_metrics st) \<union> mt_key ` set (ms @ ns))"
      by (intro card_mono) auto
    with fit show ?thesis unfolding metrics_fit_def by linarith
  qed
  then have "map mt_key (st_metrics (addMetrics ms st)) =
      rev (uniq_from (map mt_key (st_metrics st)) (map mt_key ms)) @ map mt_key (st_metrics st)"
    by (simp add: addMetrics_uncapped [OF ok] keys_newest_groups_first)
  then have "mt_key ` set (st_metrics (addMetrics ms st)) = mt_key ` set ms \<union> mt_key ` set (st_metrics st)"
    using set_uniq_from by (metis Un_Diff_cancel2 set_append set_map set_rev)
  moreover have "card (mt_key ` set (ms @ ns) - mt_key ` set (st_metrics st)) =
      card (mt_key ` set ms - mt_key ` set (st_metrics st)) +
      card (mt_key ` set ns - (mt_key ` set ms \<union> mt_key ` set (st_metrics st)))"
    by (subst card_Un_disjoint [symmetric]) (auto intro: arg_cong [where f = card])
  ultimately show ?thesis
    using addMetrics_newMetricCount [OF ok] addMetrics_newMetricCount [OF ok1] by simp
qed

section \<open>Properties\<close>

definition mk_point :: "string \<Rightarrow> int \<Rightarrow> number \<Rightarrow> point" where
  "mk_point i ns v =
     \<lparr>dp_id = i, dp_seriesKey = ''s'', dp_timestamp = ''t'', dp_value = v, dp_cumulative = None,
      dp_count = None, dp_countCumulative = None, dp_sum = None, dp_sumCumulative = None,
      dp_min = None, dp_max = None, dp_attributes = [], dp_epochNs = ns\<rparr>"

definition mk_metric :: "string \<Rightarrow> point list \<Rightarrow> metric" where
  "mk_metric n ps =
     \<lparr>mt_name = n, mt_description = [], mt_unit = [], mt_type = ''Gauge'', mt_serviceName = ''svc'',
      mt_resource = [], mt_pointCount = int (length ps), mt_latestValue = None,
      mt_receivedAt = [], mt_dataPoints = ps\<rparr>"

definition metric_store_with :: "int \<Rightarrow> int \<Rightarrow> metric list \<Rightarrow> store" where
  "metric_store_with cap pts ms =
     initial_store\<lparr>st_bufferCaps := DEFAULT_CONFIG\<lparr>cap_metricCap := cap, cap_maxDataPoints := pts\<rparr>,
                    st_metrics := ms\<rparr>"

lemmas metric_witness_defs =
  metric_store_with_def mk_metric_def mk_point_def metric_store_ok_def metrics_fit_def
  initial_store_def DEFAULT_CONFIG_def

text \<open>Two metrics share a buffer entry only if both their service and their name agree: the
  key text is injective whatever characters the two strings hold.\<close>

theorem metric_key_injective:
  "metricKeyToString s n = metricKeyToString s' n' \<longleftrightarrow> s = s' \<and> n = n'"
  by (rule metricKey_inject)

text \<open>C24: the batched metric update, which keeps two arrays and a location per key, computes the
  merge of the deliveries one by one, with the new groups reversed in front of the old rows, cut
  to the cap; the counter grows by the number of groups the buffer did not hold; the buffer keeps
  one row per group and stays within the cap.\<close>

theorem addMetrics_refines_upsert:
  assumes "metric_store_ok st"
  shows "st_metrics (addMetrics ms st) =
      take (nat (cap_metricCap (st_bufferCaps st)))
        (newest_groups_first (length (st_metrics st))
          (foldl (metric_upsert (cap_maxDataPoints (st_bufferCaps st))) (st_metrics st) ms)) \<and>
    st_newMetricCount (addMetrics ms st) =
      st_newMetricCount st + int (card (mt_key ` set ms - mt_key ` set (st_metrics st))) \<and>
    metric_store_ok (addMetrics ms st)"
  using assms by (simp add: addMetrics_metrics addMetrics_newMetricCount addMetrics_store_ok)

theorem addMetrics_refines_upsert_witness:
  "metric_store_ok (addMetrics [mk_metric ''b'' []] (metric_store_with 1 5 [mk_metric ''a'' []]))"
proof -
  have "metric_store_ok (metric_store_with 1 5 [mk_metric ''a'' []])"
    by (simp add: metric_witness_defs)
  from addMetrics_refines_upsert [OF this, of "[mk_metric ''b'' []]"] show ?thesis by blast
qed

text \<open>Applying a batch of metric deliveries at once leaves the same rows in the same order, and
  the same counter, as applying them one at a time, as long as no group is evicted.\<close>

theorem addMetrics_batch_sequential:
  assumes "metric_store_ok st" and "metrics_fit ms st"
  shows "st_metrics (addMetrics ms st) = st_metrics (foldl (\<lambda>s m. addMetric m s) st ms) \<and>
    st_newMetricCount (addMetrics ms st) = st_newMetricCount (foldl (\<lambda>s m. addMetric m s) st ms)"
  using assms
proof (induction ms arbitrary: st)
  case (Cons m ms)
  have fit: "metrics_fit ([m] @ ms) st" using Cons.prems by simp
  have ok1: "metric_store_ok (addMetrics [m] st)" using Cons.prems by (simp add: addMetrics_store_ok)
  have "mt_key ` set (st_metrics (addMetrics [m] st)) \<subseteq>
      mt_key ` set (metric_upsert (cap_maxDataPoints (st_bufferCaps st)) (st_metrics st) m)"
    unfolding addMetrics_metrics [OF Cons.prems(1)]
    by (intro image_mono) (auto dest!: in_set_takeD)
  then have "mt_key ` set (st_metrics (addMetrics [m] st)) \<subseteq>
      mt_key ` set (st_metrics st) \<union> {mt_key m}"
    using metric_buf.keys_foldl [of "cap_maxDataPoints (st_bufferCaps st)" "st_metrics st" "[m]"] by simp
  then have "card (mt_key ` set (st_metrics (addMetrics [m] st)) \<union> mt_key ` set ms)
      \<le> card (mt_key ` set (st_metrics st) \<union> mt_key ` set (m # ms))"
    by (intro card_mono) auto
  then have "metrics_fit ms (addMetrics [m] st)"
    using fit by (simp add: metrics_fit_def)
  with Cons.IH ok1 addMetrics_append [OF Cons.prems(1) fit] addMetrics_counts [OF Cons.prems(1) fit]
  show ?case by (simp add: addMetric_def)
qed (simp add: addMetrics_def)

theorem addMetrics_batch_sequential_witness:
  "st_metrics (addMetrics [mk_metric ''a'' [mk_point ''p'' 1 2], mk_metric ''b'' []]
      (metric_store_with 2 5 [])) =
   st_metrics (foldl (\<lambda>s m. addMetric m s) (metric_store_with 2 5 [])
      [mk_metric ''a'' [mk_point ''p'' 1 2], mk_metric ''b'' []])"
  using addMetrics_batch_sequential [of "metric_store_with 2 5 []"
      "[mk_metric ''a'' [mk_point ''p'' 1 2], mk_metric ''b'' []]"]
  by (simp add: metric_witness_defs card_insert_if)

definition new_point_ids :: "metric \<Rightarrow> metric \<Rightarrow> string set" where
  "new_point_ids g n = dp_id ` set (mt_dataPoints n) - dp_id ` set (mt_dataPoints g)"

lemma mergeDataPoints_append:
  assumes "distinct (map dp_id e)"
  obtains fresh where "mergeDataPoints e i = e @ fresh" and "distinct (map dp_id fresh)"
    and "dp_id ` set fresh = dp_id ` set i - dp_id ` set e"
    and "length fresh = card (dp_id ` set i - dp_id ` set e)"
proof -
  let ?f = "drop (length e) (mergeDataPoints e i)"
  have eq: "mergeDataPoints e i = e @ ?f"
    using mergeDataPoints_prefix [OF assms] by (metis append_take_drop_id)
  have d: "distinct (map dp_id (e @ ?f))" using distinct_mergeDataPoints eq by metis
  have "dp_id ` set (e @ ?f) = dp_id ` set e \<union> dp_id ` set i"
    using set_ids_mergeDataPoints eq by metis
  then have "dp_id ` set e \<union> dp_id ` set ?f = dp_id ` set e \<union> dp_id ` set i"
    by (simp add: image_Un)
  moreover have "dp_id ` set e \<inter> dp_id ` set ?f = {}" using d by simp
  ultimately have s: "dp_id ` set ?f = dp_id ` set i - dp_id ` set e" by blast
  have df: "distinct (map dp_id ?f)" using d by simp
  then have "length ?f = card (dp_id ` set ?f)" by (metis distinct_card length_map set_map)
  with that [OF eq df s] s show ?thesis by simp
qed



section \<open>The log buffer\<close>

lemma addLogs_caps [simp]: "st_bufferCaps (addLogs ls st) = st_bufferCaps st"
  by (simp add: addLogs_def Let_def)

lemma addLogs_logs:
  assumes "0 \<le> cap_logCap (st_bufferCaps st)"
    and "int (length (st_logs st)) \<le> cap_logCap (st_bufferCaps st)"
  shows "st_logs (addLogs ls st) = take (nat (cap_logCap (st_bufferCaps st))) (rev ls @ st_logs st)"
proof (cases "ls = []")
  case True
  then show ?thesis using assms by (auto simp: addLogs_def)
qed (use assms in \<open>simp add: addLogs_def Let_def\<close>)

text \<open>The log buffer after a batch of deliveries holds the newest rows first, the last arrival
  at the head, cut to the cap, and is the buffer that delivering the logs one at a time gives,
  evictions included; the counter grows by the number of deliveries.\<close>

theorem addLogs_batch_sequential:
  assumes "int (length (st_logs st)) \<le> cap_logCap (st_bufferCaps st)"
  shows "st_logs (addLogs ls st) = take (nat (cap_logCap (st_bufferCaps st))) (rev ls @ st_logs st) \<and>
    addLogs ls st = foldl (\<lambda>s l. addLog l s) st ls \<and>
    st_newLogCount (addLogs ls st) = st_newLogCount st + int (length ls)"
  using assms
proof (induction ls arbitrary: st)
  case Nil
  then show ?case by (auto simp: addLogs_def)
next
  case (Cons l ls)
  let ?c = "nat (cap_logCap (st_bufferCaps st))"
  have cap: "0 \<le> cap_logCap (st_bufferCaps st)" using Cons.prems by simp
  have one: "st_logs (addLogs [l] st) = take ?c (l # st_logs st)"
    using addLogs_logs [OF cap Cons.prems, of "[l]"] by simp
  then have fit: "int (length (st_logs (addLogs [l] st))) \<le> cap_logCap (st_bufferCaps (addLogs [l] st))"
    using cap by simp
  have more: "addLogs ls (addLogs [l] st) = addLogs (l # ls) st"
    using one cap Cons.prems
    by (cases "ls = []") (simp_all add: addLogs_def Let_def min_def add.assoc)
  have "addLogs (l # ls) st = foldl (\<lambda>s l. addLog l s) st (l # ls)"
    unfolding more [symmetric] using Cons.IH [OF fit] by (simp add: addLog_def)
  moreover have "st_newLogCount (addLogs (l # ls) st) = st_newLogCount st + int (length (l # ls))"
    by (simp add: addLogs_def Let_def)
  ultimately show ?case using addLogs_logs [OF cap Cons.prems, of "l # ls"] by blast
qed

definition mk_log :: "string \<Rightarrow> int \<Rightarrow> log" where
  "mk_log i ns =
     \<lparr>lg_id = i, lg_timestamp = ''t'', lg_observedTimestamp = ''t'', lg_traceId = [], lg_spanId = [],
      lg_severityNumber = 9, lg_severityText = ''INFO'', lg_body = ''b'', lg_serviceName = ''svc'',
      lg_attributes = [], lg_resource = [], lg_epochNs = ns\<rparr>"

theorem addLogs_batch_sequential_witness:
  "st_newLogCount (addLogs [mk_log ''a'' 1, mk_log ''b'' 2] initial_store) = 2"
proof -
  have "int (length (st_logs initial_store)) \<le> cap_logCap (st_bufferCaps initial_store)"
    by (simp add: initial_store_def DEFAULT_CONFIG_def)
  from addLogs_batch_sequential [OF this, of "[mk_log ''a'' 1, mk_log ''b'' 2]", THEN conjunct2, THEN conjunct2]
  show ?thesis by (simp add: initial_store_def del: addLogs_caps)
qed

end
