(* ===== verification/ListSession.thy ===== *)
theory ListSession
  imports TraceStore MetricStore
begin

text \<open>
  The paginated list sessions of \<^verbatim>\<open>stores/telemetry.ts\<close>: the factory
  \<open>createPaginatedListAtoms\<close>, instantiated there for the trace list and for the log list, and
  the exported write atoms built on the two instances.
\<close>

section \<open>The factory\<close>

text \<open>The parameters of the factory: the atoms it reads and writes and its three functions.\<close>

record 'a list_atoms =
  la_list :: "store \<Rightarrow> 'a list"
  la_setList :: "'a list \<Rightarrow> store \<Rightarrow> store"
  la_matched :: "store \<Rightarrow> string set"
  la_setMatched :: "string set \<Rightarrow> store \<Rightarrow> store"
  la_setWindow :: "event_window \<Rightarrow> store \<Rightarrow> store"
  la_getId :: "'a \<Rightarrow> string"
  la_getCap :: "buffer_caps \<Rightarrow> int"
  la_orderItems :: "'a list \<Rightarrow> 'a list"

record 'a replacement_page =
  pg_items :: "'a list"
  pg_idsBeforeRequest :: "string set"
  pg_window :: event_window

definition list_set :: "'a list_atoms \<Rightarrow> 'a list \<Rightarrow> store \<Rightarrow> store" where
  "list_set A items st =
     (let st1 = la_setList A (la_orderItems A items) st
      in la_setMatched A (set (map (la_getId A) items)) st1)"

definition list_replacePage :: "'a list_atoms \<Rightarrow> 'a replacement_page \<Rightarrow> store \<Rightarrow> store" where
  "list_replacePage A page st =
     (let items = pg_items page;
          liveItems = filter (\<lambda>item. la_getId A item \<notin> pg_idsBeforeRequest page) (la_list A st);
          liveIds = set (map (la_getId A) liveItems);
          merged = liveItems @ filter (\<lambda>item. la_getId A item \<notin> liveIds) items;
          cap = la_getCap A (st_bufferCaps st);
          ordered = la_orderItems A merged;
          st1 = la_setList A (cap_list cap ordered) st;
          st2 = la_setMatched A (set (map (la_getId A) items)) st1
      in la_setWindow A (pg_window page) st2)"

definition list_append :: "'a list_atoms \<Rightarrow> 'a list \<Rightarrow> store \<Rightarrow> store" where
  "list_append A olderItems st =
     (let st1 = la_setMatched A (la_matched A st \<union> set (map (la_getId A) olderItems)) st;
          current = la_list A st1;
          seen = set (map (la_getId A) current);
          deduped = filter (\<lambda>item. la_getId A item \<notin> seen) olderItems
      in if length deduped = 0 then st1
         else
           let merged = la_orderItems A (current @ deduped);
               cap = la_getCap A (st_bufferCaps st1)
           in la_setList A (cap_list cap merged) st1)"

section \<open>The two instances\<close>

definition traceList :: "trace list_atoms" where
  "traceList =
     \<lparr>la_list = st_traces, la_setList = (\<lambda>xs st. st\<lparr>st_traces := xs\<rparr>),
      la_matched = st_serverMatchedTraceIds,
      la_setMatched = (\<lambda>ids st. st\<lparr>st_serverMatchedTraceIds := ids\<rparr>),
      la_setWindow = (\<lambda>w st. st\<lparr>st_traceListWindow := w\<rparr>),
      la_getId = tr_traceId, la_getCap = cap_traceCap, la_orderItems = newestTraceStartFirst\<rparr>"

definition setTraces :: "trace list \<Rightarrow> store \<Rightarrow> store" where
  "setTraces traces st = list_set traceList traces (st\<lparr>st_loadedOlderTraceIds := {}\<rparr>)"

text \<open>
  The item of a page that replaces an entry of the buffer: it keeps the search values, and the
  spans when the page has none. \<open>current\<close> is built by \<open>new Map(\<dots>)\<close>, where the last
  entry of an id wins.
\<close>

definition page_trace :: "(trace \<Rightarrow> trace \<Rightarrow> trace) \<Rightarrow> trace list \<Rightarrow> trace \<Rightarrow> trace" where
  "page_trace red current incoming =
     (case lookup_by tr_traceId (rev current) (tr_traceId incoming) of
        None \<Rightarrow> incoming
      | Some existing \<Rightarrow>
          let spans = (if length (tr_spans incoming) = 0 then tr_spans existing else tr_spans incoming)
          in red existing
               (incoming\<lparr>tr_spans := spans, tr_searchValues := tr_searchValues existing\<rparr>))"

definition replaceTracePage ::
    "(trace \<Rightarrow> trace \<Rightarrow> trace) \<Rightarrow> trace replacement_page \<Rightarrow> store \<Rightarrow> store" where
  "replaceTracePage red page st =
     (let items = map (page_trace red (st_traces st)) (pg_items page)
      in list_replacePage traceList (page\<lparr>pg_items := items\<rparr>) (st\<lparr>st_loadedOlderTraceIds := {}\<rparr>))"

definition appendTraces :: "trace list \<Rightarrow> store \<Rightarrow> store" where
  "appendTraces traces st =
     list_append traceList traces
       (st\<lparr>st_loadedOlderTraceIds := st_loadedOlderTraceIds st \<union> set (map tr_traceId traces)\<rparr>)"

definition appendTraceSearchResults :: "trace list \<Rightarrow> store \<Rightarrow> store" where
  "appendTraceSearchResults = list_append traceList"

definition logList :: "log list_atoms" where
  "logList =
     \<lparr>la_list = st_logs, la_setList = (\<lambda>xs st. st\<lparr>st_logs := xs\<rparr>),
      la_matched = st_serverMatchedLogIds,
      la_setMatched = (\<lambda>ids st. st\<lparr>st_serverMatchedLogIds := ids\<rparr>),
      la_setWindow = (\<lambda>w st. st\<lparr>st_logListWindow := w\<rparr>),
      la_getId = lg_id, la_getCap = cap_logCap, la_orderItems = (\<lambda>items. items)\<rparr>"

definition setLogs :: "log list \<Rightarrow> store \<Rightarrow> store" where
  "setLogs logs st = list_set logList logs (st\<lparr>st_loadedOlderLogIds := {}\<rparr>)"

definition replaceLogPage :: "log replacement_page \<Rightarrow> store \<Rightarrow> store" where
  "replaceLogPage page st = list_replacePage logList page (st\<lparr>st_loadedOlderLogIds := {}\<rparr>)"

definition appendLogs :: "log list \<Rightarrow> store \<Rightarrow> store" where
  "appendLogs logs st =
     list_append logList logs
       (st\<lparr>st_loadedOlderLogIds := st_loadedOlderLogIds st \<union> set (map lg_id logs)\<rparr>)"

definition appendLogSearchResults :: "log list \<Rightarrow> store \<Rightarrow> store" where
  "appendLogSearchResults = list_append logList"

section \<open>The contract of a session\<close>

text \<open>
  What the factory needs of the atoms it is given (a write is read back and leaves the rest alone)
  and of the order (a permutation that leaves an ordered list as it is, where a prefix of an
  ordered list is ordered).
\<close>

locale list_session =
  fixes A :: "'a list_atoms" and ordered :: "'a list \<Rightarrow> bool"
  assumes list_setList: "la_list A (la_setList A xs st) = xs"
    and list_setMatched: "la_list A (la_setMatched A ids st) = la_list A st"
    and list_setWindow: "la_list A (la_setWindow A w st) = la_list A st"
    and matched_setMatched: "la_matched A (la_setMatched A ids st) = ids"
    and matched_setList: "la_matched A (la_setList A xs st) = la_matched A st"
    and matched_setWindow: "la_matched A (la_setWindow A w st) = la_matched A st"
    and caps_setList: "st_bufferCaps (la_setList A xs st) = st_bufferCaps st"
    and caps_setMatched: "st_bufferCaps (la_setMatched A ids st) = st_bufferCaps st"
    and caps_setWindow: "st_bufferCaps (la_setWindow A w st) = st_bufferCaps st"
    and mset_order: "mset (la_orderItems A xs) = mset xs"
    and ordered_order: "ordered (la_orderItems A xs)"
    and ordered_id: "ordered xs \<Longrightarrow> la_orderItems A xs = xs"
    and ordered_take: "ordered xs \<Longrightarrow> ordered (take n xs)"
begin

definition cap :: "store \<Rightarrow> int" where
  "cap st = la_getCap A (st_bufferCaps st)"

definition ids :: "'a list \<Rightarrow> string set" where
  "ids xs = la_getId A ` set xs"

text \<open>The session invariant: one row per id, in order, within the cap.\<close>

definition ok :: "store \<Rightarrow> bool" where
  "ok st \<longleftrightarrow> distinct (map (la_getId A) (la_list A st)) \<and> ordered (la_list A st) \<and>
     int (length (la_list A st)) \<le> cap st"

definition live :: "string set \<Rightarrow> store \<Rightarrow> 'a list" where
  "live before st = filter (\<lambda>x. la_getId A x \<notin> before) (la_list A st)"

definition unseen :: "'a list \<Rightarrow> 'a list \<Rightarrow> 'a list" where
  "unseen xs ys = filter (\<lambda>y. la_getId A y \<notin> ids xs) ys"

lemma ok_cap: "ok st \<Longrightarrow> 0 \<le> cap st"
  by (simp add: ok_def)

lemma set_order: "set (la_orderItems A xs) = set xs"
  by (rule mset_eq_setD) (rule mset_order)

lemma length_order: "length (la_orderItems A xs) = length xs"
  by (rule mset_eq_length) (rule mset_order)

lemma distinct_order: "distinct (map f (la_orderItems A xs)) = distinct (map f xs)"
  by (rule distinct_map_mset) (rule mset_order)

lemma distinct_unseen:
  "distinct (map (la_getId A) xs) \<Longrightarrow> distinct (map (la_getId A) ys) \<Longrightarrow>
     distinct (map (la_getId A) (xs @ unseen xs ys))"
  by (simp add: unseen_def ids_def distinct_map_filter disjoint_iff image_iff) blast

lemma replace_list:
  "0 \<le> cap st \<Longrightarrow> la_list A (list_replacePage A page st) =
     take (nat (cap st)) (la_orderItems A
       (live (pg_idsBeforeRequest page) st @
        unseen (live (pg_idsBeforeRequest page) st) (pg_items page)))"
  by (simp add: list_replacePage_def Let_def list_setWindow list_setMatched list_setList live_def
      unseen_def ids_def cap_def)

lemma replace_matched: "la_matched A (list_replacePage A page st) = ids (pg_items page)"
  by (simp add: list_replacePage_def Let_def matched_setWindow matched_setMatched ids_def)

lemma replace_caps: "cap (list_replacePage A page st) = cap st"
  by (simp add: cap_def list_replacePage_def Let_def caps_setWindow caps_setMatched caps_setList)

lemma capped_ok:
  assumes "0 \<le> cap st" and "distinct (map (la_getId A) xs)" and "cap st' = cap st"
    and "la_list A st' = take (nat (cap st)) (la_orderItems A xs)"
  shows "ok st'"
  using assms int_length_take [of "cap st" "la_orderItems A xs"] unfolding ok_def
  by (simp add: ordered_take ordered_order distinct_order flip: take_map)

lemma replace_ok:
  assumes "ok st" and "distinct (map (la_getId A) (pg_items page))"
  shows "ok (list_replacePage A page st)"
proof (rule capped_ok [OF ok_cap [OF assms(1)] _ replace_caps replace_list])
  show "distinct (map (la_getId A) (live (pg_idsBeforeRequest page) st @
      unseen (live (pg_idsBeforeRequest page) st) (pg_items page)))"
    using assms by (intro distinct_unseen) (auto simp: ok_def live_def distinct_map_filter)
qed (rule ok_cap [OF assms(1)])

lemma append_matched: "la_matched A (list_append A xs st) = la_matched A st \<union> ids xs"
  by (simp add: list_append_def Let_def matched_setList matched_setMatched ids_def)

lemma append_caps: "cap (list_append A xs st) = cap st"
  by (simp add: cap_def list_append_def Let_def caps_setMatched caps_setList)

lemma append_list:
  assumes "ok st"
  shows "la_list A (list_append A xs st) =
    take (nat (cap st)) (la_orderItems A (la_list A st @ unseen (la_list A st) xs))"
proof -
  have "length (la_list A st) \<le> nat (cap st)" using assms unfolding ok_def by linarith
  with assms show ?thesis
    by (auto simp: list_append_def Let_def list_setList list_setMatched caps_setMatched unseen_def
        ids_def cap_def ok_def ordered_id filter_empty_conv)
qed

lemma append_ok:
  assumes "ok st" and "distinct (map (la_getId A) xs)"
  shows "ok (list_append A xs st)"
proof (rule capped_ok [OF ok_cap [OF assms(1)] _ append_caps append_list [OF assms(1)]])
  show "distinct (map (la_getId A) (la_list A st @ unseen (la_list A st) xs))"
    using assms by (intro distinct_unseen) (simp_all add: ok_def)
qed

text \<open>A page that is fetched twice leaves the session as fetching it once does.\<close>

lemma append_twice:
  assumes "ok st" and "distinct (map (la_getId A) xs)"
    and "int (length (la_list A st @ unseen (la_list A st) xs)) \<le> cap st"
  shows "la_list A (list_append A xs (list_append A xs st)) = la_list A (list_append A xs st)"
proof -
  let ?l = "la_orderItems A (la_list A st @ unseen (la_list A st) xs)"
  have "length ?l \<le> nat (cap st)" using assms(3) unfolding length_order by linarith
  then have l: "la_list A (list_append A xs st) = ?l" by (simp add: append_list [OF assms(1)])
  have "ids ?l \<supseteq> ids xs" by (auto simp: ids_def unseen_def set_order)
  then have "unseen ?l xs = []" by (auto simp: unseen_def ids_def filter_empty_conv)
  then show ?thesis
    using append_list [OF append_ok [OF assms(1,2)], of xs] \<open>length ?l \<le> nat (cap st)\<close>
    by (simp add: l append_caps ordered_id ordered_order)
qed

end

interpretation trace_list: list_session traceList newest_first
  by unfold_locales
    (simp_all add: traceList_def newestTraceStartFirst_id newest_first_take)

interpretation log_list: list_session logList "\<lambda>_. True"
  by unfold_locales (simp_all add: logList_def)

section \<open>Bridges\<close>

lemma traceList_simps [simp]:
  "la_list traceList st = st_traces st" "la_matched traceList st = st_serverMatchedTraceIds st"
  "la_getId traceList = tr_traceId" "la_getCap traceList = cap_traceCap"
  "la_orderItems traceList = newestTraceStartFirst"
  "la_setList traceList xs st = st\<lparr>st_traces := xs\<rparr>"
  "la_setMatched traceList is st = st\<lparr>st_serverMatchedTraceIds := is\<rparr>"
  "la_setWindow traceList w st = st\<lparr>st_traceListWindow := w\<rparr>"
  by (simp_all add: traceList_def)

lemma logList_simps [simp]:
  "la_list logList st = st_logs st" "la_matched logList st = st_serverMatchedLogIds st"
  "la_getId logList = lg_id" "la_getCap logList = cap_logCap" "la_orderItems logList ls = ls"
  "la_setList logList ys st = st\<lparr>st_logs := ys\<rparr>"
  "la_setMatched logList is st = st\<lparr>st_serverMatchedLogIds := is\<rparr>"
  "la_setWindow logList w st = st\<lparr>st_logListWindow := w\<rparr>"
  by (simp_all add: logList_def)

lemma trace_list_ok: "trace_list.ok st \<longleftrightarrow> trace_store_ok st"
  by (auto simp: trace_list.ok_def trace_list.cap_def trace_store_ok_def trace_buffer_ok_def)

definition log_store_ok :: "store \<Rightarrow> bool" where
  "log_store_ok st \<longleftrightarrow> distinct (map lg_id (st_logs st)) \<and>
     int (length (st_logs st)) \<le> cap_logCap (st_bufferCaps st)"

lemma log_list_ok: "log_list.ok st \<longleftrightarrow> log_store_ok st"
  by (simp add: log_list.ok_def log_list.cap_def log_store_ok_def)

text \<open>The rows delivered after the request started, and the page rows they do not shadow.\<close>

definition live_traces :: "string set \<Rightarrow> store \<Rightarrow> trace list" where
  "live_traces before st = filter (\<lambda>t. tr_traceId t \<notin> before) (st_traces st)"

definition live_logs :: "string set \<Rightarrow> store \<Rightarrow> log list" where
  "live_logs before st = filter (\<lambda>l. lg_id l \<notin> before) (st_logs st)"

definition unseen_traces :: "trace list \<Rightarrow> trace list \<Rightarrow> trace list" where
  "unseen_traces known ts = filter (\<lambda>t. tr_traceId t \<notin> tr_traceId ` set known) ts"

definition unseen_logs :: "log list \<Rightarrow> log list \<Rightarrow> log list" where
  "unseen_logs known ls = filter (\<lambda>l. lg_id l \<notin> lg_id ` set known) ls"

lemmas session_bridge =
  trace_list.live_def trace_list.unseen_def trace_list.ids_def trace_list.cap_def
  log_list.live_def log_list.unseen_def log_list.ids_def log_list.cap_def
  live_traces_def live_logs_def unseen_traces_def unseen_logs_def

lemma id_page_trace [simp]:
  "structural_sharing red \<Longrightarrow> tr_traceId (page_trace red ts t) = tr_traceId t"
  by (auto simp: page_trace_def structural_sharing_def Let_def split: option.splits)

lemma ids_page_trace: "structural_sharing red \<Longrightarrow> map tr_traceId (map (page_trace red ts) xs) = map tr_traceId xs"
  by simp

lemma ids_page_trace_set: "structural_sharing red \<Longrightarrow> tr_traceId ` page_trace red ts ` X = tr_traceId ` X"
  by (force simp: image_iff)

lemma newest_first_take_evicted:
  assumes "newest_first ts" and "x \<in> set ts" and "x \<notin> set (take n ts)"
  shows "length (take n ts) = n \<and> (\<forall>u \<in> set (take n ts). tr_startEpochNs x \<le> tr_startEpochNs u)"
proof -
  have "x \<in> set (drop n ts)" using assms(2,3) by (metis Un_iff append_take_drop_id set_append)
  moreover have "sorted_wrt (\<lambda>a b. tr_startEpochNs a \<ge> tr_startEpochNs b) (take n ts @ drop n ts)"
    using assms(1) by (simp add: newest_first_def)
  ultimately show ?thesis unfolding sorted_wrt_append by (cases "n < length ts") auto
qed

lemma replaceTracePage_traces:
  assumes "trace_store_ok st" and "structural_sharing red"
  shows "st_traces (replaceTracePage red page st) =
    take (nat (cap_traceCap (st_bufferCaps st))) (newestTraceStartFirst
      (live_traces (pg_idsBeforeRequest page) st @
       unseen_traces (live_traces (pg_idsBeforeRequest page) st)
         (map (page_trace red (st_traces st)) (pg_items page))))"
  using trace_list.replace_list [of "st\<lparr>st_loadedOlderTraceIds := {}\<rparr>"] trace_store_cap_nonneg [OF assms(1)]
  by (simp add: replaceTracePage_def session_bridge)

lemma trace_store_ok_fields [simp]:
  "trace_store_ok (st\<lparr>st_loadedOlderTraceIds := X\<rparr>) = trace_store_ok st"
  by (simp add: trace_store_ok_def)

lemma log_store_ok_fields [simp]:
  "log_store_ok (st\<lparr>st_loadedOlderLogIds := X\<rparr>) = log_store_ok st"
  by (simp add: log_store_ok_def)

lemma replaceTracePage_ok:
  assumes "trace_store_ok st" and "structural_sharing red" and "distinct (map tr_traceId (pg_items page))"
  shows "trace_store_ok (replaceTracePage red page st)"
  using trace_list.replace_ok [of "st\<lparr>st_loadedOlderTraceIds := {}\<rparr>"
      "page\<lparr>pg_items := map (page_trace red (st_traces st)) (pg_items page)\<rparr>"] assms
  by (simp add: replaceTracePage_def trace_list_ok ids_page_trace comp_def)

section \<open>Properties\<close>

text \<open>C26: when a page of traces answers a request, the buffer becomes the rows that arrived after
  the request started and the page's other rows, newest start first and cut to the cap; a live row
  wins an id collision and leaves only when the buffer is full of rows that start no earlier; the
  vouched ids are the page's, the browsing history is forgotten and the window is the request's.\<close>

theorem replaceTracePage_session:
  assumes "trace_store_ok st" and "structural_sharing red" and "distinct (map tr_traceId (pg_items page))"
  shows "trace_store_ok (replaceTracePage red page st) \<and>
    st_traces (replaceTracePage red page st) =
      take (nat (cap_traceCap (st_bufferCaps st))) (newestTraceStartFirst
        (live_traces (pg_idsBeforeRequest page) st @
         unseen_traces (live_traces (pg_idsBeforeRequest page) st)
           (map (page_trace red (st_traces st)) (pg_items page)))) \<and>
    (\<forall>t \<in> set (live_traces (pg_idsBeforeRequest page) st).
       t \<in> set (st_traces (replaceTracePage red page st)) \<or>
       int (length (st_traces (replaceTracePage red page st))) = cap_traceCap (st_bufferCaps st) \<and>
       (\<forall>u \<in> set (st_traces (replaceTracePage red page st)). tr_startEpochNs t \<le> tr_startEpochNs u)) \<and>
    st_serverMatchedTraceIds (replaceTracePage red page st) = tr_traceId ` set (pg_items page) \<and>
    st_loadedOlderTraceIds (replaceTracePage red page st) = {} \<and>
    st_traceListWindow (replaceTracePage red page st) = pg_window page"
proof -
  let ?n = "nat (cap_traceCap (st_bufferCaps st))"
  let ?l = "newestTraceStartFirst (live_traces (pg_idsBeforeRequest page) st @
         unseen_traces (live_traces (pg_idsBeforeRequest page) st)
           (map (page_trace red (st_traces st)) (pg_items page)))"
  note eq = replaceTracePage_traces [OF assms(1,2), of page]
  have "t \<in> set (take ?n ?l) \<or> int (length (take ?n ?l)) = cap_traceCap (st_bufferCaps st) \<and>
      (\<forall>u \<in> set (take ?n ?l). tr_startEpochNs t \<le> tr_startEpochNs u)"
    if "t \<in> set (live_traces (pg_idsBeforeRequest page) st)" for t
    using newest_first_take_evicted [of ?l t ?n] that trace_store_cap_nonneg [OF assms(1)]
    by auto
  moreover have "st_serverMatchedTraceIds (replaceTracePage red page st) = tr_traceId ` set (pg_items page)"
    by (simp add: replaceTracePage_def list_replacePage_def Let_def ids_page_trace_set [OF assms(2)])
  moreover have "st_loadedOlderTraceIds (replaceTracePage red page st) = {}"
    by (simp add: replaceTracePage_def list_replacePage_def Let_def)
  moreover have "st_traceListWindow (replaceTracePage red page st) = pg_window page"
    by (simp add: replaceTracePage_def list_replacePage_def Let_def)
  ultimately show ?thesis
    unfolding eq using replaceTracePage_ok [OF assms] by blast
qed

theorem replaceTracePage_session_witness:
  "trace_store_ok (replaceTracePage (\<lambda>_ new. new)
     \<lparr>pg_items = [mk_trace ''a'' 7 1 1], pg_idsBeforeRequest = {}, pg_window = DEFAULT_EVENT_TIME_WINDOW\<rparr>
     (trace_store_with 2 [mk_trace ''a'' 5 1 1]))"
proof -
  have ok: "trace_store_ok (trace_store_with 2 [mk_trace ''a'' 5 1 1])"
    by (simp add: trace_witness_defs)
  show ?thesis
    by (rule replaceTracePage_session [OF ok, THEN conjunct1])
      (simp_all add: structural_sharing_def)
qed

text \<open>The log list's page replacement keeps every log that arrived after the request started, in
  its place at the head, followed by the page rows with other ids in the page's order, up to the
  cap, one row per id.\<close>

theorem replaceLogPage_session:
  assumes "log_store_ok st" and "distinct (map lg_id (pg_items page))"
  shows "log_store_ok (replaceLogPage page st) \<and>
    st_logs (replaceLogPage page st) =
      live_logs (pg_idsBeforeRequest page) st @
      take (nat (cap_logCap (st_bufferCaps st)) - length (live_logs (pg_idsBeforeRequest page) st))
        (unseen_logs (live_logs (pg_idsBeforeRequest page) st) (pg_items page)) \<and>
    st_serverMatchedLogIds (replaceLogPage page st) = lg_id ` set (pg_items page) \<and>
    st_loadedOlderLogIds (replaceLogPage page st) = {} \<and>
    st_logListWindow (replaceLogPage page st) = pg_window page"
proof -
  let ?s = "st\<lparr>st_loadedOlderLogIds := {}\<rparr>"
  have len: "length (live_logs (pg_idsBeforeRequest page) st) \<le> nat (cap_logCap (st_bufferCaps st))"
    using assms(1) length_filter_le [of "\<lambda>l. lg_id l \<notin> pg_idsBeforeRequest page" "st_logs st"]
    unfolding log_store_ok_def live_logs_def by linarith
  have cap: "0 \<le> cap_logCap (st_bufferCaps st)" using assms(1) by (simp add: log_store_ok_def)
  have "log_store_ok (replaceLogPage page st)"
    using log_list.replace_ok [of ?s page] assms by (simp add: replaceLogPage_def log_list_ok)
  moreover have "st_logs (replaceLogPage page st) =
      live_logs (pg_idsBeforeRequest page) st @
      take (nat (cap_logCap (st_bufferCaps st)) - length (live_logs (pg_idsBeforeRequest page) st))
        (unseen_logs (live_logs (pg_idsBeforeRequest page) st) (pg_items page))"
    using log_list.replace_list [of ?s page] len cap by (simp add: replaceLogPage_def session_bridge)
  ultimately show ?thesis
    by (simp add: replaceLogPage_def list_replacePage_def Let_def)
qed

theorem replaceLogPage_session_witness:
  "log_store_ok (replaceLogPage
     \<lparr>pg_items = [mk_log ''a'' 1], pg_idsBeforeRequest = {}, pg_window = DEFAULT_EVENT_TIME_WINDOW\<rparr>
     initial_store)"
  by (rule replaceLogPage_session [THEN conjunct1])
    (simp_all add: log_store_ok_def initial_store_def DEFAULT_CONFIG_def)

text \<open>Loading an older page of logs leaves every row of the buffer in its place, adds behind
  them the rows with new ids as far as the cap allows, and keeps one row per id; loading the same
  page again changes no row.\<close>

theorem appendLogs_session:
  assumes "log_store_ok st" and "distinct (map lg_id ls)"
  shows "log_store_ok (appendLogs ls st) \<and>
    st_logs (appendLogs ls st) =
      st_logs st @ take (nat (cap_logCap (st_bufferCaps st)) - length (st_logs st))
        (unseen_logs (st_logs st) ls) \<and>
    (int (length (st_logs st @ unseen_logs (st_logs st) ls)) \<le> cap_logCap (st_bufferCaps st) \<longrightarrow>
       st_logs (appendLogs ls (appendLogs ls st)) = st_logs (appendLogs ls st)) \<and>
    st_loadedOlderLogIds (appendLogs ls st) = st_loadedOlderLogIds st \<union> lg_id ` set ls"
proof -
  let ?s = "st\<lparr>st_loadedOlderLogIds := st_loadedOlderLogIds st \<union> set (map lg_id ls)\<rparr>"
  have ok: "log_list.ok ?s" using assms(1) by (simp add: log_list_ok)
  have len: "length (st_logs st) \<le> nat (cap_logCap (st_bufferCaps st))"
    using assms(1) unfolding log_store_ok_def by linarith
  have 1: "log_store_ok (appendLogs ls st)"
    using log_list.append_ok [OF ok] assms(2) by (simp add: appendLogs_def log_list_ok)
  have eq: "st_logs (appendLogs ls st') =
      st_logs st' @ take (nat (cap_logCap (st_bufferCaps st')) - length (st_logs st'))
        (unseen_logs (st_logs st') ls)" if ok': "log_store_ok st'" for st'
  proof -
    have "length (st_logs st') \<le> nat (cap_logCap (st_bufferCaps st'))"
      using ok' unfolding log_store_ok_def by linarith
    then show ?thesis using log_list.append_list [of "st'\<lparr>st_loadedOlderLogIds := st_loadedOlderLogIds st' \<union> set (map lg_id ls)\<rparr>" ls]
      ok' by (simp add: log_list_ok appendLogs_def session_bridge)
  qed
  have more: "st_loadedOlderLogIds (appendLogs ls st) = st_loadedOlderLogIds st \<union> lg_id ` set ls"
    by (simp add: appendLogs_def list_append_def Let_def)
  have "st_logs (appendLogs ls (appendLogs ls st)) = st_logs (appendLogs ls st)"
    if "int (length (st_logs st @ unseen_logs (st_logs st) ls)) \<le> cap_logCap (st_bufferCaps st)"
  proof -
    have "length (unseen_logs (st_logs st) ls) \<le> nat (cap_logCap (st_bufferCaps st)) - length (st_logs st)"
      using that unfolding length_append by linarith
    then have "st_logs (appendLogs ls st) = st_logs st @ unseen_logs (st_logs st) ls"
      using eq [OF assms(1)] by simp
    then have "unseen_logs (st_logs (appendLogs ls st)) ls = []"
      by (auto simp: unseen_logs_def filter_empty_conv)
    then show ?thesis using eq [OF 1] by simp
  qed
  with 1 eq [OF assms(1)] more show ?thesis by blast
qed

theorem appendLogs_session_witness:
  "log_store_ok (appendLogs [mk_log ''a'' 1, mk_log ''b'' 1] initial_store)"
  by (rule appendLogs_session [THEN conjunct1])
    (simp_all add: log_store_ok_def initial_store_def DEFAULT_CONFIG_def mk_log_def)

text \<open>Loading an older page of traces keeps the buffer's own entry for an id it already holds,
  adds the others in start order, keeps one row per id and the cap, and an existing row leaves only
  when the buffer is full of rows that start no earlier; a search page does the same to the rows
  and the vouched ids but is not recorded as browsing history.\<close>

theorem appendTraces_session:
  assumes "trace_store_ok st" and "distinct (map tr_traceId ts)"
  shows "trace_store_ok (appendTraces ts st) \<and>
    st_traces (appendTraces ts st) =
      take (nat (cap_traceCap (st_bufferCaps st)))
        (newestTraceStartFirst (st_traces st @ unseen_traces (st_traces st) ts)) \<and>
    (\<forall>t \<in> set (st_traces st). t \<in> set (st_traces (appendTraces ts st)) \<or>
       int (length (st_traces (appendTraces ts st))) = cap_traceCap (st_bufferCaps st) \<and>
       (\<forall>u \<in> set (st_traces (appendTraces ts st)). tr_startEpochNs t \<le> tr_startEpochNs u)) \<and>
    st_serverMatchedTraceIds (appendTraces ts st) = st_serverMatchedTraceIds st \<union> tr_traceId ` set ts \<and>
    appendTraceSearchResults ts st =
      (appendTraces ts st)\<lparr>st_loadedOlderTraceIds := st_loadedOlderTraceIds st\<rparr>"
proof -
  let ?s = "st\<lparr>st_loadedOlderTraceIds := st_loadedOlderTraceIds st \<union> set (map tr_traceId ts)\<rparr>"
  let ?n = "nat (cap_traceCap (st_bufferCaps st))"
  let ?l = "newestTraceStartFirst (st_traces st @ unseen_traces (st_traces st) ts)"
  have ok: "trace_list.ok ?s" using assms(1) by (simp add: trace_list_ok)
  have eq: "st_traces (appendTraces ts st) = take ?n ?l"
    using trace_list.append_list [OF ok, of ts] by (simp add: appendTraces_def session_bridge)
  have "t \<in> set (take ?n ?l) \<or> int (length (take ?n ?l)) = cap_traceCap (st_bufferCaps st) \<and>
      (\<forall>u \<in> set (take ?n ?l). tr_startEpochNs t \<le> tr_startEpochNs u)"
    if "t \<in> set (st_traces st)" for t
    using newest_first_take_evicted [of ?l t ?n] that trace_store_cap_nonneg [OF assms(1)] by auto
  moreover have "trace_store_ok (appendTraces ts st)"
    using trace_list.append_ok [OF ok] assms(2) by (simp add: appendTraces_def trace_list_ok)
  moreover have "st_serverMatchedTraceIds (appendTraces ts st) =
      st_serverMatchedTraceIds st \<union> tr_traceId ` set ts"
    by (simp add: appendTraces_def list_append_def Let_def)
  moreover have "appendTraceSearchResults ts st =
      (appendTraces ts st)\<lparr>st_loadedOlderTraceIds := st_loadedOlderTraceIds st\<rparr>"
    by (simp add: appendTraces_def appendTraceSearchResults_def list_append_def Let_def)
  ultimately show ?thesis unfolding eq by blast
qed

theorem appendTraces_session_witness:
  "trace_store_ok (appendTraces [mk_trace ''b'' 3 1 1] (trace_store_with 1 [mk_trace ''a'' 5 1 1]))"
proof -
  have "trace_store_ok (trace_store_with 1 [mk_trace ''a'' 5 1 1])" by (simp add: trace_witness_defs)
  then show ?thesis by (rule appendTraces_session [THEN conjunct1]) simp
qed

end
