(* ===== verification/ListFilters.thy ===== *)
theory ListFilters
  imports TraceSearch ListSession
begin

text \<open>
  The rows the lists show: the derived atoms of \<^verbatim>\<open>stores/filters.ts\<close>. An atom is a
  function of the store; \<open>None\<close> is the exception of a window bound that does not parse. The
  trace and log atoms repeat one range filter, which is \<open>windowed_rows\<close>. The reference
  comparison of \<open>selectAtom\<close> returns an array equal to the computed one and is left out.
\<close>

section \<open>Traces and logs\<close>

definition inEventWindow :: "int \<Rightarrow> int option \<Rightarrow> int \<Rightarrow> bool" where
  "inEventWindow epochNs fromNs toNs \<longleftrightarrow>
     (case fromNs of None \<Rightarrow> True | Some f \<Rightarrow> epochNs \<ge> f) \<and> epochNs < toNs"

definition windowed_rows ::
    "temporal \<Rightarrow> int \<Rightarrow> ('a \<Rightarrow> string) \<Rightarrow> ('a \<Rightarrow> int) \<Rightarrow> 'a list \<Rightarrow> event_window \<Rightarrow> string set \<Rightarrow> 'a list option" where
  "windowed_rows T now row_id epoch rows window loadedOlderIds =
     (case window of
        Live r \<Rightarrow>
          if r = RAll then Some rows
          else
            let inRangeIds = set (map row_id (filterDataPointsInRange epoch rows r))
            in Some (filter (\<lambda>x. row_id x \<in> loadedOlderIds \<or> row_id x \<in> inRangeIds) rows)
      | Fixed _ _ \<Rightarrow>
          do {
            (f, t) \<leftarrow> eventWindowBounds T now window;
            fromNs \<leftarrow> (case f of None \<Rightarrow> Some None | Some f \<Rightarrow> map_option Some (inst_parse T f));
            toNs \<leftarrow> inst_parse T t;
            Some (filter (\<lambda>x. row_id x \<in> loadedOlderIds \<or> inEventWindow (epoch x) fromNs toNs) rows)
          })"

definition createFilteredTraces ::
    "temporal \<Rightarrow> int \<Rightarrow> (number \<Rightarrow> string) \<Rightarrow> string \<Rightarrow> store \<Rightarrow> trace list option" where
  "createFilteredTraces T now num_text search st =
     (let loadedOlderIds = (if trim search \<noteq> [] then {} else st_loadedOlderTraceIds st);
          rangeFiltered = windowed_rows T now tr_traceId tr_startEpochNs (st_traces st) (st_traceListWindow st)
            loadedOlderIds
      in if trim search \<noteq> []
         then map_option (filter (\<lambda>t. tr_traceId t \<in> st_serverMatchedTraceIds st \<or>
                createTraceSearchMatcher num_text (trim search) t)) rangeFiltered
         else rangeFiltered)"

definition createFilteredLogs ::
    "temporal \<Rightarrow> int \<Rightarrow> (number \<Rightarrow> string) \<Rightarrow> string \<Rightarrow> store \<Rightarrow> log list option" where
  "createFilteredLogs T now num_text search st =
     (let loadedOlderIds = (if trim search \<noteq> [] then {} else st_loadedOlderLogIds st);
          rangeFiltered = windowed_rows T now lg_id lg_epochNs (st_logs st) (st_logListWindow st) loadedOlderIds
      in if trim search \<noteq> []
         then map_option (filter (\<lambda>l. lg_id l \<in> st_serverMatchedLogIds st \<or>
                createLogSearchMatcher num_text (trim search) l)) rangeFiltered
         else rangeFiltered)"

section \<open>Metrics\<close>

definition buffered_by_key :: "metric list \<Rightarrow> (string \<times> metric) list" where
  "buffered_by_key buffered = foldl (\<lambda>m x. AList.update (mt_key x) x m) [] buffered"

definition createFilteredMetrics :: "string \<Rightarrow> store \<Rightarrow> metric list" where
  "createFilteredMetrics search st =
     (let buffered = st_metrics st
      in if search = [] then buffered
         else
           let q = toLowerCase search;
               result = st_metricSearchResult st;
               serverItems = (if msr_search result = search then msr_items result else []);
               bufferedByKey = buffered_by_key buffered;
               included = set (map mt_key serverItems);
               matches = map (\<lambda>m. case map_of bufferedByKey (mt_key m) of Some b \<Rightarrow> b | None \<Rightarrow> m) serverItems
           in if length (ps_terms (parseMetricSearch search)) > 0 then matches
              else matches @
                filter (\<lambda>m. mt_key m \<notin> included \<and> str_includes (toLowerCase (mt_name m)) q) buffered)"

section \<open>Lemmas\<close>

text \<open>When a row is inside the window, said by its time alone.\<close>

definition row_in_window :: "temporal \<Rightarrow> ('a \<Rightarrow> int) \<Rightarrow> 'a list \<Rightarrow> event_window \<Rightarrow> 'a \<Rightarrow> bool" where
  "row_in_window T epoch rows window x \<longleftrightarrow>
     (case window of
        Live r \<Rightarrow>
          (case rangeToMs r of None \<Rightarrow> True | Some ms \<Rightarrow> epoch x \<ge> Max (epoch ` set rows) - ms * 1000000)
      | Fixed f t \<Rightarrow> the (inst_parse T f) \<le> epoch x \<and> epoch x < the (inst_parse T t))"

definition bounds_parse :: "temporal \<Rightarrow> event_window \<Rightarrow> bool" where
  "bounds_parse T window \<longleftrightarrow>
     (case window of Live _ \<Rightarrow> True | Fixed f t \<Rightarrow> inst_parse T f \<noteq> None \<and> inst_parse T t \<noteq> None)"

lemma rangeToMs_None: "rangeToMs r = None \<longleftrightarrow> r = RAll"
  by (cases r) (simp_all add: rangeToMs_def)

lemma in_range_ids:
  assumes "distinct (map row_id rows)" and "x \<in> set rows" and "r \<noteq> RAll"
  shows "row_id x \<in> set (map row_id (filterDataPointsInRange epoch rows r)) \<longleftrightarrow> row_in_window T epoch rows (Live r) x"
proof -
  obtain ms where ms: "rangeToMs r = Some ms" using assms(3) rangeToMs_None by blast
  have inj: "inj_on row_id (set rows)" using assms(1) by (simp add: distinct_map)
  show ?thesis
    using assms(2) inj_onD [OF inj _ _ assms(2)]
    by (auto simp: range_filter_reference ms row_in_window_def)
qed

lemma windowed_rows_exact:
  assumes "distinct (map row_id rows)"
  shows "windowed_rows T now row_id epoch rows window older =
    (if bounds_parse T window
     then Some (filter (\<lambda>x. row_in_window T epoch rows window x \<or> window \<noteq> Live RAll \<and> row_id x \<in> older) rows)
     else None)"
proof (cases window)
  case (Live r)
  show ?thesis
  proof (cases "r = RAll")
    case True
    with Live show ?thesis
      by (simp add: windowed_rows_def bounds_parse_def row_in_window_def rangeToMs_def)
  next
    case False
    then show ?thesis
      using in_range_ids [OF assms, of _ r epoch T]
      by (auto simp: Live windowed_rows_def bounds_parse_def Let_def intro!: filter_cong)
  qed
next
  case (Fixed f t)
  then show ?thesis
    by (cases "inst_parse T f"; cases "inst_parse T t")
      (auto simp: windowed_rows_def bounds_parse_def row_in_window_def inEventWindow_def intro!: filter_cong)
qed

lemma buffered_by_key_lookup: "map_of (buffered_by_key ms) k = find (\<lambda>m. mt_key m = k) (rev ms)"
proof (induction ms rule: rev_induct)
  case (snoc m ms)
  then show ?case by (simp add: buffered_by_key_def map_of_AList_update)
qed (simp add: buffered_by_key_def)

lemma buffered_by_key_member:
  assumes "distinct (map mt_key ms)" and "m \<in> set ms"
  shows "map_of (buffered_by_key ms) (mt_key m) = Some m"
proof -
  have inj: "inj_on mt_key (set ms)" using assms(1) by (simp add: distinct_map)
  obtain x where x: "find (\<lambda>y. mt_key y = mt_key m) (rev ms) = Some x"
    using assms(2) find_None_iff [of "\<lambda>y. mt_key y = mt_key m" "rev ms"] by fastforce
  then obtain i where i: "i < length (rev ms)" "x = rev ms ! i" "mt_key x = mt_key m" by (auto simp: find_Some_iff)
  then have "x \<in> set (rev ms)" by (metis nth_mem)
  then have "x \<in> set ms" "mt_key x = mt_key m" using i(3) by simp_all
  then have "x = m" using inj assms(2) by (auto dest: inj_onD)
  with x show ?thesis by (simp add: buffered_by_key_lookup)
qed

lemma buffered_by_key_None: "k \<notin> mt_key ` set ms \<Longrightarrow> map_of (buffered_by_key ms) k = None"
  by (auto simp: buffered_by_key_lookup find_None_iff)

lemma buffered_by_key_key: "map_of (buffered_by_key ms) k = Some m \<Longrightarrow> mt_key m = k"
  by (auto simp: buffered_by_key_lookup find_Some_iff)

section \<open>Properties\<close>

text \<open>C35: with distinct ids the trace and the log list show, in the order of the buffer, exactly the
  rows inside the chosen window (for a live range, measured from the newest buffered row), together
  with the older pages the user loaded while browsing; under a search these pages are not exempt and
  a row must have been matched by the server or match here. A fixed window whose bounds do not parse
  makes the read throw.\<close>

theorem filtered_lists_exact:
  "(distinct (map tr_traceId (st_traces st)) \<longrightarrow>
    createFilteredTraces T now num_text search st =
      (if bounds_parse T (st_traceListWindow st)
       then Some (filter (\<lambda>t.
           (row_in_window T tr_startEpochNs (st_traces st) (st_traceListWindow st) t \<or>
            st_traceListWindow st \<noteq> Live RAll \<and> trim search = [] \<and> tr_traceId t \<in> st_loadedOlderTraceIds st) \<and>
           (trim search = [] \<or> tr_traceId t \<in> st_serverMatchedTraceIds st \<or>
            createTraceSearchMatcher num_text (trim search) t)) (st_traces st))
       else None)) \<and>
   (distinct (map lg_id (st_logs st)) \<longrightarrow>
    createFilteredLogs T now num_text search st =
      (if bounds_parse T (st_logListWindow st)
       then Some (filter (\<lambda>l.
           (row_in_window T lg_epochNs (st_logs st) (st_logListWindow st) l \<or>
            st_logListWindow st \<noteq> Live RAll \<and> trim search = [] \<and> lg_id l \<in> st_loadedOlderLogIds st) \<and>
           (trim search = [] \<or> lg_id l \<in> st_serverMatchedLogIds st \<or>
            createLogSearchMatcher num_text (trim search) l)) (st_logs st))
       else None))"
  by (cases "trim search = []")
    (auto simp: createFilteredTraces_def createFilteredLogs_def Let_def windowed_rows_exact intro!: filter_cong)

theorem filtered_lists_exact_witness:
  "createFilteredTraces decimal_temporal 0 (\<lambda>_. []) '' ''
     (trace_store_with 10 [mk_trace ''b'' 7200000000000 1 1, mk_trace ''a'' 5 1 1]) =
   Some [mk_trace ''b'' 7200000000000 1 1]"
proof -
  let ?st = "trace_store_with 10 [mk_trace ''b'' 7200000000000 1 1, mk_trace ''a'' 5 1 1]"
  have st: "st_traces ?st = [mk_trace ''b'' 7200000000000 1 1, mk_trace ''a'' 5 1 1]"
    "st_traceListWindow ?st = Live R1h" "st_loadedOlderTraceIds ?st = {}"
    by (simp_all add: trace_store_with_def initial_store_def DEFAULT_EVENT_TIME_WINDOW_def DEFAULT_CHART_TIME_RANGE_def)
  have f: "tr_traceId (mk_trace i s d n) = i" "tr_startEpochNs (mk_trace i s d n) = s" for i s d n
    by (simp_all add: mk_trace_def)
  have "distinct (map tr_traceId (st_traces ?st))" by (simp add: st f)
  moreover have "trim '' '' = []" by (simp add: trim_def trimStart_def trimEnd_def js_whitespace_def char_code_def)
  ultimately show ?thesis
    using filtered_lists_exact [of ?st decimal_temporal 0 "\<lambda>_. []" "'' ''"]
    by (simp add: st f bounds_parse_def row_in_window_def rangeToMs_def)
qed

text \<open>A metric search lists no metric twice; its rows are the server's matches and, for a search
  without structured terms, the buffered metrics whose name contains the text; a metric the buffer
  holds is always shown from the buffer, never from the older server row, and an answer to another
  search text counts for nothing.\<close>

theorem filtered_metrics_exact:
  assumes "distinct (map mt_key (st_metrics st))"
    and "distinct (map mt_key (msr_items (st_metricSearchResult st)))" and "search \<noteq> []"
  shows "let shown = createFilteredMetrics search st;
             items = (if msr_search (st_metricSearchResult st) = search
                      then msr_items (st_metricSearchResult st) else [])
    in distinct (map mt_key shown) \<and>
       mt_key ` set shown = mt_key ` set items \<union>
         (if ps_terms (parseMetricSearch search) = []
          then mt_key ` {m \<in> set (st_metrics st). str_includes (toLowerCase (mt_name m)) (toLowerCase search)}
          else {}) \<and>
       (\<forall>m \<in> set shown. mt_key m \<in> mt_key ` set (st_metrics st) \<longrightarrow> m \<in> set (st_metrics st))"
proof -
  define items where "items = (if msr_search (st_metricSearchResult st) = search
      then msr_items (st_metricSearchResult st) else [])"
  define pick where "pick = (\<lambda>m. case map_of (buffered_by_key (st_metrics st)) (mt_key m) of Some b \<Rightarrow> b | None \<Rightarrow> m)"
  define extra where "extra = filter (\<lambda>m. mt_key m \<notin> set (map mt_key items) \<and>
      str_includes (toLowerCase (mt_name m)) (toLowerCase search)) (st_metrics st)"
  have key: "mt_key (pick m) = mt_key m" for m
    using buffered_by_key_key by (auto simp: pick_def split: option.split)
  have keys: "map mt_key (map pick items) = map mt_key items" by (simp add: key)
  have "distinct (map mt_key items)" using assms(2) by (simp add: items_def)
  have from_buffer: "pick m \<in> set (st_metrics st)" if "mt_key m \<in> mt_key ` set (st_metrics st)" for m
    using that buffered_by_key_member [OF assms(1)] by (auto simp: pick_def)
  have shown: "createFilteredMetrics search st =
      map pick items @ (if ps_terms (parseMetricSearch search) = [] then extra else [])"
    using assms(3) by (simp add: createFilteredMetrics_def Let_def items_def pick_def extra_def)
  have "distinct (map mt_key extra)" unfolding extra_def by (rule distinct_map_filter [OF assms(1)])
  moreover have "set (map mt_key items) \<inter> set (map mt_key extra) = {}"
  proof -
    have "k \<notin> set (map mt_key items)" if "k \<in> set (map mt_key extra)" for k using that by (auto simp: extra_def)
    then show ?thesis by blast
  qed
  ultimately have "distinct (map mt_key (createFilteredMetrics search st))"
    using \<open>distinct (map mt_key items)\<close> unfolding shown map_append keys distinct_append
    by (simp del: set_map)
  moreover have "mt_key ` set (createFilteredMetrics search st) = mt_key ` set items \<union>
      (if ps_terms (parseMetricSearch search) = []
       then mt_key ` {m \<in> set (st_metrics st). str_includes (toLowerCase (mt_name m)) (toLowerCase search)}
       else {})"
  proof -
    have p: "mt_key ` set (map pick items) = mt_key ` set items" using keys by (metis set_map)
    show ?thesis unfolding shown set_append image_Un p by (auto simp: extra_def)
  qed
  moreover have "\<forall>m \<in> set (createFilteredMetrics search st).
      mt_key m \<in> mt_key ` set (st_metrics st) \<longrightarrow> m \<in> set (st_metrics st)"
    unfolding shown using from_buffer by (auto simp: key extra_def)
  ultimately show ?thesis unfolding Let_def items_def by blast
qed

theorem filtered_metrics_exact_witness:
  "distinct (map mt_key (createFilteredMetrics ''CPU'' (metric_store_with 10 10
     [mk_metric ''cpu'' [], mk_metric ''mem'' []])))"
proof -
  let ?st = "metric_store_with 10 10 [mk_metric ''cpu'' [], mk_metric ''mem'' []]"
  have "distinct (map mt_key (st_metrics ?st))" by code_simp
  moreover have "distinct (map mt_key (msr_items (st_metricSearchResult ?st)))"
    by (simp add: metric_store_with_def initial_store_def)
  ultimately show ?thesis
    using filtered_metrics_exact [of ?st "''CPU''"] by (simp add: Let_def)
qed

end
