(* ===== verification/LiveSearch.thy ===== *)
theory LiveSearch
  imports ListFilters
begin

text \<open>
  The live search of traces: \<^verbatim>\<open>hooks/use-live-trace-search.ts\<close>. The variables of the
  effect and the store are one record, its callbacks are the steps of a transition relation. A
  request in flight is the batch it was sent with; the server's answer, a failure, the timer,
  deliveries, other writes to the store and the clean-up come in any order the guards of the code
  allow.
\<close>

section \<open>State and operations\<close>

record live_search =
  lv_store :: store
  lv_disposed :: bool
  lv_timer :: bool
  lv_running :: bool
  lv_inflight :: "(string \<times> nat) list option"
  lv_version :: nat
  lv_retryDelay :: int
  lv_pending :: "(string \<times> nat) list"

text \<open>The effect does nothing for an empty search.\<close>

definition live_mount :: "string \<Rightarrow> store \<Rightarrow> live_search option" where
  "live_mount search st =
     (if trim search = [] then None
      else Some \<lparr>lv_store = st, lv_disposed = False, lv_timer = False, lv_running = False, lv_inflight = None,
                 lv_version = 0, lv_retryDelay = 500, lv_pending = []\<rparr>)"

definition schedule :: "live_search \<Rightarrow> live_search" where
  "schedule w =
     (if \<not> lv_disposed w \<and> \<not> lv_running w \<and> \<not> lv_timer w \<and> lv_pending w \<noteq> [] then w\<lparr>lv_timer := True\<rparr> else w)"

definition add_pending :: "live_search \<Rightarrow> string \<Rightarrow> live_search" where
  "add_pending w traceId =
     w\<lparr>lv_version := lv_version w + 1, lv_pending := AList.update traceId (lv_version w + 1) (lv_pending w)\<rparr>"

definition on_live_batch :: "live_search \<Rightarrow> live_search" where
  "on_live_batch w = schedule (foldl add_pending w (map tr_traceId (st_liveTraceBatch (lv_store w))))"

definition settle :: "live_search \<Rightarrow> live_search" where
  "settle w = schedule (w\<lparr>lv_running := False, lv_inflight := None\<rparr>)"

text \<open>The timer callback up to the request; without a batch there is none.\<close>

definition live_run :: "live_search \<Rightarrow> live_search" where
  "live_run w =
     (let buffered = set (map tr_traceId (st_traces (lv_store w)));
          w1 = w\<lparr>lv_timer := False, lv_running := True,
                 lv_pending := filter (\<lambda>e. fst e \<in> buffered) (lv_pending w)\<rparr>;
          batch = js_slice 0 1000 (lv_pending w1)
      in if length batch \<noteq> 0 then w1\<lparr>lv_inflight := Some batch\<rparr> else settle w1)"

definition take_answer ::
    "string set \<Rightarrow> (string \<times> nat) list \<times> string set \<Rightarrow> string \<times> nat \<Rightarrow> (string \<times> nat) list \<times> string set" where
  "take_answer matched acc e =
     (case (acc, e) of ((pending, next'), (i, revision)) \<Rightarrow>
        if map_of pending i \<noteq> Some revision then (pending, next')
        else (AList.delete i pending, if i \<in> matched then insert i next' else next' - {i}))"

definition on_answer :: "string list \<Rightarrow> (string \<times> nat) list \<Rightarrow> live_search \<Rightarrow> live_search" where
  "on_answer matchingTraceIds batch w =
     (if lv_disposed w then settle w
      else
        let (pending, next') = foldl (take_answer (set matchingTraceIds))
              (lv_pending w, st_serverMatchedTraceIds (lv_store w)) batch
        in settle (w\<lparr>lv_retryDelay := 500, lv_pending := pending,
                     lv_store := (lv_store w)\<lparr>st_serverMatchedTraceIds := next'\<rparr>\<rparr>))"

definition on_failure :: "live_search \<Rightarrow> live_search" where
  "on_failure w = settle (w\<lparr>lv_retryDelay := min (lv_retryDelay w * 2) 10000\<rparr>)"

definition live_dispose :: "live_search \<Rightarrow> live_search" where
  "live_dispose w = w\<lparr>lv_disposed := True, lv_timer := False\<rparr>"

section \<open>Steps\<close>

datatype live_event = Deliver | Fire | Answer "string list" | Fail | Unmount | StoreWrite store

inductive live_step :: "live_search \<Rightarrow> live_event \<Rightarrow> live_search \<Rightarrow> bool" where
  deliver: "\<not> lv_disposed w \<Longrightarrow> live_step w Deliver (on_live_batch w)"
| fire: "lv_timer w \<Longrightarrow> live_step w Fire (live_run w)"
| answer: "lv_inflight w = Some batch \<Longrightarrow> live_step w (Answer ids) (on_answer ids batch w)"
| fail: "lv_inflight w = Some batch \<Longrightarrow> live_step w Fail (on_failure w)"
| unmount: "\<not> lv_disposed w \<Longrightarrow> live_step w Unmount (live_dispose w)"
| store_write: "live_step w (StoreWrite st) (w\<lparr>lv_store := st\<rparr>)"

inductive_cases deliverE: "live_step w Deliver w'"
inductive_cases fireE: "live_step w Fire w'"
inductive_cases answerE: "live_step w (Answer ids) w'"

inductive live_reachable :: "live_search \<Rightarrow> bool" where
  mounted: "live_mount search st = Some w \<Longrightarrow> live_reachable w"
| step: "live_reachable w \<Longrightarrow> live_step w e w' \<Longrightarrow> live_reachable w'"

section \<open>The invariant\<close>

text \<open>
  While mounted, pending ids always have a request in flight or a timer that will send one, never
  both; revisions are distinct per id and below the counter.
\<close>

definition live_ok :: "live_search \<Rightarrow> bool" where
  "live_ok w \<longleftrightarrow>
     (lv_running w \<longleftrightarrow> lv_inflight w \<noteq> None) \<and>
     \<not> (lv_timer w \<and> lv_running w) \<and>
     (\<not> lv_disposed w \<and> lv_pending w \<noteq> [] \<longrightarrow> lv_timer w \<or> lv_running w) \<and>
     (lv_disposed w \<longrightarrow> \<not> lv_timer w) \<and>
     distinct (map fst (lv_pending w)) \<and>
     (\<forall>e \<in> set (lv_pending w). snd e \<le> lv_version w) \<and>
     500 \<le> lv_retryDelay w \<and> lv_retryDelay w \<le> 10000 \<and>
     (\<forall>batch. lv_inflight w = Some batch \<longrightarrow>
        length batch \<le> 1000 \<and> distinct (map fst batch) \<and> (\<forall>e \<in> set batch. snd e \<le> lv_version w))"

lemma schedule_simps [simp]:
  "lv_store (schedule w) = lv_store w" "lv_disposed (schedule w) = lv_disposed w"
  "lv_running (schedule w) = lv_running w" "lv_inflight (schedule w) = lv_inflight w"
  "lv_version (schedule w) = lv_version w" "lv_retryDelay (schedule w) = lv_retryDelay w"
  "lv_pending (schedule w) = lv_pending w"
  "lv_timer (schedule w) \<longleftrightarrow> lv_timer w \<or> (\<not> lv_disposed w \<and> \<not> lv_running w \<and> lv_pending w \<noteq> [])"
  by (simp_all add: schedule_def)

lemma settle_simps [simp]:
  "lv_store (settle w) = lv_store w" "lv_disposed (settle w) = lv_disposed w"
  "\<not> lv_running (settle w)" "lv_inflight (settle w) = None"
  "lv_version (settle w) = lv_version w" "lv_retryDelay (settle w) = lv_retryDelay w"
  "lv_pending (settle w) = lv_pending w"
  "lv_timer (settle w) \<longleftrightarrow> lv_timer w \<or> (\<not> lv_disposed w \<and> lv_pending w \<noteq> [])"
  by (simp_all add: settle_def)

lemma settle_ok:
  assumes "distinct (map fst (lv_pending w))" and "\<forall>e \<in> set (lv_pending w). snd e \<le> lv_version w"
    and "500 \<le> lv_retryDelay w" and "lv_retryDelay w \<le> 10000" and "lv_disposed w \<longrightarrow> \<not> lv_timer w"
  shows "live_ok (settle w)"
  using assms by (auto simp: live_ok_def)

lemma set_AList_update: "set (AList.update k v xs) \<subseteq> insert (k, v) (set xs)"
  by (induction xs) auto

lemma foldl_add_pending_simps [simp]:
  "lv_version (foldl add_pending w ids) = lv_version w + length ids"
  "lv_disposed (foldl add_pending w ids) = lv_disposed w"
  "lv_timer (foldl add_pending w ids) = lv_timer w"
  "lv_running (foldl add_pending w ids) = lv_running w"
  "lv_inflight (foldl add_pending w ids) = lv_inflight w"
  "lv_retryDelay (foldl add_pending w ids) = lv_retryDelay w"
  "lv_store (foldl add_pending w ids) = lv_store w"
  by (induction ids arbitrary: w) (simp_all add: add_pending_def)

lemma foldl_add_pending_ok:
  assumes "distinct (map fst (lv_pending w))" and "\<forall>e \<in> set (lv_pending w). snd e \<le> lv_version w"
  shows "distinct (map fst (lv_pending (foldl add_pending w ids))) \<and>
    (\<forall>e \<in> set (lv_pending (foldl add_pending w ids)). snd e \<le> lv_version w + length ids)"
  using assms
proof (induction ids arbitrary: w)
  case (Cons i ids)
  have "distinct (map fst (lv_pending (add_pending w i)))"
    using Cons.prems(1) by (simp add: add_pending_def distinct_update)
  moreover have "\<forall>e \<in> set (lv_pending (add_pending w i)). snd e \<le> lv_version (add_pending w i)"
    using Cons.prems(2) set_AList_update [of i "lv_version w + 1" "lv_pending w"]
    by (fastforce simp: add_pending_def)
  ultimately show ?case using Cons.IH [of "add_pending w i"] by (simp add: add_pending_def)
qed simp

lemma set_AList_delete: "set (AList.delete k xs) \<subseteq> set xs"
  by (auto simp: AList.delete_eq)

lemma take_answer_pending:
  "set (fst (foldl (take_answer m) acc batch)) \<subseteq> set (fst acc) \<and>
   (distinct (map fst (fst acc)) \<longrightarrow> distinct (map fst (fst (foldl (take_answer m) acc batch))))"
proof (induction batch arbitrary: acc)
  case (Cons e batch)
  have "set (fst (take_answer m acc e)) \<subseteq> set (fst acc) \<and>
      (distinct (map fst (fst acc)) \<longrightarrow> distinct (map fst (fst (take_answer m acc e))))"
    using set_AList_delete [of "fst e" "fst acc"] by (auto simp: take_answer_def distinct_delete split: prod.splits)
  with Cons.IH [of "take_answer m acc e"] show ?case by auto
qed simp

lemma live_run_ok: "live_ok w \<Longrightarrow> lv_timer w \<Longrightarrow> live_ok (live_run w)"
proof -
  assume ok: "live_ok w" and t: "lv_timer w"
  let ?p = "filter (\<lambda>e. fst e \<in> set (map tr_traceId (st_traces (lv_store w)))) (lv_pending w)"
  have p: "distinct (map fst ?p)" "\<forall>e \<in> set ?p. snd e \<le> lv_version w"
    using ok by (auto simp: live_ok_def intro: distinct_map_filter)
  have d: "\<not> lv_disposed w" using ok t by (auto simp: live_ok_def)
  show ?thesis
  proof (cases "?p = []")
    case True
    then have "live_run w = settle (w\<lparr>lv_timer := False, lv_running := True, lv_pending := []\<rparr>)"
      by (simp add: live_run_def Let_def)
    then show ?thesis using ok by (simp add: settle_ok live_ok_def)
  next
    case False
    then have "live_run w = w\<lparr>lv_timer := False, lv_running := True, lv_pending := ?p,
        lv_inflight := Some (take 1000 ?p)\<rparr>"
      by (simp add: live_run_def Let_def)
    moreover have "distinct (map fst (take 1000 ?p))" using p(1) by (simp add: take_map [symmetric])
    moreover have "\<forall>e \<in> set (take 1000 ?p). snd e \<le> lv_version w" using p(2) by (meson in_set_takeD)
    ultimately show ?thesis using ok p by (simp add: live_ok_def)
  qed
qed

lemma on_answer_ok: "live_ok w \<Longrightarrow> lv_inflight w = Some batch \<Longrightarrow> live_ok (on_answer ids batch w)"
proof -
  assume ok: "live_ok w" and b: "lv_inflight w = Some batch"
  obtain p n where r: "foldl (take_answer (set ids)) (lv_pending w, st_serverMatchedTraceIds (lv_store w)) batch = (p, n)"
    by fastforce
  from take_answer_pending [of "set ids" "(lv_pending w, st_serverMatchedTraceIds (lv_store w))" batch] r
  have "set p \<subseteq> set (lv_pending w)" "distinct (map fst (lv_pending w)) \<Longrightarrow> distinct (map fst p)" by auto
  with ok r show ?thesis
    by (auto simp: on_answer_def live_ok_def intro!: settle_ok)
qed

lemma live_step_ok: "live_step w e w' \<Longrightarrow> live_ok w \<Longrightarrow> live_ok w'"
proof (induction rule: live_step.induct)
  case (deliver w)
  let ?ids = "map tr_traceId (st_liveTraceBatch (lv_store w))"
  have p: "distinct (map fst (lv_pending (foldl add_pending w ?ids)))"
    "\<forall>e \<in> set (lv_pending (foldl add_pending w ?ids)). snd e \<le> lv_version w + length ?ids"
    using foldl_add_pending_ok [of w ?ids] deliver by (auto simp: live_ok_def)
  show ?case
    using deliver p unfolding on_live_batch_def live_ok_def by (cases "lv_inflight w") (auto simp: trans_le_add1)
next
  case (fail w batch)
  then show ?case by (auto simp: on_failure_def live_ok_def intro!: settle_ok)
next
  case (unmount w)
  then show ?case by (simp add: live_dispose_def live_ok_def)
next
  case (store_write w st)
  then show ?case by (auto simp: live_ok_def)
qed (simp_all add: live_run_ok on_answer_ok)

lemma live_reachable_ok: "live_reachable w \<Longrightarrow> live_ok w"
proof (induction rule: live_reachable.induct)
  case (mounted search st w)
  then show ?case by (auto simp: live_mount_def live_ok_def split: if_splits)
qed (rule live_step_ok)

lemma take_answers:
  assumes "distinct (map fst batch)"
  shows "map_of (fst (foldl (take_answer m) (p, n) batch)) i =
      (if map_of batch i \<noteq> None \<and> map_of p i = map_of batch i then None else map_of p i) \<and>
    (i \<in> snd (foldl (take_answer m) (p, n) batch) \<longleftrightarrow>
      (if map_of batch i \<noteq> None \<and> map_of p i = map_of batch i then i \<in> m else i \<in> n))"
  using assms
proof (induction batch arbitrary: p n)
  case (Cons e batch)
  obtain k rev where e: "e = (k, rev)" by (cases e)
  obtain p' n' where t: "take_answer m (p, n) e = (p', n')" by fastforce
  have k: "map_of batch k = None" using Cons.prems e by (simp add: map_of_eq_None_iff)
  have p': "map_of p' i = (if i = k \<and> map_of p k = Some rev then None else map_of p i)"
    using t by (auto simp: take_answer_def e delete_conv' split: if_splits)
  have n': "i \<in> n' \<longleftrightarrow> (if i = k \<and> map_of p k = Some rev then i \<in> m else i \<in> n)"
    using t by (auto simp: take_answer_def e split: if_splits)
  have d: "distinct (map fst batch)" using Cons.prems by simp
  have f: "foldl (take_answer m) (p, n) (e # batch) = foldl (take_answer m) (p', n') batch" by (simp add: t)
  note IH = Cons.IH [OF d, of p' n', unfolded p' n']
  show ?case
  proof (cases "i = k")
    case True
    then show ?thesis unfolding f using IH by (simp add: k e)
  next
    case False
    then have "map_of (e # batch) i = map_of batch i" by (simp add: e)
    then show ?thesis unfolding f using IH by (simp add: False)
  qed
qed simp

lemma map_of_all_None: "(\<And>i. map_of xs i = None) \<Longrightarrow> xs = []"
proof (cases xs)
  case (Cons e es)
  assume "\<And>i. map_of xs i = None"
  from this [of "fst e"] Cons show ?thesis by (cases e) simp
qed

lemma take_answers_all:
  assumes "distinct (map fst (batch @ rest))"
  shows "fst (foldl (take_answer m) (batch @ rest, n) batch) = rest"
  using assms
proof (induction batch arbitrary: n)
  case (Cons e batch)
  obtain k rev where e: "e = (k, rev)" by (cases e)
  have "k \<notin> fst ` set (batch @ rest)" using Cons.prems by (auto simp: e)
  then have "AList.delete k (batch @ rest) = batch @ rest"
    unfolding AList.delete_eq by (intro filter_True) force
  then have "take_answer m ((e # batch) @ rest, n) e = (batch @ rest, if k \<in> m then insert k n else n - {k})"
    by (simp add: take_answer_def e)
  then have f: "foldl (take_answer m) ((e # batch) @ rest, n) (e # batch) =
      foldl (take_answer m) (batch @ rest, if k \<in> m then insert k n else n - {k}) batch" by simp
  show ?case unfolding f using Cons.prems by (intro Cons.IH) simp
qed simp

section \<open>Properties\<close>

text \<open>C7: in every reachable state of the mounted search an id that waits for the server is never
  forgotten: a timer is armed or a request is under way, and never both, so that requests do not
  overlap; a request carries at most a thousand ids, and the retry delay stays between half a second
  and ten seconds.\<close>

theorem live_search_wakeup:
  assumes "live_reachable w"
  shows "(\<not> lv_disposed w \<and> lv_pending w \<noteq> [] \<longrightarrow> lv_timer w \<or> lv_inflight w \<noteq> None) \<and>
    \<not> (lv_timer w \<and> lv_inflight w \<noteq> None) \<and>
    (\<forall>batch. lv_inflight w = Some batch \<longrightarrow> length batch \<le> 1000) \<and>
    500 \<le> lv_retryDelay w \<and> lv_retryDelay w \<le> 10000"
  using live_reachable_ok [OF assms] by (auto simp: live_ok_def)

theorem live_search_wakeup_witness:
  "lv_timer (on_live_batch \<lparr>lv_store = initial_store\<lparr>st_liveTraceBatch := [mk_trace ''a'' 1 1 1]\<rparr>, lv_disposed = False,
      lv_timer = False, lv_running = False, lv_inflight = None, lv_version = 0, lv_retryDelay = 500,
      lv_pending = []\<rparr>)"
proof -
  let ?w = "\<lparr>lv_store = initial_store\<lparr>st_liveTraceBatch := [mk_trace ''a'' 1 1 1]\<rparr>, lv_disposed = False,
      lv_timer = False, lv_running = False, lv_inflight = None, lv_version = 0, lv_retryDelay = 500,
      lv_pending = []\<rparr>"
  have "trim ''x'' \<noteq> []" by code_simp
  then have "live_mount ''x'' (initial_store\<lparr>st_liveTraceBatch := [mk_trace ''a'' 1 1 1]\<rparr>) = Some ?w"
    by (simp add: live_mount_def)
  then have "live_reachable ?w" by (rule live_reachable.mounted)
  then have "live_reachable (on_live_batch ?w)" by (rule live_reachable.step) (auto intro: live_step.deliver)
  from live_search_wakeup [OF this] show ?thesis by (simp add: on_live_batch_def add_pending_def)
qed


section \<open>Draining\<close>

text \<open>A round without deliveries: the timer fires and the request, if there is one, is answered.\<close>

fun live_drain :: "((string \<times> nat) list \<Rightarrow> string list) \<Rightarrow> nat \<Rightarrow> live_search \<Rightarrow> live_search" where
  "live_drain server 0 w = w"
| "live_drain server (Suc n) w =
     (if lv_timer w then
        let w1 = live_run w
        in case lv_inflight w1 of
             None \<Rightarrow> w1
           | Some batch \<Rightarrow> live_drain server n (on_answer (server batch) batch w1)
      else w)"

lemma live_round:
  assumes ok: "live_ok w" and t: "lv_timer w"
  shows "lv_pending (live_run w) = filter (\<lambda>e. fst e \<in> set (map tr_traceId (st_traces (lv_store w)))) (lv_pending w)"
    and "lv_inflight (live_run w) =
      (if lv_pending (live_run w) = [] then None else Some (take 1000 (lv_pending (live_run w))))"
    and "lv_disposed (live_run w) = lv_disposed w"
  by (simp_all add: live_run_def Let_def)

lemma answer_round:
  assumes ok: "live_ok w" and b: "lv_inflight w = Some (take 1000 (lv_pending w))" and m: "\<not> lv_disposed w"
  shows "lv_pending (on_answer ids (take 1000 (lv_pending w)) w) = drop 1000 (lv_pending w)"
proof -
  have "distinct (map fst (take 1000 (lv_pending w) @ drop 1000 (lv_pending w)))"
    using ok by (simp add: live_ok_def)
  from take_answers_all [OF this, of "set ids" "st_serverMatchedTraceIds (lv_store w)"] m
  show ?thesis by (simp add: on_answer_def split: prod.splits) (metis fst_conv)
qed

lemma live_drain_empty:
  assumes "live_ok w" and "\<not> lv_disposed w" and "lv_inflight w = None" and "length (lv_pending w) \<le> 1000 * n"
  shows "lv_pending (live_drain server n w) = []"
  using assms
proof (induction n arbitrary: w)
  case (Suc n)
  show ?case
  proof (cases "lv_timer w")
    case False
    with Suc.prems have "lv_pending w = []" by (auto simp: live_ok_def)
    with False show ?thesis by simp
  next
    case True
    let ?w1 = "live_run w"
    have ok1: "live_ok ?w1" using live_run_ok [OF Suc.prems(1) True] .
    have len: "length (lv_pending ?w1) \<le> 1000 * Suc n"
      unfolding live_round(1) [OF Suc.prems(1) True]
      using length_filter_le Suc.prems(4) le_trans by blast
    show ?thesis
    proof (cases "lv_pending ?w1 = []")
      case True
      with \<open>lv_timer w\<close> live_round(2) [OF Suc.prems(1) \<open>lv_timer w\<close>] show ?thesis by (simp add: Let_def)
    next
      case False
      let ?b = "take 1000 (lv_pending ?w1)"
      let ?w2 = "on_answer (server ?b) ?b ?w1"
      have b: "lv_inflight ?w1 = Some ?b" using live_round(2) [OF Suc.prems(1) True] False by simp
      have m1: "\<not> lv_disposed ?w1" using live_round(3) [OF Suc.prems(1) True] Suc.prems(2) by simp
      have "lv_pending ?w2 = drop 1000 (lv_pending ?w1)" by (rule answer_round [OF ok1 b m1])
      then have "length (lv_pending ?w2) \<le> 1000 * n" using len by simp
      moreover have "live_ok ?w2" by (rule on_answer_ok [OF ok1 b])
      moreover have "\<not> lv_disposed ?w2" "lv_inflight ?w2 = None"
        using m1 by (simp_all add: on_answer_def split: prod.splits)
      ultimately have "lv_pending (live_drain server n ?w2) = []" by (intro Suc.IH)
      then show ?thesis using True b by (simp add: Let_def)
    qed
  qed
qed simp

text \<open>C8: when deliveries stop and the server answers, the waiting list empties: a mounted search with
  no request under way and \<open>k\<close> waiting ids has none left after the rounds it takes to send them a
  thousand at a time, whatever the answers are.\<close>

theorem live_search_drains:
  assumes "live_reachable w" and "\<not> lv_disposed w" and "lv_inflight w = None"
    and "length (lv_pending w) \<le> 1000 * rounds"
  shows "lv_pending (live_drain server rounds w) = []"
  by (rule live_drain_empty [OF live_reachable_ok [OF assms(1)] assms(2-4)])

theorem live_search_drains_witness:
  "lv_pending (live_drain (\<lambda>_. []) 1 (on_live_batch
     \<lparr>lv_store = initial_store\<lparr>st_liveTraceBatch := [mk_trace ''a'' 1 1 1], st_traces := [mk_trace ''a'' 1 1 1]\<rparr>,
      lv_disposed = False, lv_timer = False, lv_running = False, lv_inflight = None, lv_version = 0,
      lv_retryDelay = 500, lv_pending = []\<rparr>)) = []"
proof -
  let ?st = "initial_store\<lparr>st_liveTraceBatch := [mk_trace ''a'' 1 1 1], st_traces := [mk_trace ''a'' 1 1 1]\<rparr>"
  let ?w = "\<lparr>lv_store = ?st, lv_disposed = False, lv_timer = False, lv_running = False, lv_inflight = None,
      lv_version = 0, lv_retryDelay = 500, lv_pending = []\<rparr>"
  have "trim ''x'' \<noteq> []" by code_simp
  then have "live_mount ''x'' ?st = Some ?w" by (simp add: live_mount_def)
  then have "live_reachable ?w" by (rule live_reachable.mounted)
  then have "live_reachable (on_live_batch ?w)" by (rule live_reachable.step) (auto intro: live_step.deliver)
  then show ?thesis by (rule live_search_drains) (simp_all add: on_live_batch_def add_pending_def)
qed


end
