(* ===== verification/ListPaging.thy ===== *)
theory ListPaging
  imports ListSession
begin

text \<open>
  The pagination of the trace and the log list: \<^verbatim>\<open>hooks/use-signal-list-page.ts\<close> with its
  wrappers \<^verbatim>\<open>hooks/use-trace-list-page.ts\<close> and \<^verbatim>\<open>hooks/use-log-list-page.ts\<close>.
  The server is a parameter: the function from the arguments of a page request to its result. The
  query library runs the page requests of one scope one after the other; a page of a scope is the
  request, the question for older rows, the write to the store and the parameter of the next page.
\<close>

section \<open>Requests\<close>

definition SIGNAL_PAGE_SIZE :: int where "SIGNAL_PAGE_SIZE = 100"

record fetch_args =
  fa_from :: "string option"
  fa_to :: "string option"
  fa_after :: "string option"
  fa_limit :: int
  fa_search :: string

record 'a fetch_result =
  fr_items :: "'a list"
  fr_hasNextPage :: bool
  fr_endCursor :: "string option"

text \<open>\<open>hasItemsBefore\<close> may be absent; its \<open>None\<close> result is a failed request.\<close>

record 'a list_page_options =
  po_window :: event_window
  po_search :: string
  po_fetchPage :: "fetch_args \<Rightarrow> 'a fetch_result"
  po_getCurrentIds :: "store \<Rightarrow> string set"
  po_replacePage :: "'a replacement_page \<Rightarrow> store \<Rightarrow> store"
  po_onAppend :: "'a list \<Rightarrow> store \<Rightarrow> store"
  po_loadOlderBeyondWindow :: bool
  po_hasItemsBefore :: "(string \<Rightarrow> bool option) option"
  po_retainedHistory :: bool
  po_searchWithinWindow :: bool

definition acrossHistory :: "'a list_page_options \<Rightarrow> bool" where
  "acrossHistory opts \<longleftrightarrow>
     po_retainedHistory opts \<or> (trim (po_search opts) \<noteq> [] \<and> \<not> po_searchWithinWindow opts)"

definition requestKey :: "'a list_page_options \<Rightarrow> string" where
  "requestKey opts =
     (if acrossHistory opts then ''retained:'' @ trim (po_search opts)
      else ''window:'' @ eventWindowKey (po_window opts) @ '':search:'' @ trim (po_search opts))"

definition page_bounds ::
    "temporal \<Rightarrow> int \<Rightarrow> 'a list_page_options \<Rightarrow> (string option \<times> string option) option" where
  "page_bounds T now opts =
     (if acrossHistory opts then Some (None, None)
      else map_option (apsnd Some) (eventWindowBounds T now (po_window opts)))"

record page_param =
  pp_after :: "string option"
  pp_initial :: bool

definition initialPageParam :: page_param where
  "initialPageParam = \<lparr>pp_after = None, pp_initial = True\<rparr>"

definition page_request ::
    "'a list_page_options \<Rightarrow> string option \<times> string option \<Rightarrow> page_param \<Rightarrow> fetch_args" where
  "page_request opts bounds param =
     (let beyondWindow = (\<not> pp_initial param \<and> po_loadOlderBeyondWindow opts \<and> fst bounds \<noteq> None)
      in \<lparr>fa_from = (if beyondWindow then None else fst bounds),
          fa_to = (if beyondWindow \<and> pp_after param = None then fst bounds else snd bounds),
          fa_after = pp_after param, fa_limit = SIGNAL_PAGE_SIZE, fa_search = trim (po_search opts)\<rparr>)"

definition page_hasOlder ::
    "'a list_page_options \<Rightarrow> string option \<times> string option \<Rightarrow> page_param \<Rightarrow> 'a fetch_result \<Rightarrow> bool" where
  "page_hasOlder opts bounds param page =
     (case (fst bounds, po_hasItemsBefore opts) of
        (Some f, Some hasItemsBefore) \<Rightarrow>
          if pp_initial param \<and> \<not> fr_hasNextPage page \<and> po_loadOlderBeyondWindow opts
          then (case hasItemsBefore f of None \<Rightarrow> True | Some b \<Rightarrow> b)
          else False
      | _ \<Rightarrow> False)"

definition page_hasMore ::
    "'a list_page_options \<Rightarrow> string option \<times> string option \<Rightarrow> page_param \<Rightarrow> 'a fetch_result \<Rightarrow> bool" where
  "page_hasMore opts bounds param page \<longleftrightarrow> fr_hasNextPage page \<or> page_hasOlder opts bounds param page"

text \<open>The write of a page: a request that was aborted meanwhile writes nothing.\<close>

definition page_publish ::
    "'a list_page_options \<Rightarrow> page_param \<Rightarrow> string set \<Rightarrow> bool \<Rightarrow> 'a fetch_result \<Rightarrow> store \<Rightarrow> store" where
  "page_publish opts param idsBeforeRequest aborted page st =
     (if aborted then st
      else if pp_initial param
      then po_replacePage opts
             \<lparr>pg_items = fr_items page, pg_idsBeforeRequest = idsBeforeRequest, pg_window = po_window opts\<rparr> st
      else po_onAppend opts (fr_items page) st)"

definition getNextPageParam :: "bool \<Rightarrow> 'a fetch_result \<Rightarrow> page_param option" where
  "getNextPageParam hasMore page =
     (if hasMore then Some \<lparr>pp_after = fr_endCursor page, pp_initial = False\<rparr> else None)"

text \<open>Loading pages while there are more, at most \<open>n\<close> of them: the pages and the final store.\<close>

fun load_pages ::
    "'a list_page_options \<Rightarrow> string option \<times> string option \<Rightarrow> nat \<Rightarrow> page_param \<Rightarrow> store \<Rightarrow>
     'a list list \<times> store" where
  "load_pages opts bounds 0 param st = ([], st)"
| "load_pages opts bounds (Suc n) param st =
     (let page = po_fetchPage opts (page_request opts bounds param);
          st' = page_publish opts param (po_getCurrentIds opts st) False page st
      in case getNextPageParam (page_hasMore opts bounds param page) page of
           None \<Rightarrow> ([fr_items page], st')
         | Some param' \<Rightarrow> apfst ((#) (fr_items page)) (load_pages opts bounds n param' st'))"

section \<open>The two lists\<close>

text \<open>The variables of the two page queries; \<open>traceId\<close> is only sent with the log query.\<close>

type_synonym 'a page_server = "fetch_args \<Rightarrow> 'a fetch_result"

definition before_args :: "string \<Rightarrow> fetch_args" where
  "before_args before = \<lparr>fa_from = None, fa_to = Some before, fa_after = None, fa_limit = 1, fa_search = []\<rparr>"

definition hasTracesBefore :: "(fetch_args \<Rightarrow> 'a fetch_result option) \<Rightarrow> string \<Rightarrow> bool option" where
  "hasTracesBefore request before =
     map_option (\<lambda>data. length (fr_items data) > 0) (request (before_args before))"

definition trace_list_options ::
    "(trace \<Rightarrow> trace \<Rightarrow> trace) \<Rightarrow> trace page_server \<Rightarrow> (fetch_args \<Rightarrow> trace fetch_result option) \<Rightarrow>
     event_window \<Rightarrow> string \<Rightarrow> trace list_page_options" where
  "trace_list_options red fetch request window search =
     \<lparr>po_window = window, po_search = search, po_fetchPage = fetch,
      po_getCurrentIds = (\<lambda>st. set (map tr_traceId (st_traces st))),
      po_replacePage = replaceTracePage red,
      po_onAppend = (if trim search \<noteq> [] then appendTraceSearchResults else appendTraces),
      po_loadOlderBeyondWindow = (trim search = []),
      po_hasItemsBefore = Some (hasTracesBefore request),
      po_retainedHistory = False, po_searchWithinWindow = True\<rparr>"

definition log_list_options ::
    "log page_server \<Rightarrow> (fetch_args \<Rightarrow> log fetch_result option) \<Rightarrow> event_window \<Rightarrow> string \<Rightarrow>
     string option \<Rightarrow> log list_page_options" where
  "log_list_options fetch request window search traceId =
     (let byTrace = (traceId \<noteq> None \<and> traceId \<noteq> Some [])
      in \<lparr>po_window = window, po_search = search, po_fetchPage = fetch,
          po_getCurrentIds = (\<lambda>st. set (map lg_id (st_logs st))),
          po_replacePage = replaceLogPage,
          po_onAppend = (if trim search \<noteq> [] \<or> byTrace then appendLogSearchResults else appendLogs),
          po_loadOlderBeyondWindow = (\<not> byTrace \<and> trim search = []),
          po_hasItemsBefore = (if byTrace then None else Some (hasTracesBefore request)),
          po_retainedHistory = (byTrace \<and> trim search = []), po_searchWithinWindow = True\<rparr>)"

section \<open>The server's contract\<close>

text \<open>
  \<open>rows search\<close> are the retained rows that match a search, newest first. A page holds the
  rows of the half-open interval after the cursor's row, up to the limit; the end cursor is the
  one of its last row.
\<close>

definition after_cursor :: "('a \<Rightarrow> string) \<Rightarrow> string option \<Rightarrow> 'a list \<Rightarrow> 'a list" where
  "after_cursor cursor after xs =
     (case after of None \<Rightarrow> xs | Some c \<Rightarrow> tl (dropWhile (\<lambda>x. cursor x \<noteq> c) xs))"

definition in_bounds :: "instant_parser \<Rightarrow> ('a \<Rightarrow> int) \<Rightarrow> string option \<Rightarrow> string option \<Rightarrow> 'a \<Rightarrow> bool" where
  "in_bounds parse time f t x \<longleftrightarrow>
     (case f of None \<Rightarrow> True | Some f \<Rightarrow> the (parse f) \<le> time x) \<and>
     (case t of None \<Rightarrow> True | Some t \<Rightarrow> time x < the (parse t))"

definition server_page ::
    "instant_parser \<Rightarrow> ('a \<Rightarrow> int) \<Rightarrow> ('a \<Rightarrow> string) \<Rightarrow> (string \<Rightarrow> 'a list) \<Rightarrow> 'a page_server" where
  "server_page parse time cursor rows args =
     (let rest = filter (in_bounds parse time (fa_from args) (fa_to args))
            (after_cursor cursor (fa_after args) (rows (fa_search args)));
          items = take (nat (fa_limit args)) rest
      in \<lparr>fr_items = items, fr_hasNextPage = length rest > nat (fa_limit args),
          fr_endCursor = (if items = [] then None else Some (cursor (last items)))\<rparr>)"

definition newest_rows_first :: "('a \<Rightarrow> int) \<Rightarrow> 'a list \<Rightarrow> bool" where
  "newest_rows_first time xs \<longleftrightarrow> sorted_wrt (\<lambda>x y. time y \<le> time x) xs"

text \<open>The rows a session is to list: the window, and everything older where it may go beyond.\<close>

definition session_rows ::
    "instant_parser \<Rightarrow> ('a \<Rightarrow> int) \<Rightarrow> 'a list_page_options \<Rightarrow> string option \<times> string option \<Rightarrow> 'a list \<Rightarrow> 'a list" where
  "session_rows parse time opts bounds xs =
     filter (in_bounds parse time (if po_loadOlderBeyondWindow opts then None else fst bounds) (snd bounds)) xs"

lemma after_cursor_filter:
  assumes "distinct (map cursor xs)" and "m < length (filter P xs)"
  shows "filter P (after_cursor cursor (Some (cursor (filter P xs ! m))) xs) = drop (Suc m) (filter P xs)"
  using assms
proof (induction xs arbitrary: m)
  case (Cons x xs)
  have other: "cursor x \<noteq> cursor y" if "y \<in> set xs" for y using Cons.prems(1) that by auto
  show ?case
  proof (cases "P x \<and> m = 0")
    case True
    then show ?thesis by (simp add: after_cursor_def)
  next
    case False
    let ?j = "if P x then m - 1 else m"
    have j: "?j < length (filter P xs)" "filter P (x # xs) ! m = filter P xs ! ?j"
      using False Cons.prems(2) by (auto simp: nth_Cons' split: if_splits)
    have "filter P xs ! ?j \<in> set xs" using nth_mem [OF j(1)] by simp
    then have "cursor x \<noteq> cursor (filter P xs ! ?j)" by (rule other)
    moreover have "filter P (after_cursor cursor (Some (cursor (filter P xs ! ?j))) xs) = drop (Suc ?j) (filter P xs)"
      using Cons.prems(1) j(1) by (intro Cons.IH) simp_all
    ultimately show ?thesis using False j by (auto simp: after_cursor_def drop_Cons' split: if_splits)
  qed
qed simp

lemma window_prefix:
  assumes "newest_rows_first time xs"
  shows "filter (in_bounds parse time (Some f) t) xs =
    takeWhile (\<lambda>x. the (parse f) \<le> time x) (filter (in_bounds parse time None t) xs)"
  using assms
proof (induction xs)
  case (Cons x xs)
  have "filter (in_bounds parse time (Some f) t) xs = []" if "time x < the (parse f)"
    using Cons.prems that by (auto simp: newest_rows_first_def in_bounds_def filter_empty_conv)
  moreover have "takeWhile (\<lambda>x. the (parse f) \<le> time x) (filter (in_bounds parse time None t) xs) =
      filter (in_bounds parse time (Some f) t) xs"
    using Cons by (simp add: newest_rows_first_def)
  moreover have "in_bounds parse time (Some f) t x \<longleftrightarrow> the (parse f) \<le> time x \<and> in_bounds parse time None t x"
    by (simp add: in_bounds_def)
  ultimately show ?case by (cases "the (parse f) \<le> time x") simp_all
qed simp

lemma older_rows:
  assumes "the (parse f) \<le> the (parse t)" and "filter (in_bounds parse time (Some f) (Some t)) xs = []"
  shows "filter (in_bounds parse time None (Some f)) xs = filter (in_bounds parse time None (Some t)) xs"
  using assms by (intro filter_cong) (auto simp: in_bounds_def filter_empty_conv)

section \<open>Loading every page\<close>

text \<open>From a cursor on, with fixed bounds: the rows behind it.\<close>

lemma load_after_cursor:
  assumes d: "distinct (map cursor (rows (trim (po_search opts))))"
    and s: "po_fetchPage opts = server_page parse time cursor rows"
    and b: "\<And>c. page_request opts bounds \<lparr>pp_after = Some c, pp_initial = False\<rparr> =
      \<lparr>fa_from = f, fa_to = t, fa_after = Some c, fa_limit = 100, fa_search = trim (po_search opts)\<rparr>"
  shows "m < length (filter (in_bounds parse time f t) (rows (trim (po_search opts)))) \<Longrightarrow>
    length (filter (in_bounds parse time f t) (rows (trim (po_search opts)))) - m < n \<Longrightarrow>
    concat (fst (load_pages opts bounds n
      \<lparr>pp_after = Some (cursor (filter (in_bounds parse time f t) (rows (trim (po_search opts))) ! m)),
       pp_initial = False\<rparr> st)) =
    drop (Suc m) (filter (in_bounds parse time f t) (rows (trim (po_search opts))))"
proof (induction n arbitrary: m st)
  case (Suc n)
  let ?R = "filter (in_bounds parse time f t) (rows (trim (po_search opts)))"
  let ?p = "\<lparr>pp_after = Some (cursor (?R ! m)), pp_initial = False\<rparr>"
  let ?page = "po_fetchPage opts (page_request opts bounds ?p)"
  have rest: "filter (in_bounds parse time f t) (after_cursor cursor (Some (cursor (?R ! m))) (rows (trim (po_search opts))))
      = drop (Suc m) ?R"
    using d Suc.prems(1) by (rule after_cursor_filter)
  have items: "fr_items ?page = take 100 (drop (Suc m) ?R)"
    and next': "fr_hasNextPage ?page \<longleftrightarrow> length (drop (Suc m) ?R) > 100"
    and cur: "fr_items ?page \<noteq> [] \<Longrightarrow> fr_endCursor ?page = Some (cursor (last (fr_items ?page)))"
    by (simp_all only: s b server_page_def Let_def fetch_args.simps rest fetch_result.simps)
      (simp_all add: numeral_eq_Suc)
  have older: "page_hasMore opts bounds ?p ?page \<longleftrightarrow> fr_hasNextPage ?page"
    by (simp add: page_hasMore_def page_hasOlder_def split: option.split)
  show ?case
  proof (cases "length (drop (Suc m) ?R) > 100")
    case False
    then show ?thesis using older next' items by (simp add: getNextPageParam_def Let_def)
  next
    case True
    then have ne: "fr_items ?page \<noteq> []" using items by auto
    have "last (fr_items ?page) = ?R ! (m + 100)"
      using True ne by (simp add: items last_conv_nth add.commute)
    then have p': "getNextPageParam (page_hasMore opts bounds ?p ?page) ?page =
        Some \<lparr>pp_after = Some (cursor (?R ! (m + 100))), pp_initial = False\<rparr>"
      using older next' True cur [OF ne] by (simp add: getNextPageParam_def)
    have "concat (fst (load_pages opts bounds n \<lparr>pp_after = Some (cursor (?R ! (m + 100))), pp_initial = False\<rparr> st')) =
        drop (Suc (m + 100)) ?R" for st'
      using True Suc.prems by (intro Suc.IH) auto
    moreover have "take 100 (drop (Suc m) ?R) @ drop (Suc (m + 100)) ?R = drop (Suc m) ?R"
      by (metis add_Suc append_take_drop_id drop_drop add.commute)
    ultimately show ?thesis using p' items by (simp add: Let_def)
  qed
qed simp

lemma prefix_take: "takeWhile P xs = take (length (takeWhile P xs)) xs"
  by (rule takeWhile_eq_take)

text \<open>The first page of a session.\<close>

lemma first_page:
  assumes "po_fetchPage opts = server_page parse time cursor rows"
  shows "let W = filter (in_bounds parse time (fst bounds) (snd bounds)) (rows (trim (po_search opts)));
             page = po_fetchPage opts (page_request opts bounds initialPageParam)
    in fr_items page = take 100 W \<and> (fr_hasNextPage page \<longleftrightarrow> length W > 100) \<and>
       fr_endCursor page = (if W = [] then None else Some (cursor (last (take 100 W))))"
  using assms
  by (simp add: page_request_def initialPageParam_def server_page_def after_cursor_def SIGNAL_PAGE_SIZE_def
      numeral_eq_Suc Let_def)

lemma request_after:
  "page_request opts bounds \<lparr>pp_after = Some c, pp_initial = False\<rparr> =
    \<lparr>fa_from = (if po_loadOlderBeyondWindow opts then None else fst bounds), fa_to = snd bounds, fa_after = Some c,
     fa_limit = 100, fa_search = trim (po_search opts)\<rparr>"
  by (simp add: page_request_def SIGNAL_PAGE_SIZE_def Let_def)

definition older_contract ::
    "instant_parser \<Rightarrow> ('a \<Rightarrow> int) \<Rightarrow> 'a list \<Rightarrow> 'a list_page_options \<Rightarrow> bool" where
  "older_contract parse time xs opts \<longleftrightarrow>
     (po_loadOlderBeyondWindow opts \<longrightarrow>
        (\<exists>h. po_hasItemsBefore opts = Some h \<and>
           (\<forall>before. h before = None \<or> h before = Some (\<exists>x \<in> set xs. time x < the (parse before)))))"

definition bounds_ordered :: "instant_parser \<Rightarrow> string option \<times> string option \<Rightarrow> bool" where
  "bounds_ordered parse bounds \<longleftrightarrow>
     (\<forall>f. fst bounds = Some f \<longrightarrow> (\<exists>t. snd bounds = Some t \<and> the (parse f) \<le> the (parse t)))"

lemma load_session:
  assumes s: "po_fetchPage opts = server_page parse time cursor rows"
    and d: "distinct (map cursor (rows (trim (po_search opts))))"
    and sorted: "newest_rows_first time (rows (trim (po_search opts)))"
    and older: "older_contract parse time (rows (trim (po_search opts))) opts"
    and ord: "bounds_ordered parse bounds"
    and n: "length (rows (trim (po_search opts))) + 1 < n"
  shows "concat (fst (load_pages opts bounds n initialPageParam st)) =
    session_rows parse time opts bounds (rows (trim (po_search opts)))"
proof -
  let ?xs = "rows (trim (po_search opts))"
  let ?W = "filter (in_bounds parse time (fst bounds) (snd bounds)) ?xs"
  define f' where "f' = (if po_loadOlderBeyondWindow opts then None else fst bounds)"
  define R where "R = filter (in_bounds parse time f' (snd bounds)) ?xs"
  have target: "session_rows parse time opts bounds ?xs = R" by (simp add: session_rows_def R_def f'_def)
  have R_len: "length R \<le> length ?xs" by (simp add: R_def)
  have tail: "concat (fst (load_pages opts bounds k \<lparr>pp_after = Some (cursor (R ! m)), pp_initial = False\<rparr> st')) =
      drop (Suc m) R" if "m < length R" "length R - m < k" for m k st'
    using that unfolding R_def
    by (intro load_after_cursor [OF d s]) (simp_all add: request_after f'_def)
  have W: "?W = take (length ?W) R"
  proof (cases "po_loadOlderBeyondWindow opts \<and> fst bounds \<noteq> None")
    case True
    then obtain f where f: "fst bounds = Some f" "f' = None" by (auto simp: f'_def)
    show ?thesis
      unfolding R_def f window_prefix [OF sorted, of parse f "snd bounds"] by (rule prefix_take)
  next
    case False
    then have "f' = fst bounds" by (auto simp: f'_def)
    then show ?thesis by (simp add: R_def)
  qed
  then have W_le: "length ?W \<le> length R" by (metis length_take min.cobounded1)
  have Wn: "?W ! i = R ! i" if "i < length ?W" for i by (subst (1) W) (rule nth_take [OF that])
  obtain k where k: "n = Suc (Suc k)" "length ?xs < Suc k" using n by (cases n; cases "n - 1") auto
  let ?page = "po_fetchPage opts (page_request opts bounds initialPageParam)"
  note page = first_page [OF s, of bounds, unfolded Let_def]
  show ?thesis
  proof (cases "length ?W > 100")
    case True
    then have nx: "getNextPageParam (page_hasMore opts bounds initialPageParam ?page) ?page =
        Some \<lparr>pp_after = Some (cursor (last (take 100 ?W))), pp_initial = False\<rparr>"
      using page by (auto simp: getNextPageParam_def page_hasMore_def)
    have hundred: "take 100 ?W = take 100 R" using True by (subst (1) W) (simp only: take_take min.absorb1 less_imp_le)
    moreover have "last (take 100 R) = R ! 99" using True W_le by (subst last_conv_nth) auto
    ultimately have "last (take 100 ?W) = R ! 99" by (rule ssubst)
    note hundred this
    moreover have "concat (fst (load_pages opts bounds (Suc k)
        \<lparr>pp_after = Some (cursor (R ! 99)), pp_initial = False\<rparr> st')) = drop 100 R" for st'
      using tail [of 99 "Suc k"] True W_le R_len k(2) by simp
    ultimately show ?thesis using nx page by (simp add: k(1) Let_def target del: load_pages.simps(2)) (simp add: Let_def)
  next
    case False
    then have items: "fr_items ?page = ?W" using page by simp
    have nn: "\<not> fr_hasNextPage ?page" using page False by simp
    show ?thesis
    proof (cases "page_hasOlder opts bounds initialPageParam ?page")
      case no: False
      have "R = ?W"
      proof (cases "po_loadOlderBeyondWindow opts \<and> fst bounds \<noteq> None")
        case True
        then obtain f where f: "fst bounds = Some f" by auto
        from older True obtain h where h: "po_hasItemsBefore opts = Some h"
          "h f = None \<or> h f = Some (\<exists>x \<in> set ?xs. time x < the (parse f))"
          unfolding older_contract_def by blast
        with no True f nn have "\<not> (\<exists>x \<in> set ?xs. time x < the (parse f))"
          by (auto simp: page_hasOlder_def initialPageParam_def)
        then show ?thesis using True f by (auto simp: R_def f'_def in_bounds_def intro!: filter_cong)
      next
        case False
        then have "f' = fst bounds" by (auto simp: f'_def)
        then show ?thesis by (simp add: R_def)
      qed
      then show ?thesis using no nn items
        by (simp add: k(1) Let_def target getNextPageParam_def page_hasMore_def)
    next
      case yes: True
      then have nx: "getNextPageParam (page_hasMore opts bounds initialPageParam ?page) ?page =
          Some \<lparr>pp_after = fr_endCursor ?page, pp_initial = False\<rparr>"
        by (simp add: getNextPageParam_def page_hasMore_def)
      from yes obtain f where f: "fst bounds = Some f" "po_loadOlderBeyondWindow opts"
        by (auto simp: page_hasOlder_def split: option.splits if_splits)
      from ord f(1) obtain t where t: "snd bounds = Some t" "the (parse f) \<le> the (parse t)"
        by (auto simp: bounds_ordered_def)
      show ?thesis
      proof (cases "?W = []")
        case False
        have lt: "length ?W - 1 < length ?W" using False by (metis diff_less length_greater_0_conv zero_less_one)
        have "last ?W = R ! (length ?W - 1)" using last_conv_nth [OF False] Wn [OF lt] by (rule trans)
        then have cur: "fr_endCursor ?page = Some (cursor (R ! (length ?W - 1)))"
          using page False \<open>\<not> length ?W > 100\<close> by simp
        have "concat (fst (load_pages opts bounds (Suc k)
            \<lparr>pp_after = Some (cursor (R ! (length ?W - 1))), pp_initial = False\<rparr> st')) = drop (length ?W) R" for st'
          using tail [of "length ?W - 1" "Suc k"] False W_le R_len k(2) by (cases "length ?W") auto
        moreover have "?W @ drop (length ?W) R = R" by (subst (1) W) (rule append_take_drop_id)
        ultimately show ?thesis using nx items cur
          by (simp add: k(1) target del: load_pages.simps(2)) (simp add: Let_def)
      next
        case True
        let ?p = "\<lparr>pp_after = None, pp_initial = False\<rparr>"
        let ?page2 = "po_fetchPage opts (page_request opts bounds ?p)"
        have cur: "fr_endCursor ?page = None" using page True by simp
        have "filter (in_bounds parse time None (Some f)) ?xs = R"
          using older_rows [OF t(2)] True f t by (simp add: R_def f'_def)
        then have p2: "fr_items ?page2 = take 100 R" "fr_hasNextPage ?page2 \<longleftrightarrow> length R > 100"
          "R \<noteq> [] \<Longrightarrow> fr_endCursor ?page2 = Some (cursor (last (take 100 R)))"
          using f by (simp_all add: s page_request_def server_page_def after_cursor_def SIGNAL_PAGE_SIZE_def
              numeral_eq_Suc Let_def)
        have no: "\<not> page_hasOlder opts bounds ?p ?page2"
          by (simp add: page_hasOlder_def split: option.split)
        have "concat (fst (load_pages opts bounds (Suc k) ?p st')) = R" for st'
        proof (cases "length R > 100")
          case True
          then have "last (take 100 R) = R ! 99" by (subst last_conv_nth) auto
          moreover have "R \<noteq> []" using True by auto
          ultimately have nx2: "getNextPageParam (page_hasMore opts bounds ?p ?page2) ?page2 =
              Some \<lparr>pp_after = Some (cursor (R ! 99)), pp_initial = False\<rparr>"
            using p2 True by (simp add: getNextPageParam_def page_hasMore_def)
          have "concat (fst (load_pages opts bounds k \<lparr>pp_after = Some (cursor (R ! 99)), pp_initial = False\<rparr> st2)) =
              drop 100 R" for st2
            using tail [of 99 k] True R_len k(2) by simp
          then show ?thesis using nx2 p2(1) by (simp add: Let_def)
        next
          case False
          then show ?thesis using p2 no by (simp add: getNextPageParam_def page_hasMore_def Let_def)
        qed
        then show ?thesis using nx items cur True
          by (simp add: k(1) target del: load_pages.simps(2)) (simp add: Let_def)
      qed
    qed
  qed
qed

section \<open>Properties\<close>

text \<open>C4: loading pages until there are no more lists every row of the session exactly once, newest
  first: the rows of the window, and behind them all older retained rows where the session may go
  beyond its window, with no gap and no repetition where the bounds change, also when the window
  itself is empty or the question for older rows fails.\<close>

theorem paging_complete:
  assumes "po_fetchPage opts = server_page parse time cursor rows"
    and "distinct (map cursor (rows (trim (po_search opts))))"
    and "newest_rows_first time (rows (trim (po_search opts)))"
    and "older_contract parse time (rows (trim (po_search opts))) opts"
    and "bounds_ordered parse bounds"
    and "length (rows (trim (po_search opts))) + 1 < pages"
  shows "concat (fst (load_pages opts bounds pages initialPageParam st)) =
    session_rows parse time opts bounds (rows (trim (po_search opts)))"
  by (rule load_session [OF assms])

text \<open>A server with three rows and a session whose window holds none of them.\<close>

definition sample_session :: "nat list_page_options" where
  "sample_session =
     \<lparr>po_window = Live R1h, po_search = [],
      po_fetchPage = server_page (\<lambda>s. Some (int_of_text s)) int nat_text (\<lambda>_. [5, 3, 1]),
      po_getCurrentIds = (\<lambda>_. {}), po_replacePage = (\<lambda>_ st. st), po_onAppend = (\<lambda>_ st. st),
      po_loadOlderBeyondWindow = True,
      po_hasItemsBefore = Some (\<lambda>b. Some (\<exists>x \<in> set [5, 3, 1]. int x < int_of_text b)),
      po_retainedHistory = False, po_searchWithinWindow = True\<rparr>"

theorem paging_complete_witness:
  "concat (fst (load_pages sample_session (Some ''7'', Some ''9'') 5 initialPageParam initial_store)) = [5, 3, 1]"
proof -
  have n: "int_of_text ''7'' = 7" "int_of_text ''9'' = 9" by code_simp+
  have "concat (fst (load_pages sample_session (Some ''7'', Some ''9'') 5 initialPageParam initial_store)) =
      session_rows (\<lambda>s. Some (int_of_text s)) int sample_session (Some ''7'', Some ''9'')
        ((\<lambda>_. [5, 3, 1]) (trim (po_search sample_session)))"
    by (rule paging_complete [where cursor = nat_text])
      (simp_all add: sample_session_def newest_rows_first_def older_contract_def bounds_ordered_def n)
  also have "\<dots> = [5, 3, 1]" by (simp add: session_rows_def sample_session_def in_bounds_def n)
  finally show ?thesis .
qed

end
