(* ===== verification/SeriesColors.thy ===== *)
theory SeriesColors
  imports MetricCatalog "HOL-Library.Word"
begin

text \<open>
  The colour assignment of \<^verbatim>\<open>lib/metric-series-colors.ts\<close>: a 32-bit FNV-1a hash of the
  series identity picks a slot of the palette, and the visible set is resolved together with linear
  probing over the sorted identities.
\<close>

section \<open>Definitions\<close>

definition SERIES_COLORS :: "string list" where
  "SERIES_COLORS =
     [''var(--chart-1)'', ''var(--chart-2)'', ''var(--chart-3)'', ''var(--chart-4)'',
      ''var(--chart-5)'', ''var(--chart-6)'', ''var(--chart-7)'', ''var(--chart-8)'']"

text \<open>
  The hash on 32-bit words: \<open>^=\<close> works on the low 32 bits, \<open>Math.imul\<close> multiplies
  modulo \<open>2\<^sup>3\<^sup>2\<close>, and \<open>>>> 0\<close> reads the word as unsigned.
\<close>

definition fnv_step :: "32 word \<Rightarrow> char \<Rightarrow> 32 word" where
  "fnv_step hash c = (xor hash (word_of_nat (char_code c))) * 0x01000193"

definition seriesColorIndex :: "string \<Rightarrow> nat" where
  "seriesColorIndex identity =
     (if identity = [] then 0
      else unat (foldl fnv_step (0x811c9dc5 :: 32 word) identity) mod length SERIES_COLORS)"

text \<open>The inner loop: at most \<open>attempts\<close> steps to a slot that is free.\<close>

fun probe :: "nat \<Rightarrow> nat set \<Rightarrow> nat \<Rightarrow> nat" where
  "probe 0 used colorIndex = colorIndex"
| "probe (Suc attempts) used colorIndex =
     (if colorIndex \<notin> used then colorIndex
      else probe attempts used ((colorIndex + 1) mod length SERIES_COLORS))"

definition assign_color :: "nat set \<times> (string \<times> nat) list \<Rightarrow> string \<Rightarrow> nat set \<times> (string \<times> nat) list" where
  "assign_color acc identity =
     (case acc of (used, indexByIdentity) \<Rightarrow>
        let preferred = seriesColorIndex identity;
            colorIndex = probe (length SERIES_COLORS) used preferred
        in (insert colorIndex used, AList.update identity colorIndex indexByIdentity))"

definition seriesColorIndexes :: "string list \<Rightarrow> nat list" where
  "seriesColorIndexes identities =
     (let uniqueIdentities = sort (uniq identities);
          indexByIdentity = snd (foldl assign_color ({}, []) uniqueIdentities)
      in map (\<lambda>identity. the (map_of indexByIdentity identity)) identities)"

definition json_strings :: "string list \<Rightarrow> string" where
  "json_strings ws = ''['' @ join '','' (map json_quote ws) @ '']''"

definition facetGroupColorIdentity :: "metric_facet \<Rightarrow> string list \<Rightarrow> string" where
  "facetGroupColorIdentity f groupValues =
     (let normalizedValues = map (\<lambda>value. if value = [] then ''(unset)'' else value) groupValues
      in ''['' @ json_strings (fc_attributes f) @ '','' @ json_strings normalizedValues @ '']'')"

definition facetGroupColorIndexes :: "metric_facet \<Rightarrow> string list list \<Rightarrow> nat list" where
  "facetGroupColorIndexes f groups = seriesColorIndexes (map (facetGroupColorIdentity f) groups)"

section \<open>Probing\<close>

lemma length_SERIES_COLORS [simp]: "length SERIES_COLORS = 8"
  by (simp add: SERIES_COLORS_def)

lemma seriesColorIndex_less: "seriesColorIndex s < 8"
  by (simp add: seriesColorIndex_def)

lemma probe_less: "c < 8 \<Longrightarrow> probe n used c < 8"
  by (induction n used c rule: probe.induct) simp_all

text \<open>The slot \<open>k\<close> steps ahead is reached when the ones before it are taken.\<close>

lemma probe_finds:
  "c < 8 \<Longrightarrow> k < n \<Longrightarrow> (c + k) mod 8 \<notin> used \<Longrightarrow> probe n used c \<notin> used"
proof (induction n used c arbitrary: k rule: probe.induct)
  case (2 n used c)
  show ?case
  proof (cases "c \<in> used")
    case True
    then have "k \<noteq> 0" using "2.prems" by (cases k) auto
    then obtain j where j: "k = Suc j" by (cases k) auto
    have "((c + 1) mod 8 + j) mod 8 \<notin> used" using "2.prems"(3) j by (simp add: mod_add_left_eq)
    with True j "2.prems" "2.IH" [of j] show ?thesis by simp
  qed simp
qed simp

lemma probe_free:
  assumes "c < 8" and "used \<subseteq> {..<8}" and "card used < 8"
  shows "probe 8 used c \<notin> used"
proof -
  have "\<exists>x < 8. x \<notin> used"
  proof (rule ccontr)
    assume "\<not> (\<exists>x < 8. x \<notin> used)"
    then have "{..<8} \<subseteq> used" by auto
    then have "card {..<8::nat} \<le> card used" using assms(2) by (intro card_mono finite_subset [OF assms(2)]) auto
    with assms(3) show False by simp
  qed
  then obtain x where x: "x < 8" "x \<notin> used" by blast
  let ?k = "(x + 8 - c) mod 8"
  have "(c + ?k) mod 8 = (c + (x + 8 - c)) mod 8" by (simp add: mod_add_right_eq)
  also have "\<dots> = x" using x(1) assms(1) by simp
  finally show ?thesis using probe_finds [of c ?k 8 used] assms(1) x(2) by simp
qed

definition colors_ok :: "string list \<Rightarrow> nat set \<times> (string \<times> nat) list \<Rightarrow> bool" where
  "colors_ok ids acc \<longleftrightarrow>
     fst acc = snd ` set (snd acc) \<and> fst acc \<subseteq> {..<8} \<and> dom (map_of (snd acc)) = set ids \<and>
     distinct (map fst (snd acc)) \<and> (length ids \<le> 8 \<longrightarrow> distinct (map snd (snd acc)) \<and> card (fst acc) = length ids)"

lemma colors_ok_step:
  assumes ok: "colors_ok ids acc" and new: "identity \<notin> set ids"
  shows "colors_ok (ids @ [identity]) (assign_color acc identity)"
proof -
  obtain used m where acc: "acc = (used, m)" by (cases acc)
  let ?c = "probe 8 used (seriesColorIndex identity)"
  have less: "?c < 8" by (rule probe_less [OF seriesColorIndex_less])
  have fresh: "identity \<notin> fst ` set m"
    using ok new by (auto simp: colors_ok_def acc dom_map_of_conv_image_fst)
  then have upd: "AList.update identity ?c m = m @ [(identity, ?c)]"
    by (induction m) auto
  have fin: "finite used" using ok by (auto simp: colors_ok_def acc intro: finite_subset)
  have free: "?c \<notin> used" if "length ids < 8"
    using ok that by (intro probe_free seriesColorIndex_less) (auto simp: colors_ok_def acc)
  have step: "assign_color acc identity = (insert ?c used, m @ [(identity, ?c)])"
    using upd by (simp add: acc assign_color_def Let_def)
  have old: "used = snd ` set m" "used \<subseteq> {..<8}" "fst ` set m = set ids" "distinct (map fst m)"
      "length ids \<le> 8 \<Longrightarrow> distinct (map snd m) \<and> card used = length ids"
    using ok by (auto simp: colors_ok_def acc dom_map_of_conv_image_fst)
  have "distinct (map snd (m @ [(identity, ?c)])) \<and> card (insert ?c used) = length (ids @ [identity])"
    if "length (ids @ [identity]) \<le> 8"
    using that old(1,5) free fin by simp
  moreover have "insert ?c used = snd ` set (m @ [(identity, ?c)])" using old(1) by simp
  moreover have "dom (map_of (m @ [(identity, ?c)])) = set (ids @ [identity])"
    using old(3) by (simp add: dom_map_of_conv_image_fst Un_commute)
  moreover have "insert ?c used \<subseteq> {..<8}" using old(2) less by simp
  moreover have "distinct (map fst (m @ [(identity, ?c)]))" using old(4) fresh by simp
  ultimately show ?thesis unfolding colors_ok_def step fst_conv snd_conv by blast
qed

lemma colors_ok_foldl:
  "colors_ok ids acc \<Longrightarrow> distinct (ids @ xs) \<Longrightarrow> colors_ok (ids @ xs) (foldl assign_color acc xs)"
proof (induction xs arbitrary: ids acc)
  case (Cons x xs)
  have "colors_ok (ids @ [x]) (assign_color acc x)" using Cons.prems by (intro colors_ok_step) auto
  from Cons.IH [OF this] Cons.prems(2) show ?case by simp
qed simp

definition color_of :: "string set \<Rightarrow> string \<Rightarrow> nat" where
  "color_of S i = the (map_of (snd (foldl assign_color ({}, []) (sorted_list_of_set S))) i)"

lemma seriesColorIndexes_color_of: "seriesColorIndexes ids = map (color_of (set ids)) ids"
proof -
  have "sort (uniq ids) = sorted_list_of_set (set (uniq ids))"
    by (rule sorted_list_of_set_sort_remdups [of "uniq ids", symmetric, simplified distinct_remdups_id [OF distinct_uniq]])
  then show ?thesis by (simp add: seriesColorIndexes_def color_of_def)
qed

lemma color_of_props:
  assumes "finite S"
  shows "i \<in> S \<Longrightarrow> color_of S i < 8"
    and "card S \<le> 8 \<Longrightarrow> inj_on (color_of S) S"
proof -
  let ?acc = "foldl assign_color ({}, []) (sorted_list_of_set S)"
  have "colors_ok [] ({}, [])" by (simp add: colors_ok_def)
  from colors_ok_foldl [OF this, of "sorted_list_of_set S"]
  have ok: "colors_ok (sorted_list_of_set S) ?acc" by simp
  have some: "\<exists>c. map_of (snd ?acc) i = Some c \<and> (i, c) \<in> set (snd ?acc)" if "i \<in> S" for i
    using ok that assms by (force simp: colors_ok_def dest: map_of_SomeD)
  show "i \<in> S \<Longrightarrow> color_of S i < 8"
    using some [of i] ok by (force simp: colors_ok_def color_of_def)
  assume "card S \<le> 8"
  then have d: "distinct (map snd (snd ?acc))" using ok assms by (simp add: colors_ok_def)
  show "inj_on (color_of S) S"
  proof (rule inj_onI)
    fix x y assume "x \<in> S" "y \<in> S" "color_of S x = color_of S y"
    moreover obtain a where "map_of (snd ?acc) x = Some a" "(x, a) \<in> set (snd ?acc)"
      using some [OF \<open>x \<in> S\<close>] by blast
    moreover obtain b where "map_of (snd ?acc) y = Some b" "(y, b) \<in> set (snd ?acc)"
      using some [OF \<open>y \<in> S\<close>] by blast
    ultimately have "(x, a) \<in> set (snd ?acc)" "(y, a) \<in> set (snd ?acc)" by (simp_all add: color_of_def)
    moreover have "inj_on snd (set (snd ?acc))" using d by (simp only: distinct_map)
    ultimately show "x = y" using inj_onD [of snd "set (snd ?acc)" "(x, a)" "(y, a)"] by simp
  qed
qed

section \<open>Properties\<close>

text \<open>The colour of a series depends only on its identity and on which other identities are
  visible, not on their order or number of occurrences; it is a slot of the palette; and as long
  as at most eight identities are visible, two series have one colour only if they are the same.\<close>

theorem series_colors_stable:
  assumes "set xs = set ys" and "i < length xs" and "j < length ys"
  shows "seriesColorIndexes xs ! i < length SERIES_COLORS \<and>
    (xs ! i = ys ! j \<longrightarrow> seriesColorIndexes xs ! i = seriesColorIndexes ys ! j) \<and>
    (card (set xs) \<le> 8 \<and> xs ! i \<noteq> ys ! j \<longrightarrow> seriesColorIndexes xs ! i \<noteq> seriesColorIndexes ys ! j)"
proof -
  have m: "xs ! i \<in> set xs" "ys ! j \<in> set xs"
    using nth_mem [OF assms(2)] nth_mem [OF assms(3)] unfolding assms(1) by simp_all
  have c: "seriesColorIndexes xs ! i = color_of (set xs) (xs ! i)"
      "seriesColorIndexes ys ! j = color_of (set xs) (ys ! j)"
    using assms(2,3) unfolding seriesColorIndexes_color_of assms(1) by simp_all
  have "color_of (set xs) (xs ! i) < 8" using m(1) by (rule color_of_props(1) [rotated]) simp
  moreover have "color_of (set xs) (xs ! i) \<noteq> color_of (set xs) (ys ! j)"
    if "card (set xs) \<le> 8" "xs ! i \<noteq> ys ! j"
    using inj_onD [OF color_of_props(2) [OF _ that(1)]] that(2) m by blast
  ultimately show ?thesis unfolding c by simp
qed

theorem series_colors_stable_witness:
  "seriesColorIndexes [''a'', ''b''] ! 0 = seriesColorIndexes [''b'', ''a'', ''b''] ! 1"
  using series_colors_stable [of "[''a'', ''b'']" "[''b'', ''a'', ''b'']" 0 1]
  by (simp add: insert_commute)

lemma json_quote_head: "json_quote s = CHR 0x22 # tl (json_quote s)"
  by (simp add: json_quote_def)

lemma json_list_prefix:
  "join '','' (map json_quote xs) @ '']'' @ r = join '','' (map json_quote ys) @ '']'' @ q \<Longrightarrow> xs = ys \<and> r = q"
proof (induction xs arbitrary: ys)
  case Nil
  show ?case
  proof (cases ys)
    case (Cons y ys')
    then have "hd (join '','' (map json_quote ys) @ '']'' @ q) = CHR 0x22"
      by (cases ys') (simp_all add: json_quote_def)
    moreover have "hd (join '','' (map json_quote []) @ '']'' @ r) = CHR '']''" by simp
    ultimately have "CHR '']'' = CHR 0x22" using arg_cong [OF Nil.prems, of hd] by (simp only:)
    then show ?thesis by simp
  qed (use Nil in simp)
next
  case (Cons x xs)
  note IH = Cons.IH
  show ?case
  proof (cases ys)
    case Nil
    have "hd (join '','' (map json_quote (x # xs)) @ '']'' @ r) = CHR 0x22"
      by (cases xs) (simp_all add: json_quote_def)
    with Cons.prems Nil show ?thesis by simp
  next
    case (Cons y ys')
    obtain u where u: "join '','' (map json_quote (x # xs)) @ '']'' @ r = json_quote x @ u"
        "u = (if xs = [] then '']'' @ r else '','' @ join '','' (map json_quote xs) @ '']'' @ r)"
      by (cases xs) auto
    obtain v where v: "join '','' (map json_quote ys) @ '']'' @ q = json_quote y @ v"
        "v = (if ys' = [] then '']'' @ q else '','' @ join '','' (map json_quote ys') @ '']'' @ q)"
      using Cons by (cases ys') auto
    have "json_quote x @ u = json_quote y @ v" using Cons.prems u(1) v(1) by simp
    then have "x = y" "u = v" by (simp_all add: json_string.enc_append_inj)
    then show ?thesis
      using u(2) v(2) IH [of ys'] Cons by (cases "xs = []"; cases "ys' = []") simp_all
  qed
qed

lemma json_strings_prefix: "json_strings xs @ r = json_strings ys @ q \<longleftrightarrow> xs = ys \<and> r = q"
  using json_list_prefix [of xs r ys q] by (auto simp: json_strings_def)

text \<open>Two groups of one or of two facets get one colour identity exactly when the facets have the
  same attributes and the groups the same values, an empty value being the same as the text shown
  for it; values that merely print alike when joined are kept apart.\<close>

theorem facet_identity_exact:
  "facetGroupColorIdentity f vs = facetGroupColorIdentity g ws \<longleftrightarrow>
     fc_attributes f = fc_attributes g \<and>
     map (\<lambda>v. if v = [] then ''(unset)'' else v) vs = map (\<lambda>v. if v = [] then ''(unset)'' else v) ws"
  using json_strings_prefix [where r = "'']''" and q = "'']''"]
  by (simp add: facetGroupColorIdentity_def Let_def json_strings_prefix)

end
