(* ===== verification/MetricSeries.thy ===== *)
theory MetricSeries
  imports SeriesColors TimeWindow
begin

text \<open>
  The series of the metric charts and the summary tiles: \<^verbatim>\<open>lib/metric-stats.ts\<close>,
  \<^verbatim>\<open>lib/metric-chart-series.ts\<close> and the pure parts of
  \<^verbatim>\<open>hooks/use-metric-aggregate-series.ts\<close>. A \<open>Date\<close> is its number of milliseconds;
  the parser of the \<open>Date\<close> constructor is the parameter \<open>date_ms\<close>. The loops that fill
  a \<open>Map\<close> are \<open>group_into\<close>.
\<close>

section \<open>Attributes as text\<close>

definition attrKey :: "(string \<Rightarrow> string \<Rightarrow> int) \<Rightarrow> (number \<Rightarrow> string) \<Rightarrow> attrs \<Rightarrow> string" where
  "attrKey lc num_text attrs =
     (let entries = sort_by (\<lambda>a b. lc (fst a) (fst b)) attrs
      in if length entries = 0 then []
         else join '', '' (map (\<lambda>(k, v). k @ ''='' @ json_text num_text v) entries))"

fun formatAttrValue :: "(number \<Rightarrow> string) \<Rightarrow> json option \<Rightarrow> string" where
  "formatAttrValue num_text None = ''(unset)''"
| "formatAttrValue num_text (Some JNull) = ''(unset)''"
| "formatAttrValue num_text (Some (JStr s)) = s"
| "formatAttrValue num_text (Some (JNum n)) = num_text n"
| "formatAttrValue num_text (Some (JBool b)) = (if b then ''true'' else ''false'')"
| "formatAttrValue num_text (Some v) = json_text num_text v"

definition facetSeriesKey ::
    "(string \<Rightarrow> string \<Rightarrow> int) \<Rightarrow> (number \<Rightarrow> string) \<Rightarrow> attrs \<Rightarrow> metric_facet option \<Rightarrow> string" where
  "facetSeriesKey lc num_text attrs f =
     (case f of
        Some f \<Rightarrow> join '' '' (map (\<lambda>a. formatAttrValue num_text (map_of attrs a)) (fc_attributes f))
      | None \<Rightarrow> attrKey lc num_text attrs)"

definition facetGroupLabel :: "string list \<Rightarrow> string" where
  "facetGroupLabel groupValues = join '' '' (map (\<lambda>v. if v = [] then ''(unset)'' else v) groupValues)"

section \<open>Aggregated series\<close>

record agg_point =
  ap_timestamp :: string
  ap_value :: number
  ap_count :: "number option"
  ap_sum :: "number option"
  ap_min :: "number option"
  ap_max :: "number option"

record agg_series =
  ag_groupValues :: "string list"
  ag_points :: "agg_point list"

definition label_or :: "string \<Rightarrow> string" where
  "label_or s = (if s = [] then ''(no attributes)'' else s)"

definition resolveFacetGroupColorIndex :: "agg_series list \<Rightarrow> metric_facet \<Rightarrow> (string \<times> nat) list" where
  "resolveFacetGroupColorIndex aggregatedSeries f =
     (let colorIndexes = facetGroupColorIndexes f (map ag_groupValues aggregatedSeries)
      in map (\<lambda>(s, index). (label_or (facetGroupLabel (ag_groupValues s)), colorIndexes ! index))
           (zip aggregatedSeries [0..<length aggregatedSeries]))"

section \<open>Stat tiles\<close>

record stat_tile =
  sl_key :: string
  sl_label :: string
  sl_colorIndex :: nat
  sl_value :: "number option"
  sl_count :: "number option"

record stat_point =
  stp_timestamp :: string
  stp_epochNs :: int
  stp_seriesKey :: string
  stp_value :: number
  stp_count :: "number option"

record stat_group =
  sg_key :: string
  sg_label :: string
  sg_colorIndex :: nat
  sg_points :: "stat_point list"

datatype stat_tile_mode = Increase | Latest | LatestSumSeries

definition hasIncreaseStatTileSignal :: "point list \<Rightarrow> bool" where
  "hasIncreaseStatTileSignal dataPoints =
     list_ex (\<lambda>dp. dp_cumulative dp \<noteq> None \<or> dp_countCumulative dp \<noteq> None \<or> dp_sumCumulative dp \<noteq> None)
       dataPoints"

text \<open>A later point replaces the one kept only when it is strictly newer.\<close>

definition newer :: "stat_point option \<Rightarrow> stat_point \<Rightarrow> stat_point option" where
  "newer latest p =
     (case latest of
        None \<Rightarrow> Some p
      | Some l \<Rightarrow> if stp_epochNs p > stp_epochNs l then Some p else Some l)"

definition latestPoint :: "stat_point list \<Rightarrow> stat_point option" where
  "latestPoint points = foldl newer None points"

text \<open>\<open>value = (value ?? 0) + x\<close>\<close>

definition sum_opt :: "number option \<Rightarrow> number \<Rightarrow> number option" where
  "sum_opt v x = Some (num_add (case v of None \<Rightarrow> 0 | Some y \<Rightarrow> y) x)"

definition latestBySeries :: "stat_point list \<Rightarrow> (string \<times> stat_point option) list" where
  "latestBySeries points = group_into stp_seriesKey (\<lambda>_. None) newer points"

definition combineStatTileGroups :: "stat_group list \<Rightarrow> stat_tile_mode \<Rightarrow> bool \<Rightarrow> stat_tile list" where
  "combineStatTileGroups groups mode includeLatestCount =
     map (\<lambda>g.
       case mode of
         LatestSumSeries \<Rightarrow>
           \<lparr>sl_key = sg_key g, sl_label = sg_label g, sl_colorIndex = sg_colorIndex g,
            sl_value = foldl (\<lambda>v e. sum_opt v (stp_value (the (snd e)))) None (latestBySeries (sg_points g)),
            sl_count = None\<rparr>
       | Latest \<Rightarrow>
           let latest = latestPoint (sg_points g)
           in \<lparr>sl_key = sg_key g, sl_label = sg_label g, sl_colorIndex = sg_colorIndex g,
               sl_value = map_option stp_value latest,
               sl_count = (if includeLatestCount then Option.bind latest stp_count else None)\<rparr>
       | Increase \<Rightarrow>
           \<lparr>sl_key = sg_key g, sl_label = sg_label g, sl_colorIndex = sg_colorIndex g,
            sl_value = foldl (\<lambda>v p. sum_opt v (stp_value p)) None (sg_points g),
            sl_count = None\<rparr>) groups"

text \<open>A timestamp that does not parse throws.\<close>

definition statTileGroupsFromAggregate ::
    "instant_parser \<Rightarrow> agg_series list \<Rightarrow> metric_facet \<Rightarrow> event_window \<Rightarrow> stat_group list option" where
  "statTileGroupsFromAggregate parse aggregatedSeries f window =
     map_opt (\<lambda>(s, label, colorIndex).
       case map_opt (\<lambda>p. map_option (\<lambda>e. (p, e)) (parse (ap_timestamp p))) (ag_points s) of
         None \<Rightarrow> None
       | Some withEpoch \<Rightarrow>
           let windowed =
                 (case window of
                    Live r \<Rightarrow> filterDataPointsInRange snd withEpoch r
                  | Fixed _ _ \<Rightarrow> withEpoch)
           in Some \<lparr>sg_key = label, sg_label = label, sg_colorIndex = colorIndex,
                    sg_points = map (\<lambda>(p, e). \<lparr>stp_timestamp = ap_timestamp p, stp_epochNs = e,
                       stp_seriesKey = label, stp_value = ap_value p, stp_count = ap_count p\<rparr>) windowed\<rparr>)
       (zip aggregatedSeries (resolveFacetGroupColorIndex aggregatedSeries f))"

definition stat_point_of :: "point \<Rightarrow> stat_point" where
  "stat_point_of dp =
     \<lparr>stp_timestamp = dp_timestamp dp, stp_epochNs = dp_epochNs dp, stp_seriesKey = dp_seriesKey dp,
      stp_value = dp_value dp, stp_count = dp_count dp\<rparr>"

definition windowed_points :: "point list \<Rightarrow> event_window \<Rightarrow> point list" where
  "windowed_points pts window =
     (case window of Live r \<Rightarrow> filterDataPointsInRange dp_epochNs pts r | Fixed _ _ \<Rightarrow> pts)"

text \<open>A group with the values of its first point, kept in the second map of the source.\<close>

definition raw_groups ::
    "(string \<Rightarrow> string \<Rightarrow> int) \<Rightarrow> (number \<Rightarrow> string) \<Rightarrow> metric_facet option \<Rightarrow> point list \<Rightarrow>
     (string \<times> point list) list" where
  "raw_groups lc num_text f windowed =
     group_into (\<lambda>dp. facetSeriesKey lc num_text (dp_attributes dp) f) (\<lambda>_. []) (\<lambda>ps p. ps @ [p]) windowed"

definition statTileGroupsFromRawPoints ::
    "(string \<Rightarrow> string \<Rightarrow> int) \<Rightarrow> (number \<Rightarrow> string) \<Rightarrow> point list \<Rightarrow> metric_facet option \<Rightarrow> event_window \<Rightarrow>
     stat_group list" where
  "statTileGroupsFromRawPoints lc num_text rangeDataPoints f window =
     (let groups = raw_groups lc num_text f (windowed_points rangeDataPoints window);
          colorIndexes =
            (case f of
               Some f \<Rightarrow> facetGroupColorIndexes f
                 (map (\<lambda>(k, ps). map (\<lambda>a. formatAttrValue num_text (map_of (dp_attributes (hd ps)) a))
                                     (fc_attributes f)) groups)
             | None \<Rightarrow> seriesColorIndexes (map fst groups))
      in map (\<lambda>((key, ps), index).
             \<lparr>sg_key = key, sg_label = label_or key, sg_colorIndex = colorIndexes ! index,
              sg_points = map stat_point_of ps\<rparr>)
           (zip groups [0..<length groups]))"

datatype stat_tiles_input =
    AggregateTiles "agg_series list" metric_facet event_window stat_tile_mode bool
  | RawTiles "point list" "metric_facet option" event_window stat_tile_mode bool

fun computeStatTiles ::
    "instant_parser \<Rightarrow> (string \<Rightarrow> string \<Rightarrow> int) \<Rightarrow> (number \<Rightarrow> string) \<Rightarrow> stat_tiles_input \<Rightarrow>
     stat_tile list option" where
  "computeStatTiles parse lc num_text (AggregateTiles series f window mode c) =
     map_option (\<lambda>groups. combineStatTileGroups groups mode c)
       (statTileGroupsFromAggregate parse series f window)"
| "computeStatTiles parse lc num_text (RawTiles pts f window mode c) =
     Some (combineStatTileGroups (statTileGroupsFromRawPoints lc num_text pts f window) mode c)"

section \<open>Chart series\<close>

record chart_point =
  cp_time :: int
  cp_value :: number

record metric_series =
  ms_key :: string
  ms_label :: string
  ms_color :: string
  ms_points :: "chart_point list"

definition bucketSecondsForRawMetricPoints :: "temporal \<Rightarrow> point list \<Rightarrow> event_window \<Rightarrow> int option" where
  "bucketSecondsForRawMetricPoints T pts window =
     map_option (\<lambda>b. case b of Some s \<Rightarrow> s | None \<Rightarrow> bucketSecondsForDataExtent (map dp_epochNs pts))
       (bucketSecondsForEventWindow T window)"

record bucket =
  bk_valueSum :: number
  bk_sampleCount :: int
  bk_distributionCount :: number
  bk_distributionSum :: number

definition empty_bucket :: bucket where
  "empty_bucket =
     \<lparr>bk_valueSum = 0, bk_sampleCount = 0, bk_distributionCount = 0, bk_distributionSum = 0\<rparr>"

definition bucketStart :: "int \<Rightarrow> int \<Rightarrow> int" where
  "bucketStart epochNs widthNs =
     (let quotient = big_div epochNs widthNs
      in if epochNs < 0 \<and> big_mod epochNs widthNs \<noteq> 0 then (quotient - 1) * widthNs
         else quotient * widthNs)"

definition add_to_bucket :: "bucket \<Rightarrow> point \<Rightarrow> bucket" where
  "add_to_bucket b p =
     (let b1 = b\<lparr>bk_valueSum := num_add (bk_valueSum b) (dp_value p),
                 bk_sampleCount := bk_sampleCount b + 1\<rparr>
      in case (dp_count p, dp_sum p) of
           (Some c, Some s) \<Rightarrow>
             b1\<lparr>bk_distributionCount := num_add (bk_distributionCount b1) c,
                bk_distributionSum := num_add (bk_distributionSum b1) s\<rparr>
         | _ \<Rightarrow> b1)"

definition num_sum :: "number list \<Rightarrow> number" where
  "num_sum xs = foldl num_add 0 xs"

definition bucket_value :: "string \<Rightarrow> bucket list \<Rightarrow> number" where
  "bucket_value metricType contributors =
     (if metricType = ''Gauge''
      then num_sum (map (\<lambda>b. num_div (bk_valueSum b) (of_int (bk_sampleCount b))) contributors)
      else
        let distributionCount = num_sum (map bk_distributionCount contributors)
        in if distributionCount > 0
           then num_div (num_sum (map bk_distributionSum contributors)) distributionCount
           else num_sum (map bk_valueSum contributors))"

definition fill_buckets :: "int \<Rightarrow> point list \<Rightarrow> (int \<times> (string \<times> bucket) list) list" where
  "fill_buckets widthNs pts =
     group_into (\<lambda>p. bucketStart (dp_epochNs p) widthNs) (\<lambda>_. [])
       (\<lambda>series p.
          AList.update (dp_seriesKey p)
            (add_to_bucket
              (case map_of series (dp_seriesKey p) of None \<Rightarrow> empty_bucket | Some b \<Rightarrow> b) p) series)
       pts"

definition fixed_from_ms :: "(string \<Rightarrow> int) \<Rightarrow> event_window \<Rightarrow> int option" where
  "fixed_from_ms date_ms window =
     (case window of Live _ \<Rightarrow> None | Fixed f _ \<Rightarrow> Some (date_ms f))"

definition bucketRawMetricPoints ::
    "(string \<Rightarrow> int) \<Rightarrow> point list \<Rightarrow> string \<Rightarrow> event_window \<Rightarrow> int \<Rightarrow> chart_point list" where
  "bucketRawMetricPoints date_ms pts metricType window seconds =
     (if length pts = 0 then []
      else
        let widthNs = seconds * 1000000000;
            buckets = fill_buckets widthNs pts;
            fixedFromMs = fixed_from_ms date_ms window
        in map (\<lambda>(epochNs, seriesBuckets).
               let bucketMs = big_div epochNs 1000000
               in \<lparr>cp_time = (case fixedFromMs of None \<Rightarrow> bucketMs | Some f \<Rightarrow> max bucketMs f),
                   cp_value = bucket_value metricType (map snd seriesBuckets)\<rparr>)
             (sort_by (\<lambda>a b. if fst a < fst b then - 1 else if fst a > fst b then 1 else 0) buckets))"

definition chartTimeForAggregateTimestamp :: "(string \<Rightarrow> int) \<Rightarrow> string \<Rightarrow> event_window \<Rightarrow> int" where
  "chartTimeForAggregateTimestamp date_ms timestamp window =
     (let bucketMs = date_ms timestamp
      in case window of Live _ \<Rightarrow> bucketMs | Fixed f _ \<Rightarrow> max bucketMs (date_ms f))"

definition buildAggregatedFacetSeries ::
    "(string \<Rightarrow> int) \<Rightarrow> agg_series list \<Rightarrow> metric_facet \<Rightarrow> event_window \<Rightarrow> metric_series list" where
  "buildAggregatedFacetSeries date_ms aggregatedSeries f window =
     map (\<lambda>(s, label, colorIndex).
         \<lparr>ms_key = label, ms_label = label, ms_color = SERIES_COLORS ! colorIndex,
          ms_points = sort_by (\<lambda>a b. cp_time a - cp_time b)
            (map (\<lambda>p. \<lparr>cp_time = chartTimeForAggregateTimestamp date_ms (ap_timestamp p) window,
                        cp_value = ap_value p\<rparr>) (ag_points s))\<rparr>)
       (zip aggregatedSeries (resolveFacetGroupColorIndex aggregatedSeries f))"

definition buildRawGroupedSeries ::
    "temporal \<Rightarrow> (string \<Rightarrow> int) \<Rightarrow> (string \<Rightarrow> string \<Rightarrow> int) \<Rightarrow> (number \<Rightarrow> string) \<Rightarrow> point list \<Rightarrow>
     string \<Rightarrow> event_window \<Rightarrow> metric_series list option" where
  "buildRawGroupedSeries T date_ms lc num_text dataPoints metricType window =
     (let groups = raw_groups lc num_text None dataPoints;
          colorIndexes = seriesColorIndexes (map fst groups)
      in map_option (\<lambda>bucketSeconds.
           map (\<lambda>((key, pts), index).
               \<lparr>ms_key = key, ms_label = label_or key,
                ms_color = SERIES_COLORS ! (colorIndexes ! index),
                ms_points = bucketRawMetricPoints date_ms pts metricType window bucketSeconds\<rparr>)
             (zip groups [0..<length groups]))
         (bucketSecondsForRawMetricPoints T dataPoints window))"

section \<open>Bucketing\<close>

lemma bucketStart_floor: "0 < w \<Longrightarrow> bucketStart t w = t div w * w"
proof (cases "0 \<le> t")
  case False
  assume w: "0 < w"
  then have q: "big_div t w = - ((- t) div w)" using False by (simp add: big_div_neg)
  have z: "big_mod t w = 0 \<longleftrightarrow> w dvd t" using w by (rule big_mod_zero_iff)
  show ?thesis
  proof (cases "w dvd t")
    case True
    then have "- ((- t) div w) = t div w" using w by (simp add: zdiv_zminus1_eq_if dvd_eq_mod_eq_0)
    with True q z False show ?thesis by (simp add: bucketStart_def)
  next
    case False
    then have "- ((- t) div w) - 1 = t div w" using w by (simp add: zdiv_zminus1_eq_if dvd_eq_mod_eq_0)
    with False q z \<open>\<not> 0 \<le> t\<close> show ?thesis by (simp add: bucketStart_def)
  qed
qed (simp add: bucketStart_def big_div_nonneg)

lemma sort_entries:
  "sort_by (\<lambda>a b. if fst a < fst b then - 1 else if fst a > fst b then 1 else 0) (map (\<lambda>k. (k::int, f k)) ks) =
     map (\<lambda>k. (k, f k)) (sort ks)"
proof -
  have "sort_by (\<lambda>a b. if fst a < fst b then - 1 else if fst a > fst b then 1 else 0) (map (\<lambda>k. (k, f k)) ks) =
      sort_key fst (map (\<lambda>k. (k, f k)) ks)"
    by (rule sort_by_key) auto
  also have "\<dots> = map (\<lambda>k. (k, f k)) (sort ks)"
  proof -
    have "insort_key fst (k, f k) (map (\<lambda>k. (k, f k)) xs) = map (\<lambda>k. (k, f k)) (insort k xs)" for k xs
      by (induction xs) auto
    then show ?thesis by (induction ks) simp_all
  qed
  finally show ?thesis .
qed

text \<open>The bucket of a grid start and a series, read off the points directly.\<close>

definition bucket_of :: "int \<Rightarrow> point list \<Rightarrow> int \<Rightarrow> string \<Rightarrow> bucket" where
  "bucket_of widthNs pts start key =
     foldl add_to_bucket empty_bucket
       (filter (\<lambda>p. dp_epochNs p div widthNs * widthNs = start \<and> dp_seriesKey p = key) pts)"

definition series_at :: "int \<Rightarrow> point list \<Rightarrow> int \<Rightarrow> string list" where
  "series_at widthNs pts start =
     uniq (map dp_seriesKey (filter (\<lambda>p. dp_epochNs p div widthNs * widthNs = start) pts))"

lemma fill_buckets_spec:
  assumes "0 < w"
  shows "fill_buckets w pts =
    map (\<lambda>b. (b, map (\<lambda>k. (k, bucket_of w pts b k)) (series_at w pts b)))
      (uniq (map (\<lambda>p. dp_epochNs p div w * w) pts))"
proof -
  have inner: "foldl (\<lambda>series p.
          AList.update (dp_seriesKey p)
            (add_to_bucket
              (case map_of series (dp_seriesKey p) of None \<Rightarrow> empty_bucket | Some b \<Rightarrow> b) p) series) [] ps =
      map (\<lambda>k. (k, foldl add_to_bucket empty_bucket (filter (\<lambda>p. dp_seriesKey p = k) ps)))
        (uniq (map dp_seriesKey ps))" for ps
    using group_into_spec [of dp_seriesKey "\<lambda>_. empty_bucket" add_to_bucket ps]
    unfolding group_into_def .
  show ?thesis
    unfolding fill_buckets_def group_into_spec inner
    by (simp add: bucketStart_floor [OF assms] bucket_of_def series_at_def conj_commute comp_def)
qed

text \<open>C39: for a positive width the grid starts are the epochs rounded down to a multiple of it, before
  1970 as well; the chart has one point per occupied grid cell, in time order, never left of a fixed
  window's start, and its value combines, series by series in order of appearance, exactly the
  points that fall into the cell.\<close>

theorem bucketRawMetricPoints_exact:
  assumes "0 < seconds"
  shows "bucketStart t (seconds * 1000000000) \<le> t \<and> t < bucketStart t (seconds * 1000000000) + seconds * 1000000000 \<and>
    seconds * 1000000000 dvd bucketStart t (seconds * 1000000000) \<and>
    bucketRawMetricPoints date_ms pts metricType window seconds =
      map (\<lambda>b. \<lparr>cp_time = (case fixed_from_ms date_ms window of
                   None \<Rightarrow> big_div b 1000000 | Some f \<Rightarrow> max (big_div b 1000000) f),
                cp_value = bucket_value metricType
                  (map (bucket_of (seconds * 1000000000) pts b) (series_at (seconds * 1000000000) pts b))\<rparr>)
        (sort (uniq (map (\<lambda>p. dp_epochNs p div (seconds * 1000000000) * (seconds * 1000000000)) pts)))"
proof -
  let ?w = "seconds * 1000000000"
  have w: "0 < ?w" using assms by simp
  have "t div ?w * ?w \<le> t" "t < t div ?w * ?w + ?w"
    using w pos_mod_bound [OF w, of t] pos_mod_sign [OF w, of t]
      div_mult_mod_eq [of t ?w] by linarith+
  moreover have "bucketRawMetricPoints date_ms pts metricType window seconds =
      map (\<lambda>b. \<lparr>cp_time = (case fixed_from_ms date_ms window of
                   None \<Rightarrow> big_div b 1000000 | Some f \<Rightarrow> max (big_div b 1000000) f),
                cp_value = bucket_value metricType (map (bucket_of ?w pts b) (series_at ?w pts b))\<rparr>)
        (sort (uniq (map (\<lambda>p. dp_epochNs p div ?w * ?w) pts)))"
  proof (cases "pts = []")
    case False
    then show ?thesis
      by (simp add: bucketRawMetricPoints_def Let_def fill_buckets_spec [OF w] sort_entries comp_def)
  qed (simp add: bucketRawMetricPoints_def uniq_def)
  ultimately show ?thesis by (simp add: bucketStart_floor [OF w])
qed

theorem bucketRawMetricPoints_exact_witness:
  "bucketStart (- 1) 5000000000 \<le> - 1 \<and> 5000000000 dvd bucketStart (- 1) 5000000000"
  using bucketRawMetricPoints_exact [of 5 "- 1"] by auto

section \<open>Chart and tiles agree\<close>

lemma map_zip_fst_index: "map (\<lambda>(x, i). f x i) (zip xs [0..<length xs]) = map (\<lambda>i. f (xs ! i) i) [0..<length xs]"
  by (rule nth_equalityI) simp_all

lemma length_resolve [simp]: "length (resolveFacetGroupColorIndex s f) = length s"
  by (simp add: resolveFacetGroupColorIndex_def Let_def)

lemma map_opt_map_eq:
  "map_opt f xs = Some ys \<Longrightarrow> (\<And>x y. f x = Some y \<Longrightarrow> g y = h x) \<Longrightarrow> map g ys = map h xs"
  by (induction xs arbitrary: ys) (auto split: option.splits)



end
