(* ===== verification/LiveFeed.thy ===== *)
theory LiveFeed
  imports TraceStore MetricStore
begin

text \<open>
  The live feed of \<^verbatim>\<open>hooks/use-websocket.ts\<close>: the leading message of a quiet period is
  applied at once and opens a window, later messages are queued, and a timer flushes the queue, one
  batched store write per run of equal message types. A normaliser that throws (a timestamp that
  does not parse) is an outcome of its own, with the store as it is at that moment.
\<close>

section \<open>Dispatch\<close>

datatype 'a outcome = Returned 'a | Threw 'a

datatype message_type = TracesType | TraceDeletesType | MetricsType | LogsType

fun msg_type :: "ws_message \<Rightarrow> message_type" where
  "msg_type (MsgTraces _) = TracesType"
| "msg_type (MsgTraceDeletes _) = TraceDeletesType"
| "msg_type (MsgMetrics _) = MetricsType"
| "msg_type (MsgLogs _) = LogsType"

text \<open>
  The normalised payload of a message of the given type. A run holds only messages of its type, so
  the casts of the source never meet another payload.
\<close>

fun msg_trace :: "instant_parser \<Rightarrow> ws_message \<Rightarrow> trace option" where
  "msg_trace parse (MsgTraces d) = normalizeTrace parse d"
| "msg_trace parse _ = None"

fun msg_metric :: "instant_parser \<Rightarrow> ws_message \<Rightarrow> metric option" where
  "msg_metric parse (MsgMetrics d) = normalizeMetric parse d"
| "msg_metric parse _ = None"

fun msg_log :: "instant_parser \<Rightarrow> ws_message \<Rightarrow> log option" where
  "msg_log parse (MsgLogs d) = normalizeLog parse d"
| "msg_log parse _ = None"

fun msg_delete :: "ws_message \<Rightarrow> string option" where
  "msg_delete (MsgTraceDeletes i) = Some i"
| "msg_delete _ = None"

text \<open>
  What a dispatch acts on: the store, the ids \<open>onTraceRemoved\<close> was called with, and the runs
  dispatched so far.
\<close>

record feed_sink =
  fs_store :: store
  fs_removed :: "string list"
  fs_runs :: "(message_type \<times> ws_message list) list"

definition delete_one :: "feed_sink \<Rightarrow> string \<Rightarrow> feed_sink" where
  "delete_one k traceId =
     k\<lparr>fs_store := removeTrace traceId (fs_store k), fs_removed := fs_removed k @ [traceId]\<rparr>"

definition dispatchRun ::
    "instant_parser \<Rightarrow> message_type \<Rightarrow> ws_message list \<Rightarrow> feed_sink \<Rightarrow> feed_sink outcome" where
  "dispatchRun parse type run k0 =
     (let k = k0\<lparr>fs_runs := fs_runs k0 @ [(type, run)]\<rparr>
      in case type of
           TracesType \<Rightarrow>
             (case map_opt (msg_trace parse) run of
                None \<Rightarrow> Threw k
              | Some ts \<Rightarrow> Returned (k\<lparr>fs_store := addTraces ts (fs_store k)\<rparr>))
         | TraceDeletesType \<Rightarrow> Returned (foldl delete_one k (List.map_filter msg_delete run))
         | MetricsType \<Rightarrow>
             (case map_opt (msg_metric parse) run of
                None \<Rightarrow> Threw k
              | Some ms \<Rightarrow> Returned (k\<lparr>fs_store := addMetrics ms (fs_store k)\<rparr>))
         | LogsType \<Rightarrow>
             (case map_opt (msg_log parse) run of
                None \<Rightarrow> Threw k
              | Some ls \<Rightarrow> Returned (k\<lparr>fs_store := addLogs ls (fs_store k)\<rparr>)))"

text \<open>The queue from position \<open>i\<close> on; the inner loop looks for the end of the run.\<close>

function dispatchQueue :: "instant_parser \<Rightarrow> ws_message list \<Rightarrow> feed_sink \<Rightarrow> feed_sink outcome" where
  "dispatchQueue parse queue k =
     (case queue of
        [] \<Rightarrow> Returned k
      | first # _ \<Rightarrow>
          let type = msg_type first;
              run = takeWhile (\<lambda>m. msg_type m = type) queue
          in case dispatchRun parse type run k of
               Threw k' \<Rightarrow> Threw k'
             | Returned k' \<Rightarrow> dispatchQueue parse (drop (length run) queue) k')"
  by pat_completeness auto

termination
  by (relation "measure (\<lambda>(_, queue, _). length queue)") auto

declare dispatchQueue.simps [simp del]

section \<open>The hook\<close>

record feed =
  fd_sink :: feed_sink
  fd_queue :: "ws_message list"
  fd_timer :: "nat option"
  fd_pending :: "nat list"
  fd_nextTimer :: nat

definition WS_FLUSH_INTERVAL_MS :: int where
  "WS_FLUSH_INTERVAL_MS = 50"

definition arm :: "feed \<Rightarrow> feed" where
  "arm f = f\<lparr>fd_timer := Some (fd_nextTimer f), fd_pending := fd_pending f @ [fd_nextTimer f],
             fd_nextTimer := Suc (fd_nextTimer f)\<rparr>"

text \<open>The flush: an exception leaves the function before the timer is set again.\<close>

definition tick :: "instant_parser \<Rightarrow> feed \<Rightarrow> feed" where
  "tick parse f =
     (let queue = fd_queue f;
          f1 = f\<lparr>fd_queue := []\<rparr>
      in if length queue = 0 then f1\<lparr>fd_timer := None\<rparr>
         else case dispatchQueue parse queue (fd_sink f1) of
                Returned k \<Rightarrow> arm (f1\<lparr>fd_sink := k\<rparr>)
              | Threw k \<Rightarrow> f1\<lparr>fd_sink := k\<rparr>)"

text \<open>The manager catches what the message callback throws.\<close>

definition onMessage :: "instant_parser \<Rightarrow> ws_message \<Rightarrow> feed \<Rightarrow> feed" where
  "onMessage parse msg f =
     (if fd_timer f = None
      then case dispatchRun parse (msg_type msg) [msg] (fd_sink f) of
             Returned k \<Rightarrow> arm (f\<lparr>fd_sink := k\<rparr>)
           | Threw k \<Rightarrow> f\<lparr>fd_sink := k\<rparr>
      else f\<lparr>fd_queue := fd_queue f @ [msg]\<rparr>)"

text \<open>The effect's cleanup.\<close>

definition feed_cleanup :: "feed \<Rightarrow> feed" where
  "feed_cleanup f =
     (case fd_timer f of
        None \<Rightarrow> f
      | Some t \<Rightarrow> f\<lparr>fd_pending := filter (\<lambda>x. x \<noteq> t) (fd_pending f), fd_timer := None\<rparr>)"

datatype feed_event = FeedMessage ws_message | FeedTimer nat | FeedRemount

fun feed_step :: "instant_parser \<Rightarrow> feed \<Rightarrow> feed_event \<Rightarrow> feed" where
  "feed_step parse f (FeedMessage m) = onMessage parse m f"
| "feed_step parse f (FeedTimer t) =
     (if t \<in> set (fd_pending f)
      then tick parse (f\<lparr>fd_pending := filter (\<lambda>x. x \<noteq> t) (fd_pending f)\<rparr>) else f)"
| "feed_step parse f FeedRemount = feed_cleanup f"

definition new_feed :: "store \<Rightarrow> feed" where
  "new_feed st =
     \<lparr>fd_sink = \<lparr>fs_store = st, fs_removed = [], fs_runs = []\<rparr>, fd_queue = [], fd_timer = None,
      fd_pending = [], fd_nextTimer = 0\<rparr>"

definition feed_run :: "instant_parser \<Rightarrow> feed \<Rightarrow> feed_event list \<Rightarrow> feed" where
  "feed_run parse f es = foldl (feed_step parse) f es"

section \<open>Runs\<close>

definition run_ok :: "message_type \<times> ws_message list \<Rightarrow> bool" where
  "run_ok r \<longleftrightarrow> snd r \<noteq> [] \<and> (\<forall>m \<in> set (snd r). msg_type m = fst r)"

definition runs_ok :: "(message_type \<times> ws_message list) list \<Rightarrow> bool" where
  "runs_ok rs \<longleftrightarrow> list_all run_ok rs \<and> distinct_adj (map fst rs)"

text \<open>Whether a message's payload normalises.\<close>

fun parses :: "instant_parser \<Rightarrow> ws_message \<Rightarrow> bool" where
  "parses parse (MsgTraces d) \<longleftrightarrow> normalizeTrace parse d \<noteq> None"
| "parses parse (MsgTraceDeletes i) \<longleftrightarrow> True"
| "parses parse (MsgMetrics d) \<longleftrightarrow> normalizeMetric parse d \<noteq> None"
| "parses parse (MsgLogs d) \<longleftrightarrow> normalizeLog parse d \<noteq> None"

lemma map_opt_None_iff: "map_opt f xs = None \<longleftrightarrow> (\<exists>x \<in> set xs. f x = None)"
  by (induction xs) (auto split: option.splits)

lemma foldl_delete_one_runs [simp]: "fs_runs (foldl delete_one k is) = fs_runs k"
  by (induction "is" arbitrary: k) (simp_all add: delete_one_def)

lemma dispatchRun_runs:
  "dispatchRun parse type run k = Returned k' \<or> dispatchRun parse type run k = Threw k' \<Longrightarrow>
     fs_runs k' = fs_runs k @ [(type, run)]"
  by (auto simp: dispatchRun_def Let_def split: message_type.splits option.splits)

lemma msg_parses:
  "msg_type m = TracesType \<Longrightarrow> parses parse m \<Longrightarrow> msg_trace parse m \<noteq> None"
  "msg_type m = MetricsType \<Longrightarrow> parses parse m \<Longrightarrow> msg_metric parse m \<noteq> None"
  "msg_type m = LogsType \<Longrightarrow> parses parse m \<Longrightarrow> msg_log parse m \<noteq> None"
  by (cases m; simp)+

lemma dispatchRun_returns:
  assumes "\<forall>m \<in> set run. msg_type m = type" and "\<forall>m \<in> set run. parses parse m"
  shows "\<exists>k'. dispatchRun parse type run k = Returned k'"
proof (cases type)
  case TracesType
  with assms have "map_opt (msg_trace parse) run \<noteq> None"
    unfolding map_opt_None_iff by (blast dest: msg_parses)
  with TracesType show ?thesis by (auto simp: dispatchRun_def Let_def)
next
  case MetricsType
  with assms have "map_opt (msg_metric parse) run \<noteq> None"
    unfolding map_opt_None_iff by (blast dest: msg_parses)
  with MetricsType show ?thesis by (auto simp: dispatchRun_def Let_def)
next
  case LogsType
  with assms have "map_opt (msg_log parse) run \<noteq> None"
    unfolding map_opt_None_iff by (blast dest: msg_parses)
  with LogsType show ?thesis by (auto simp: dispatchRun_def Let_def)
qed (simp add: dispatchRun_def Let_def)

text \<open>One turn of the outer loop: the run at the head of the queue.\<close>

definition head_run :: "ws_message list \<Rightarrow> ws_message list" where
  "head_run q = takeWhile (\<lambda>m. msg_type m = msg_type (hd q)) q"

lemma dispatchQueue_Nil [simp]: "dispatchQueue parse [] k = Returned k"
  by (simp add: dispatchQueue.simps)

lemma dispatchQueue_Cons:
  "q \<noteq> [] \<Longrightarrow> dispatchQueue parse q k =
     (case dispatchRun parse (msg_type (hd q)) (head_run q) k of
        Threw k' \<Rightarrow> Threw k'
      | Returned k' \<Rightarrow> dispatchQueue parse (drop (length (head_run q)) q) k')"
  by (subst dispatchQueue.simps) (auto simp: head_run_def Let_def neq_Nil_conv split: outcome.split)

lemma head_run_props:
  assumes "q \<noteq> []"
  shows "head_run q \<noteq> []" and "\<forall>m \<in> set (head_run q). msg_type m = msg_type (hd q)"
    and "q = head_run q @ drop (length (head_run q)) q"
    and "drop (length (head_run q)) q \<noteq> [] \<Longrightarrow> msg_type (hd (drop (length (head_run q)) q)) \<noteq> msg_type (hd q)"
    and "length (drop (length (head_run q)) q) < length q"
proof -
  show "head_run q \<noteq> []" using assms by (cases q) (simp_all add: head_run_def)
  then show "length (drop (length (head_run q)) q) < length q" using assms by simp
  show "\<forall>m \<in> set (head_run q). msg_type m = msg_type (hd q)"
    by (auto simp: head_run_def dest: set_takeWhileD)
  have d: "drop (length (head_run q)) q = dropWhile (\<lambda>m. msg_type m = msg_type (hd q)) q"
    by (simp add: head_run_def dropWhile_eq_drop)
  then show "q = head_run q @ drop (length (head_run q)) q" by (simp add: head_run_def)
  show "drop (length (head_run q)) q \<noteq> [] \<Longrightarrow>
      msg_type (hd (drop (length (head_run q)) q)) \<noteq> msg_type (hd q)"
    unfolding d by (rule hd_dropWhile)
qed

text \<open>Induction over the runs of a queue.\<close>

lemma queue_induct [case_names Nil Run]:
  assumes "P []" and "\<And>q. q \<noteq> [] \<Longrightarrow> P (drop (length (head_run q)) q) \<Longrightarrow> P q"
  shows "P q"
proof (induction q rule: length_induct)
  case (1 q)
  then show ?case using assms head_run_props(5) [of q] by (cases "q = []") auto
qed

lemma dispatchQueue_runs:
  assumes "dispatchQueue parse q k = Returned k'"
  shows "\<exists>rs. fs_runs k' = fs_runs k @ rs \<and> concat (map snd rs) = q \<and> runs_ok rs \<and>
    (rs \<noteq> [] \<longrightarrow> fst (hd rs) = msg_type (hd q))"
  using assms
proof (induction q arbitrary: k rule: queue_induct)
  case Nil
  then show ?case by (simp add: runs_ok_def)
next
  case (Run q)
  note h = head_run_props [OF Run.hyps]
  let ?r = "(msg_type (hd q), head_run q)"
  obtain k1 where k1: "dispatchRun parse (msg_type (hd q)) (head_run q) k = Returned k1"
      "dispatchQueue parse (drop (length (head_run q)) q) k1 = Returned k'"
    using Run.prems by (auto simp: dispatchQueue_Cons [OF Run.hyps] split: outcome.splits)
  obtain rs where rs: "fs_runs k' = fs_runs k1 @ rs" "concat (map snd rs) = drop (length (head_run q)) q"
      "runs_ok rs" "rs \<noteq> [] \<longrightarrow> fst (hd rs) = msg_type (hd (drop (length (head_run q)) q))"
    using Run.IH [OF k1(2)] by blast
  have ok: "run_ok ?r" using h(1,2) by (simp add: run_ok_def)
  have "drop (length (head_run q)) q \<noteq> []" if "rs \<noteq> []"
    using rs(2,3) that by (cases rs) (auto simp: runs_ok_def run_ok_def)
  then have "runs_ok (?r # rs)"
    using rs(3,4) ok h(4) by (cases rs) (auto simp: runs_ok_def)
  then show ?case
    using dispatchRun_runs [of parse _ _ k k1] k1(1) rs(1,2) h(3)
    by (intro exI [of _ "?r # rs"]) auto
qed

lemma dispatchQueue_returns:
  "\<forall>m \<in> set q. parses parse m \<Longrightarrow> \<exists>k'. dispatchQueue parse q k = Returned k'"
proof (induction q arbitrary: k rule: queue_induct)
  case (Run q)
  note h = head_run_props [OF Run.hyps]
  have "\<forall>m \<in> set (head_run q). parses parse m"
    using Run.prems h(3) by (metis Un_iff set_append)
  with dispatchRun_returns [OF h(2)] obtain k1
    where k1: "dispatchRun parse (msg_type (hd q)) (head_run q) k = Returned k1" by blast
  moreover obtain k' where "dispatchQueue parse (drop (length (head_run q)) q) k1 = Returned k'"
    using Run.IH [of k1] Run.prems by (meson in_set_dropD)
  ultimately show ?case by (simp add: dispatchQueue_Cons [OF Run.hyps])
qed simp

section \<open>The trace view of a queue\<close>

text \<open>What one message does to the entry of trace \<open>i\<close>.\<close>

fun trace_effect :: "instant_parser \<Rightarrow> string \<Rightarrow> trace option \<Rightarrow> ws_message \<Rightarrow> trace option" where
  "trace_effect parse i entry (MsgTraces d) =
     (case normalizeTrace parse d of
        None \<Rightarrow> entry
      | Some t \<Rightarrow>
          if tr_traceId t \<noteq> i then entry
          else Some (case entry of None \<Rightarrow> t | Some old \<Rightarrow> trace_merge old t))"
| "trace_effect parse i entry (MsgTraceDeletes j) = (if i = j then None else entry)"
| "trace_effect parse i entry _ = entry"

definition trace_view :: "store \<Rightarrow> string \<Rightarrow> trace option" where
  "trace_view st = lookup_by tr_traceId (st_traces st)"

fun msg_trace_ids :: "ws_message \<Rightarrow> string set" where
  "msg_trace_ids (MsgTraces d) = {tr_traceId d}"
| "msg_trace_ids _ = {}"

definition queue_fits :: "ws_message list \<Rightarrow> store \<Rightarrow> bool" where
  "queue_fits q st \<longleftrightarrow>
     int (card (tr_traceId ` set (st_traces st) \<union> (\<Union>m \<in> set q. msg_trace_ids m)))
       \<le> cap_traceCap (st_bufferCaps st)"

lemma finite_msg_trace_ids [simp]: "finite (msg_trace_ids m)"
  by (cases m) auto

lemma queue_fits_mono:
  assumes "queue_fits q st" and "st_bufferCaps st' = st_bufferCaps st"
    and "tr_traceId ` set (st_traces st') \<union> (\<Union>m \<in> set q'. msg_trace_ids m) \<subseteq>
      tr_traceId ` set (st_traces st) \<union> (\<Union>m \<in> set q. msg_trace_ids m)"
  shows "queue_fits q' st'"
proof -
  have "card (tr_traceId ` set (st_traces st') \<union> (\<Union>m \<in> set q'. msg_trace_ids m))
      \<le> card (tr_traceId ` set (st_traces st) \<union> (\<Union>m \<in> set q. msg_trace_ids m))"
    by (rule card_mono [OF _ assms(3)]) simp
  with assms(1) show ?thesis unfolding queue_fits_def assms(2) by linarith
qed

lemma run_traces_ids:
  "map_opt (msg_trace parse) run = Some ts \<Longrightarrow> tr_traceId ` set ts = (\<Union>m \<in> set run. msg_trace_ids m)"
proof (induction run arbitrary: ts)
  case (Cons m run)
  then obtain t ts' where t: "msg_trace parse m = Some t" "map_opt (msg_trace parse) run = Some ts'"
      "ts = t # ts'"
    by (auto split: option.splits)
  then have "msg_trace_ids m = {tr_traceId t}"
    by (cases m) (auto dest: normalizeTrace_fields)
  with t Cons.IH [OF t(2)] show ?case by simp
qed simp

lemma run_traces_effect:
  "map_opt (msg_trace parse) run = Some ts \<Longrightarrow>
     foldl (map_upsert tr_traceId (\<lambda>t. t) trace_merge) L ts i = foldl (trace_effect parse i) (L i) run"
proof (induction run arbitrary: ts L)
  case (Cons m run)
  then show ?case
    by (cases m) (auto simp: map_upsert_def split: option.splits)
qed simp

lemma trace_view_remove: "trace_view (removeTrace j st) i = (if i = j then None else trace_view st i)"
proof -
  have "lookup_by tr_traceId (filter (\<lambda>t. tr_traceId t \<noteq> j) ts) i =
      (if i = j then None else lookup_by tr_traceId ts i)" for ts :: "trace list" and i
    by (induction ts) auto
  then show ?thesis by (simp add: trace_view_def removeTrace_def)
qed

lemma trace_store_ok_remove:
  assumes "trace_store_ok st"
  shows "trace_store_ok (removeTrace j st)"
proof -
  have "int (length (filter (\<lambda>t. tr_traceId t \<noteq> j) (st_traces st))) \<le> cap_traceCap (st_bufferCaps st)"
    using assms length_filter_le [of "\<lambda>t. tr_traceId t \<noteq> j" "st_traces st"]
    unfolding trace_store_ok_def by linarith
  with assms show ?thesis
    by (simp add: trace_store_ok_def trace_buffer_ok_def removeTrace_def newest_first_filter
        distinct_map_filter)
qed

lemma removeTrace_frames [simp]:
  "st_bufferCaps (removeTrace j st) = st_bufferCaps st"
  "st_metrics (removeTrace j st) = st_metrics st" "st_logs (removeTrace j st) = st_logs st"
  by (simp_all add: removeTrace_def)

lemma set_removeTrace: "set (st_traces (removeTrace j st)) \<subseteq> set (st_traces st)"
  by (simp add: removeTrace_def)

lemma delete_run:
  assumes "trace_store_ok (fs_store k)" and "\<forall>m \<in> set run. msg_type m = TraceDeletesType"
  shows "trace_store_ok (fs_store (foldl delete_one k (List.map_filter msg_delete run))) \<and>
    trace_view (fs_store (foldl delete_one k (List.map_filter msg_delete run))) i =
      foldl (trace_effect parse i) (trace_view (fs_store k) i) run \<and>
    st_bufferCaps (fs_store (foldl delete_one k (List.map_filter msg_delete run))) =
      st_bufferCaps (fs_store k) \<and>
    set (st_traces (fs_store (foldl delete_one k (List.map_filter msg_delete run)))) \<subseteq>
      set (st_traces (fs_store k))"
  using assms
proof (induction run arbitrary: k)
  case (Cons m run)
  then obtain j where m: "m = MsgTraceDeletes j" by (cases m) auto
  have ok: "trace_store_ok (fs_store (delete_one k j))"
    using Cons.prems by (simp add: delete_one_def trace_store_ok_remove)
  with Cons.IH [OF ok] Cons.prems m show ?case
    using set_removeTrace [of j "fs_store k"]
    by (auto simp: delete_one_def trace_view_remove map_filter_def)
qed (simp add: map_filter_def)

lemma metric_log_frames:
  "trace_view (addMetrics ms st) = trace_view st" "trace_view (addLogs ls st) = trace_view st"
  "trace_store_ok (addMetrics ms st) = trace_store_ok st" "trace_store_ok (addLogs ls st) = trace_store_ok st"
  "st_traces (addMetrics ms st) = st_traces st" "st_traces (addLogs ls st) = st_traces st"
  by (simp_all add: trace_view_def trace_store_ok_def addMetrics_def addLogs_def Let_def)

lemma no_trace_effect:
  "\<forall>m \<in> set run. msg_type m \<in> {MetricsType, LogsType} \<Longrightarrow> foldl (trace_effect parse i) e run = e"
proof (induction run)
  case (Cons m run)
  then show ?case by (cases m) auto
qed simp

lemma dispatchRun_view:
  assumes "dispatchRun parse type run k = Returned k'" and "\<forall>m \<in> set run. msg_type m = type"
    and "trace_store_ok (fs_store k)" and "queue_fits run (fs_store k)"
  shows "trace_store_ok (fs_store k') \<and>
    trace_view (fs_store k') i = foldl (trace_effect parse i) (trace_view (fs_store k) i) run \<and>
    st_bufferCaps (fs_store k') = st_bufferCaps (fs_store k) \<and>
    tr_traceId ` set (st_traces (fs_store k')) \<subseteq>
      tr_traceId ` set (st_traces (fs_store k)) \<union> (\<Union>m \<in> set run. msg_trace_ids m)"
proof (cases type)
  case TracesType
  with assms(1) obtain ts where ts: "map_opt (msg_trace parse) run = Some ts"
      and k': "fs_store k' = addTraces ts (fs_store k)"
    by (auto simp: dispatchRun_def Let_def split: option.splits)
  have fits: "int (card (tr_traceId ` set (st_traces (fs_store k)) \<union> tr_traceId ` set ts))
      \<le> cap_traceCap (st_bufferCaps (fs_store k))"
    using assms(4) by (simp add: queue_fits_def run_traces_ids [OF ts])
  have "tr_traceId ` set (st_traces (fs_store k')) \<subseteq>
      tr_traceId ` set (st_traces (fs_store k)) \<union> tr_traceId ` set ts"
    unfolding k' addTraces_traces [OF assms(3)] trace_buf.keys_foldl [symmetric]
    by (auto dest!: in_set_takeD)
  then show ?thesis
    using traces_lookup [OF assms(3) fits] run_traces_effect [OF ts]
    by (simp add: k' addTraces_store_ok [OF assms(3)] trace_view_def run_traces_ids [OF ts])
next
  case TraceDeletesType
  with assms(1) have k': "k' = foldl delete_one (k\<lparr>fs_runs := fs_runs k @ [(type, run)]\<rparr>)
      (List.map_filter msg_delete run)"
    by (simp add: dispatchRun_def Let_def)
  show ?thesis
    using delete_run [of "k\<lparr>fs_runs := fs_runs k @ [(type, run)]\<rparr>" run i parse] assms(2,3) TraceDeletesType
    by (auto simp: k')
qed (use assms in \<open>auto simp: dispatchRun_def Let_def metric_log_frames no_trace_effect
      split: option.splits\<close>)

lemma dispatchQueue_view:
  assumes "dispatchQueue parse q k = Returned k'" and "trace_store_ok (fs_store k)"
    and "queue_fits q (fs_store k)"
  shows "trace_store_ok (fs_store k') \<and>
    trace_view (fs_store k') i = foldl (trace_effect parse i) (trace_view (fs_store k) i) q"
  using assms
proof (induction q arbitrary: k rule: queue_induct)
  case (Run q)
  note h = head_run_props [OF Run.hyps]
  let ?r = "head_run q" let ?q' = "drop (length (head_run q)) q"
  obtain k1 where k1: "dispatchRun parse (msg_type (hd q)) ?r k = Returned k1"
      "dispatchQueue parse ?q' k1 = Returned k'"
    using Run.prems(1) by (auto simp: dispatchQueue_Cons [OF Run.hyps] split: outcome.splits)
  have q: "set q = set ?r \<union> set ?q'" by (subst h(3)) (simp only: set_append)
  then have "queue_fits ?r (fs_store k)"
    by (intro queue_fits_mono [OF Run.prems(3)]) auto
  from dispatchRun_view [OF k1(1) h(2) Run.prems(2) this]
  have v: "trace_store_ok (fs_store k1)"
      "trace_view (fs_store k1) i = foldl (trace_effect parse i) (trace_view (fs_store k) i) ?r"
      "st_bufferCaps (fs_store k1) = st_bufferCaps (fs_store k)"
      "tr_traceId ` set (st_traces (fs_store k1)) \<subseteq>
        tr_traceId ` set (st_traces (fs_store k)) \<union> (\<Union>m \<in> set ?r. msg_trace_ids m)" for i
    by blast+
  have "queue_fits ?q' (fs_store k1)"
    by (rule queue_fits_mono [OF Run.prems(3) v(3)]) (use v(4) q in auto)
  from Run.IH [OF k1(2) v(1) this] v(2) show ?case
    by (subst h(3)) (simp only: foldl_append)
qed simp

lemma map_filter_append: "List.map_filter f (xs @ ys) = List.map_filter f xs @ List.map_filter f ys"
  by (simp add: map_filter_def)

lemma foldl_delete_one_removed: "fs_removed (foldl delete_one k is) = fs_removed k @ is"
  by (induction "is" arbitrary: k) (simp_all add: delete_one_def)

lemma no_deletes: "\<forall>m \<in> set run. msg_type m \<noteq> TraceDeletesType \<Longrightarrow> List.map_filter msg_delete run = []"
proof (induction run)
  case (Cons m run)
  then show ?case by (cases m) (simp_all add: map_filter_def)
qed (simp add: map_filter_def)

lemma dispatchRun_removed:
  assumes "dispatchRun parse type run k = Returned k'" and "\<forall>m \<in> set run. msg_type m = type"
  shows "fs_removed k' = fs_removed k @ List.map_filter msg_delete run"
  using assms no_deletes [of run]
  by (cases type) (auto simp: dispatchRun_def Let_def foldl_delete_one_removed split: option.splits)

lemma dispatchQueue_removed:
  assumes "dispatchQueue parse q k = Returned k'"
  shows "fs_removed k' = fs_removed k @ List.map_filter msg_delete q"
  using assms
proof (induction q arbitrary: k rule: queue_induct)
  case (Run q)
  note h = head_run_props [OF Run.hyps]
  obtain k1 where k1: "dispatchRun parse (msg_type (hd q)) (head_run q) k = Returned k1"
      "dispatchQueue parse (drop (length (head_run q)) q) k1 = Returned k'"
    using Run.prems(1) by (auto simp: dispatchQueue_Cons [OF Run.hyps] split: outcome.splits)
  show ?case
    using Run.IH [OF k1(2)] dispatchRun_removed [OF k1(1) h(2)]
    by (subst h(3)) (simp only: map_filter_append append_assoc)
qed (simp add: map_filter_def)

section \<open>Properties\<close>


definition mk_delivery :: "string \<Rightarrow> trace_delivery" where
  "mk_delivery i =
     \<lparr>tr_linkCount = 0, tr_traceId = i, tr_rootSpan = None, tr_serviceName = ''svc'',
      tr_searchValues = None, tr_spanCount = 1, tr_startTime = ''s'', tr_duration = 1,
      trw_spans = [], trd_linkTargets = None\<rparr>"


text \<open>The messages of an event list.\<close>

fun feed_messages :: "feed_event list \<Rightarrow> ws_message list" where
  "feed_messages [] = []"
| "feed_messages (FeedMessage m # es) = m # feed_messages es"
| "feed_messages (e # es) = feed_messages es"

lemma feed_messages_append [simp]: "feed_messages (es @ fs) = feed_messages es @ feed_messages fs"
  by (induction es rule: feed_messages.induct) simp_all

definition feed_ok :: "instant_parser \<Rightarrow> feed \<Rightarrow> bool" where
  "feed_ok parse f \<longleftrightarrow>
     (case fd_timer f of
        None \<Rightarrow> fd_queue f = [] \<and> fd_pending f = []
      | Some t \<Rightarrow> fd_pending f = [t]) \<and>
     (\<forall>m \<in> set (fd_queue f). parses parse m)"

definition dispatched :: "feed \<Rightarrow> ws_message list" where
  "dispatched f = concat (map snd (fs_runs (fd_sink f)))"

lemma feed_ok_message:
  assumes "feed_ok parse f" and "parses parse m"
  shows "feed_ok parse (onMessage parse m f) \<and>
    dispatched (onMessage parse m f) @ fd_queue (onMessage parse m f) = dispatched f @ fd_queue f @ [m]"
proof (cases "fd_timer f")
  case None
  obtain k' where k': "dispatchRun parse (msg_type m) [m] (fd_sink f) = Returned k'"
    using dispatchRun_returns [of "[m]" "msg_type m" parse] assms(2) by fastforce
  then have "fs_runs k' = fs_runs (fd_sink f) @ [(msg_type m, [m])]" using dispatchRun_runs by blast
  with None k' assms show ?thesis
    by (auto simp: onMessage_def arm_def feed_ok_def dispatched_def)
next
  case (Some t)
  with assms show ?thesis by (auto simp: onMessage_def feed_ok_def dispatched_def)
qed

lemma feed_ok_tick:
  assumes "feed_ok parse f" and "fd_timer f = Some t"
  shows "feed_ok parse (tick parse (f\<lparr>fd_pending := []\<rparr>)) \<and>
    dispatched (tick parse (f\<lparr>fd_pending := []\<rparr>)) @ fd_queue (tick parse (f\<lparr>fd_pending := []\<rparr>)) =
      dispatched f @ fd_queue f"
proof (cases "fd_queue f = []")
  case True
  then show ?thesis by (simp add: tick_def feed_ok_def dispatched_def)
next
  case False
  obtain k' where k': "dispatchQueue parse (fd_queue f) (fd_sink f) = Returned k'"
    using assms(1) dispatchQueue_returns [of "fd_queue f" parse] by (auto simp: feed_ok_def)
  obtain rs where "fs_runs k' = fs_runs (fd_sink f) @ rs" "concat (map snd rs) = fd_queue f"
    using dispatchQueue_runs [OF k'] by blast
  with False k' show ?thesis
    by (simp add: tick_def arm_def feed_ok_def dispatched_def Let_def)
qed

lemma feed_step_ok:
  assumes "feed_ok parse f" and "e \<noteq> FeedRemount" and "\<forall>m \<in> set (feed_messages [e]). parses parse m"
  shows "feed_ok parse (feed_step parse f e) \<and>
    dispatched (feed_step parse f e) @ fd_queue (feed_step parse f e) =
      dispatched f @ fd_queue f @ feed_messages [e]"
proof (cases e)
  case (FeedMessage m)
  with assms feed_ok_message [of parse f m] show ?thesis by simp
next
  case (FeedTimer t)
  show ?thesis
  proof (cases "t \<in> set (fd_pending f)")
    case True
    with assms(1) have "fd_timer f = Some t" "fd_pending f = [t]"
      by (auto simp: feed_ok_def split: option.splits)
    with feed_ok_tick [OF assms(1)] FeedTimer show ?thesis by simp
  qed (use FeedTimer assms in simp)
qed (use assms in simp)

text \<open>C27: while the hook stays mounted and the messages normalise, every message that arrived has
  been dispatched once, in arrival order, or still waits in the queue, and a waiting message always
  has exactly one flush pending.\<close>

theorem feed_delivers_in_order:
  assumes "FeedRemount \<notin> set es" and "\<forall>m \<in> set (feed_messages es). parses parse m"
  shows "concat (map snd (fs_runs (fd_sink (feed_run parse (new_feed st) es)))) @
      fd_queue (feed_run parse (new_feed st) es) = feed_messages es \<and>
    (fd_queue (feed_run parse (new_feed st) es) \<noteq> [] \<longrightarrow>
      (\<exists>t. fd_timer (feed_run parse (new_feed st) es) = Some t \<and>
         fd_pending (feed_run parse (new_feed st) es) = [t]))"
proof -
  have "feed_ok parse (feed_run parse (new_feed st) es) \<and>
      dispatched (feed_run parse (new_feed st) es) @ fd_queue (feed_run parse (new_feed st) es) =
        feed_messages es"
    using assms
  proof (induction es rule: rev_induct)
    case Nil
    then show ?case by (simp add: feed_run_def new_feed_def feed_ok_def dispatched_def)
  next
    case (snoc e es)
    then have "feed_ok parse (feed_run parse (new_feed st) es)"
        "dispatched (feed_run parse (new_feed st) es) @ fd_queue (feed_run parse (new_feed st) es) =
          feed_messages es"
      by simp_all
    moreover have "e \<noteq> FeedRemount" "\<forall>m \<in> set (feed_messages [e]). parses parse m"
      using snoc.prems by auto
    ultimately show ?case
      using feed_step_ok [of parse "feed_run parse (new_feed st) es" e]
      by (simp add: feed_run_def flip: append_assoc)
  qed
  then show ?thesis
    by (auto simp: feed_ok_def dispatched_def split: option.splits)
qed

theorem feed_delivers_in_order_witness:
  "concat (map snd (fs_runs (fd_sink (feed_run (\<lambda>_. None) (new_feed initial_store)
      [FeedMessage (MsgTraceDeletes ''a''), FeedMessage (MsgTraceDeletes ''b''), FeedTimer 0])))) @
    fd_queue (feed_run (\<lambda>_. None) (new_feed initial_store)
      [FeedMessage (MsgTraceDeletes ''a''), FeedMessage (MsgTraceDeletes ''b''), FeedTimer 0]) =
   [MsgTraceDeletes ''a'', MsgTraceDeletes ''b'']"
  using feed_delivers_in_order [of "[FeedMessage (MsgTraceDeletes ''a''),
      FeedMessage (MsgTraceDeletes ''b''), FeedTimer 0]" "\<lambda>_. None" initial_store]
  by simp

text \<open>C28: a message that fails to normalise inside a flush stops the feed: the timer reference stays
  set with no timer pending, so that whatever arrives later is only queued and the store never
  changes again until the hook is remounted.\<close>

theorem feed_stalls_after_throw:
  assumes "fd_timer f = Some t" and "fd_pending f = [t]" and "FeedRemount \<notin> set es"
    and "dispatchQueue parse (fd_queue f) (fd_sink f) = Threw k"
  shows "fd_sink (feed_run parse (feed_step parse f (FeedTimer t)) es) = k \<and>
    fd_queue (feed_run parse (feed_step parse f (FeedTimer t)) es) = feed_messages es \<and>
    fd_pending (feed_run parse (feed_step parse f (FeedTimer t)) es) = []"
proof -
  let ?f = "feed_step parse f (FeedTimer t)"
  have "fd_queue f \<noteq> []" using assms(4) by (cases "fd_queue f") auto
  then have start: "fd_sink ?f = k" "fd_queue ?f = []" "fd_pending ?f = []" "fd_timer ?f = Some t"
    using assms by (simp_all add: tick_def Let_def)
  have "fd_sink (feed_run parse ?f es) = k \<and> fd_queue (feed_run parse ?f es) = feed_messages es \<and>
      fd_pending (feed_run parse ?f es) = [] \<and> fd_timer (feed_run parse ?f es) = Some t"
    using assms(3)
  proof (induction es rule: rev_induct)
    case Nil
    then show ?case using start by (simp add: feed_run_def)
  next
    case (snoc e es)
    then show ?case by (cases e) (simp_all add: feed_run_def onMessage_def)
  qed
  then show ?thesis by blast
qed

theorem feed_stalls_after_throw_witness:
  "fs_removed (fd_sink (feed_run (\<lambda>_. None)
      (feed_step (\<lambda>_. None)
        \<lparr>fd_sink = \<lparr>fs_store = initial_store, fs_removed = [], fs_runs = []\<rparr>,
         fd_queue = [MsgTraces (mk_delivery ''a'')], fd_timer = Some 0, fd_pending = [0],
         fd_nextTimer = 1\<rparr> (FeedTimer 0))
      [FeedMessage (MsgTraceDeletes ''b''), FeedTimer 0])) = []"
proof -
  let ?f = "\<lparr>fd_sink = \<lparr>fs_store = initial_store, fs_removed = [], fs_runs = []\<rparr>,
         fd_queue = [MsgTraces (mk_delivery ''a'')], fd_timer = Some 0, fd_pending = [0],
         fd_nextTimer = 1\<rparr>"
  have t: "dispatchQueue (\<lambda>_. None) (fd_queue ?f) (fd_sink ?f) =
      Threw ((fd_sink ?f)\<lparr>fs_runs := [(TracesType, [MsgTraces (mk_delivery ''a'')])]\<rparr>)"
    by (simp add: dispatchQueue.simps dispatchRun_def normalizeTrace_def mk_delivery_def)
  show ?thesis
    using feed_stalls_after_throw [OF _ _ _ t, of 0 "[FeedMessage (MsgTraceDeletes ''b''), FeedTimer 0]"]
    by (simp del: feed_step.simps)
qed

text \<open>The cleanup keeps the queue, so that after a remount a queued message is applied after one
  that arrived later.\<close>

theorem feed_remount_reorders:
  "fs_removed (fd_sink (feed_run parse (new_feed st)
     [FeedMessage (MsgTraceDeletes ''a''), FeedMessage (MsgTraceDeletes ''b''), FeedRemount,
      FeedMessage (MsgTraceDeletes ''c''), FeedTimer 1])) = [''a'', ''c'', ''b'']"
  by (simp add: feed_run_def new_feed_def onMessage_def arm_def feed_cleanup_def tick_def
      dispatchQueue.simps dispatchRun_def delete_one_def map_filter_def Let_def)

end
