(* ===== verification/RenderWindow.thy ===== *)
theory RenderWindow
  imports Telemetry JsText
begin

text \<open>
  The rows a list mounts: \<^verbatim>\<open>hooks/use-render-window.ts\<close>,
  \<^verbatim>\<open>hooks/use-load-older-rows.ts\<close> and \<^verbatim>\<open>hooks/use-stable-array.ts\<close>. A render
  of a hook is a function from its state and arguments to the next state and the result; a
  callback is an update of the state.
\<close>

section \<open>The window\<close>

record window_state =
  rw_anchorId :: "string option"
  rw_prevResetKey :: string
  rw_lastK :: int

record 'a render_window =
  rv_visible :: "'a list"
  rv_newerCount :: int
  rv_olderCount :: int
  rv_isHead :: bool

definition new_window :: "string \<Rightarrow> window_state" where
  "new_window resetKey = \<lparr>rw_anchorId = None, rw_prevResetKey = resetKey, rw_lastK = 0\<rparr>"

text \<open>\<open>max\<close> is a row count, so it is not negative.\<close>

definition max_k :: "'a list \<Rightarrow> int \<Rightarrow> int" where
  "max_k items mx = max 0 (int (length items) - mx)"

definition window_k :: "'a list \<Rightarrow> ('a \<Rightarrow> string) \<Rightarrow> int \<Rightarrow> window_state \<Rightarrow> int" where
  "window_k items getId mx s =
     (let maxK = max_k items mx;
          k = (case rw_anchorId s of
                 None \<Rightarrow> 0
               | Some a \<Rightarrow>
                   (case find_index (\<lambda>item. getId item = a) items of
                      Some idx \<Rightarrow> int idx
                    | None \<Rightarrow> min (rw_lastK s) maxK))
      in min k maxK)"

definition reset_window :: "string \<Rightarrow> window_state \<Rightarrow> window_state" where
  "reset_window resetKey s =
     (if resetKey \<noteq> rw_prevResetKey s
      then \<lparr>rw_anchorId = None, rw_prevResetKey = resetKey, rw_lastK = 0\<rparr> else s)"

definition useRenderWindow ::
    "'a list \<Rightarrow> ('a \<Rightarrow> string) \<Rightarrow> int \<Rightarrow> string \<Rightarrow> window_state \<Rightarrow> window_state \<times> 'a render_window" where
  "useRenderWindow items getId mx resetKey s =
     (let s1 = reset_window resetKey s;
          k = window_k items getId mx s1;
          visible = js_slice k (k + mx) items
      in (s1\<lparr>rw_lastK := k\<rparr>,
          \<lparr>rv_visible = visible, rv_newerCount = k,
           rv_olderCount = int (length items) - (k + int (length visible)), rv_isHead = (k = 0)\<rparr>))"

text \<open>The callbacks of a render close over its \<open>k\<close>, which is \<open>rv_newerCount\<close>.\<close>

definition slideOlder ::
    "('a \<Rightarrow> string) \<Rightarrow> int \<Rightarrow> int \<Rightarrow> 'a render_window \<Rightarrow> 'a list \<Rightarrow> window_state \<Rightarrow> window_state" where
  "slideOlder getId mx pageSize view currentItems s =
     (let nextMaxK = max_k currentItems mx;
          nextK = min (rv_newerCount view + min pageSize mx) nextMaxK
      in s\<lparr>rw_anchorId :=
             (if nextK < int (length currentItems) then Some (getId (currentItems ! nat nextK)) else None)\<rparr>)"

definition backToLatest :: "window_state \<Rightarrow> window_state" where
  "backToLatest s = s\<lparr>rw_anchorId := None\<rparr>"

section \<open>Loading older rows\<close>

record load_state =
  lo_pendingSlide :: bool
  lo_wasLoadingMore :: bool

text \<open>A render: whether it calls \<open>slideOlder(items)\<close>.\<close>

definition useLoadOlderRows :: "bool \<Rightarrow> load_state \<Rightarrow> load_state \<times> bool" where
  "useLoadOlderRows loadingMore s =
     (if loadingMore \<noteq> lo_wasLoadingMore s
      then
        if lo_pendingSlide s \<and> \<not> loadingMore
        then (\<lparr>lo_pendingSlide = False, lo_wasLoadingMore = loadingMore\<rparr>, True)
        else (s\<lparr>lo_wasLoadingMore := loadingMore\<rparr>, False)
      else (s, False))"

datatype load_call = SlideNow | FetchPage | NoCall

definition loadMore :: "'a render_window \<Rightarrow> bool \<Rightarrow> load_state \<Rightarrow> load_state \<times> load_call" where
  "loadMore view hasMore s =
     (if rv_olderCount view > 0 then (s, SlideNow)
      else if hasMore then (s\<lparr>lo_pendingSlide := True\<rparr>, FetchPage)
      else (s, NoCall))"

definition canLoadMore :: "'a render_window \<Rightarrow> bool \<Rightarrow> bool" where
  "canLoadMore view hasMore \<longleftrightarrow> rv_olderCount view > 0 \<or> hasMore"

section \<open>Stable arrays\<close>

definition isSameContent :: "'a list \<Rightarrow> 'a list \<Rightarrow> ('a \<Rightarrow> 'k) \<Rightarrow> bool" where
  "isSameContent a b key =
     (if length a \<noteq> length b then False
      else if length a = 0 then True
      else key (a ! 0) = key (b ! 0) \<and> key (a ! (length a - 1)) = key (b ! (length b - 1)))"

text \<open>The reference kept and returned; equal references are equal arrays.\<close>

definition useStableArray :: "('a \<Rightarrow> 'k) \<Rightarrow> 'a list \<Rightarrow> 'a list \<Rightarrow> 'a list" where
  "useStableArray key current arr = (if \<not> isSameContent current arr key then arr else current)"

section \<open>Lemmas\<close>

lemma js_slice_pos:
  "0 \<le> a \<Longrightarrow> a \<le> b \<Longrightarrow> a \<le> int (length xs) \<Longrightarrow> js_slice a b xs = take (nat b - nat a) (drop (nat a) xs)"
  by (auto simp: js_slice_def slice_pos_def min_def)

lemma window_k_bounds:
  assumes "0 \<le> mx" and "0 \<le> rw_lastK s"
  shows "0 \<le> window_k items getId mx s \<and> window_k items getId mx s \<le> max_k items mx"
  using assms by (auto simp: window_k_def max_k_def Let_def split: option.split)

lemma max_k_le: "0 \<le> mx \<Longrightarrow> max_k items mx \<le> int (length items)"
  by (simp add: max_k_def)

lemma visible_rows:
  assumes "0 \<le> mx" and "0 \<le> rw_lastK s"
  shows "let (s', v) = useRenderWindow items getId mx resetKey s
    in rv_visible v = take (nat mx) (drop (nat (rv_newerCount v)) items) \<and>
       0 \<le> rv_newerCount v \<and> rv_newerCount v \<le> max_k items mx \<and> rw_lastK s' = rv_newerCount v \<and>
       rv_olderCount v = int (length items) - rv_newerCount v - int (length (rv_visible v)) \<and>
       rv_newerCount v = window_k items getId mx (reset_window resetKey s)"
proof -
  let ?k = "window_k items getId mx (reset_window resetKey s)"
  have "0 \<le> rw_lastK (reset_window resetKey s)" using assms(2) by (simp add: reset_window_def)
  from window_k_bounds [OF assms(1) this, of items getId]
  have k: "0 \<le> ?k" "?k \<le> max_k items mx" by simp_all
  moreover have "js_slice ?k (?k + mx) items = take (nat mx) (drop (nat ?k) items)"
    using k assms(1) max_k_le [OF assms(1), of items]
    by (subst js_slice_pos) (simp_all add: nat_add_distrib)
  ultimately show ?thesis by (simp add: useRenderWindow_def Let_def)
qed

lemma find_index_nth:
  "distinct (map f xs) \<Longrightarrow> i < length xs \<Longrightarrow> find_index (\<lambda>x. f x = f (xs ! i)) xs = Some i"
proof (induction xs arbitrary: i)
  case (Cons x xs)
  then show ?case by (cases i) auto
qed simp

lemma partition_split:
  assumes "V = take m (drop k items)" and "k + length V \<le> length items"
  shows "take k items @ V @ drop (k + length V) items = items"
proof -
  have "V @ drop (k + length V) items = take (length V) (drop k items) @ drop (length V) (drop k items)"
    using assms(1) by (simp add: add.commute min_def)
  then show ?thesis by (simp only: append_take_drop_id)
qed

text \<open>The position of a window whose top row is still in the list.\<close>

lemma window_k_anchor:
  assumes "distinct (map getId items)" and "i < length items" and "rw_anchorId s = Some (getId (items ! i))"
  shows "window_k items getId mx s = min (int i) (max_k items mx)"
  using find_index_nth [OF assms(1,2)] assms(3) by (simp add: window_k_def Let_def)

lemma window_k_head: "rw_anchorId s = None \<Longrightarrow> window_k items getId mx s = min 0 (max_k items mx)"
  by (simp add: window_k_def Let_def)

lemma newer_is_k:
  "rv_newerCount (snd (useRenderWindow items getId mx resetKey s)) = window_k items getId mx (reset_window resetKey s)"
  by (simp add: useRenderWindow_def Let_def)

section \<open>Properties\<close>

text \<open>Whatever its state, the window mounts a contiguous run of at most \<open>max\<close> rows and as many as
  there are up to that number; the rows above, the rows shown and the rows below make up the list.\<close>

theorem render_window_partition:
  assumes "0 \<le> mx" and "0 \<le> rw_lastK s"
  shows "let (s', v) = useRenderWindow items getId mx resetKey s
    in take (nat (rv_newerCount v)) items @ rv_visible v @
         drop (length items - nat (rv_olderCount v)) items = items \<and>
       int (length (rv_visible v)) = min mx (int (length items)) \<and>
       0 \<le> rv_newerCount v \<and> 0 \<le> rv_olderCount v \<and>
       rv_newerCount v + int (length (rv_visible v)) + rv_olderCount v = int (length items) \<and>
       (rv_isHead v \<longleftrightarrow> rv_newerCount v = 0)"
proof -
  obtain s' v where v: "useRenderWindow items getId mx resetKey s = (s', v)" by fastforce
  define k where "k = nat (rv_newerCount v)"
  have V: "rv_visible v = take (nat mx) (drop k items)" "int k = rv_newerCount v" "int k \<le> max_k items mx"
    "rv_olderCount v = int (length items) - int k - int (length (rv_visible v))"
    using visible_rows [OF assms, of items getId resetKey] by (simp_all add: v k_def)
  have len: "length (rv_visible v) = min (nat mx) (length items)"
    using V(1,3) assms(1) by (auto simp: max_k_def min_def split: if_splits)
  have k_le: "k + length (rv_visible v) \<le> length items" using V(3) assms(1) len by (auto simp: max_k_def)
  then have "length items - nat (rv_olderCount v) = k + length (rv_visible v)" using V(4) by simp
  then have "take k items @ rv_visible v @ drop (length items - nat (rv_olderCount v)) items = items"
    using partition_split [OF V(1) k_le] by simp
  moreover have "rv_isHead v \<longleftrightarrow> rv_newerCount v = 0" using v by (auto simp: useRenderWindow_def Let_def)
  moreover have "0 \<le> rv_newerCount v" "nat (rv_newerCount v) = k" using V(2) by simp_all
  moreover have "0 \<le> rv_olderCount v" "int (length (rv_visible v)) = min mx (int (length items))"
    using V(4) k_le len assms(1) by simp_all
  moreover have "rv_newerCount v + int (length (rv_visible v)) + rv_olderCount v = int (length items)"
    using V(2,4) by simp
  ultimately show ?thesis unfolding v by simp
qed

theorem render_window_partition_witness:
  "int (length (rv_visible (snd (useRenderWindow [1, 2, 3 :: nat] nat_text 2 ''k'' (new_window ''k''))))) = 2"
  using render_window_partition [of 2 "new_window ''k''" "[1, 2, 3 :: nat]" nat_text "''k''"]
  by (simp add: new_window_def split: prod.splits)

text \<open>A window that was slid into the list keeps showing the same rows while live rows are prepended:
  only the count of newer rows grows, by the number of the prepended rows.\<close>

theorem anchored_window_stable:
  assumes "0 \<le> mx" and "distinct (map getId (pre @ items))" and "rw_prevResetKey s = resetKey"
    and "i < length items" and "int i + mx \<le> int (length items)" and "rw_anchorId s = Some (getId (items ! i))"
  shows "let v = snd (useRenderWindow items getId mx resetKey s);
             w = snd (useRenderWindow (pre @ items) getId mx resetKey s)
    in rv_visible w = rv_visible v \<and> rv_newerCount v = int i \<and>
       rv_newerCount w = rv_newerCount v + int (length pre) \<and> rv_olderCount w = rv_olderCount v"
proof -
  have r: "reset_window resetKey s = s" using assms(3) by (simp add: reset_window_def)
  have "window_k items getId mx s = int i"
    using window_k_anchor [of getId items i s mx] assms by (simp add: max_k_def)
  moreover have "(pre @ items) ! (length pre + i) = items ! i" by simp
  then have "window_k (pre @ items) getId mx s = int (length pre + i)"
    using window_k_anchor [of getId "pre @ items" "length pre + i" s mx] assms
    by (simp add: max_k_def)
  moreover have "int i \<le> int (length items)" using assms(4) by simp
  ultimately show ?thesis
    using assms(1) by (simp add: useRenderWindow_def r Let_def js_slice_pos nat_add_distrib)
qed

theorem anchored_window_stable_witness:
  "rv_visible (snd (useRenderWindow ([7] @ [1, 2, 3]) nat_text 2 ''k''
      \<lparr>rw_anchorId = Some (nat_text 2), rw_prevResetKey = ''k'', rw_lastK = 1\<rparr>)) =
   rv_visible (snd (useRenderWindow [1, 2, 3] nat_text 2 ''k''
      \<lparr>rw_anchorId = Some (nat_text 2), rw_prevResetKey = ''k'', rw_lastK = 1\<rparr>))"
proof -
  have "distinct (map nat_text ([7] @ [1, 2, 3]))" by code_simp
  then show ?thesis
    using anchored_window_stable [of 2 nat_text "[7]" "[1, 2, 3]"
        "\<lparr>rw_anchorId = Some (nat_text 2), rw_prevResetKey = ''k'', rw_lastK = 1\<rparr>" "''k''" 1]
    by (simp add: max_k_def Let_def)
qed



end
