(* ===== verification/LiveRefetch.thy ===== *)
theory LiveRefetch
  imports MetricSeries MetricStore WsManager LiveFeed RenderWindow
begin

text \<open>
  How the detail views keep up with live telemetry: the points of the selected range
  (\<^verbatim>\<open>hooks/use-metric-range-points.ts\<close>), the debounced requests of
  \<^verbatim>\<open>hooks/use-metric-aggregate-series.ts\<close> and
  \<^verbatim>\<open>hooks/use-metric-distribution-stats.ts\<close>, and the throttled invalidation of
  \<^verbatim>\<open>hooks/use-telemetry-query-updates.ts\<close> with the relevance tests of its users. A render is
  a step of the hook's state; the query library sends a request when an enabled query has a new key.
  \<open>None\<close> is the exception of a window bound that does not parse.
\<close>

section \<open>Points of the selected range\<close>

type_synonym query_bounds = "string option \<times> string option"

text \<open>The bounds are computed when the window changes, at the time \<open>now\<close>.\<close>

definition range_query_bounds :: "temporal \<Rightarrow> int \<Rightarrow> event_window \<Rightarrow> query_bounds option" where
  "range_query_bounds T now window =
     do {
       r \<leftarrow> eventWindowRange T window;
       let range = (case r of None \<Rightarrow> R1h | Some r \<Rightarrow> r);
       f \<leftarrow> (case window of Fixed f t \<Rightarrow> Some (Some f) | Live _ \<Rightarrow> rangeToFrom T now range);
       Some (f, case window of Fixed f t \<Rightarrow> Some t | Live _ \<Rightarrow> None)
     }"

text \<open>\<open>placeholderData\<close>: the points of another range of the same metric stay on screen.\<close>

definition points_placeholder ::
    "string \<Rightarrow> string \<Rightarrow> (string \<times> string) option \<Rightarrow> point list option \<Rightarrow> point list option" where
  "points_placeholder serviceName name queryKey previous =
     (if queryKey = Some (serviceName, name) then previous else None)"

definition range_points :: "temporal \<Rightarrow> point list \<Rightarrow> point list \<Rightarrow> event_window \<Rightarrow> point list option" where
  "range_points T fetched live window =
     filterPointsInEventWindow T dp_epochNs (mergeDataPoints fetched live) window"

definition useMetricRangePoints ::
    "temporal \<Rightarrow> point list option \<Rightarrow> metric \<Rightarrow> event_window \<Rightarrow> point list \<Rightarrow> point list option" where
  "useMetricRangePoints T data metric window current =
     map_option (useStableArray dp_id current)
       (range_points T (case data of None \<Rightarrow> [] | Some ps \<Rightarrow> ps) (mt_dataPoints metric) window)"

section \<open>Debounced requests\<close>

text \<open>
  The arguments of a render; \<open>ha_ref\<close> is the identity of the metric's array of points.
\<close>

record hook_args =
  ha_metric :: metric
  ha_ref :: nat
  ha_groupBy :: "string list option"
  ha_window :: event_window

text \<open>
  The state of a hook between renders: the last arguments, the memoised bounds, the key of its
  query, the array in \<open>mountedDataPoints\<close>, whether the timeout is pending and whether the last
  run of the effect returned a clean-up. \<open>rf_fetched\<close> is the array that was mounted when the
  last request was sent.
\<close>

record refetch =
  rf_args :: hook_args
  rf_bounds :: query_bounds
  rf_key :: string
  rf_mounted :: "nat \<times> point list"
  rf_timer :: bool
  rf_cleanup :: bool
  rf_fetched :: nat

definition args_points :: "hook_args \<Rightarrow> nat \<times> point list" where
  "args_points a = (ha_ref a, mt_dataPoints (ha_metric a))"

text \<open>A run of the effect, after the clean-up of the run before.\<close>

definition rerun_effect ::
    "(hook_args \<Rightarrow> point list \<Rightarrow> bool option) \<Rightarrow> hook_args \<Rightarrow> refetch \<Rightarrow> refetch option" where
  "rerun_effect wanted a s =
     (let s1 = (if rf_cleanup s then s\<lparr>rf_timer := False, rf_cleanup := False\<rparr> else s)
      in if fst (rf_mounted s1) = ha_ref a then Some s1
         else
           let previous = snd (rf_mounted s1); s2 = s1\<lparr>rf_mounted := args_points a\<rparr>
           in case wanted a previous of
                None \<Rightarrow> None
              | Some w \<Rightarrow> Some (if w then s2\<lparr>rf_timer := True, rf_cleanup := True\<rparr> else s2))"

record 'd refetch_hook =
  hk_key :: "hook_args \<Rightarrow> string option"
  hk_bounds :: "int \<Rightarrow> event_window \<Rightarrow> query_bounds option"
  hk_enabled :: "hook_args \<Rightarrow> bool"
  hk_deps :: "hook_args \<Rightarrow> 'd"
  hk_wanted :: "hook_args \<Rightarrow> point list \<Rightarrow> bool option"

definition hook_render :: "'d refetch_hook \<Rightarrow> int \<Rightarrow> hook_args \<Rightarrow> refetch \<Rightarrow> refetch option" where
  "hook_render h now a s =
     do {
       bounds \<leftarrow> (if ha_window a = ha_window (rf_args s) then Some (rf_bounds s) else hk_bounds h now (ha_window a));
       key \<leftarrow> hk_key h a;
       let request = hk_enabled h a \<and> ((key, bounds) \<noteq> (rf_key s, rf_bounds s) \<or> \<not> hk_enabled h (rf_args s));
       let s1 = s\<lparr>rf_args := a, rf_bounds := bounds, rf_key := key,
                  rf_fetched := (if request then ha_ref a else rf_fetched s)\<rparr>;
       if ha_ref a = fst (rf_mounted s) \<and> hk_deps h a = hk_deps h (rf_args s) then Some s1
       else rerun_effect (hk_wanted h) a s1
     }"

definition hook_mount :: "'d refetch_hook \<Rightarrow> int \<Rightarrow> hook_args \<Rightarrow> refetch option" where
  "hook_mount h now a =
     do {
       bounds \<leftarrow> hk_bounds h now (ha_window a);
       key \<leftarrow> hk_key h a;
       Some \<lparr>rf_args = a, rf_bounds = bounds, rf_key = key, rf_mounted = args_points a, rf_timer = False,
             rf_cleanup = False, rf_fetched = ha_ref a\<rparr>
     }"

text \<open>The timeout calls \<open>fetchNow\<close>.\<close>

definition hook_timeout :: "refetch \<Rightarrow> refetch" where
  "hook_timeout s = s\<lparr>rf_timer := False, rf_fetched := fst (rf_mounted s)\<rparr>"

definition hook_unmount :: "refetch \<Rightarrow> refetch" where
  "hook_unmount s = (if rf_cleanup s then s\<lparr>rf_timer := False, rf_cleanup := False\<rparr> else s)"

datatype hook_event = Render int hook_args | Timeout

text \<open>A timeout happens only while one is pending.\<close>

fun hook_step :: "'d refetch_hook \<Rightarrow> refetch \<Rightarrow> hook_event \<Rightarrow> refetch option" where
  "hook_step h s (Render now a) = hook_render h now a s"
| "hook_step h s Timeout = (if rf_timer s then Some (hook_timeout s) else None)"

fun hook_run :: "'d refetch_hook \<Rightarrow> refetch \<Rightarrow> hook_event list \<Rightarrow> refetch option" where
  "hook_run h s [] = Some s"
| "hook_run h s (e # es) = Option.bind (hook_step h s e) (\<lambda>s'. hook_run h s' es)"

section \<open>The aggregated series\<close>

definition groupByKey :: "hook_args \<Rightarrow> string option" where
  "groupByKey a = map_option (join [char_of (0 :: nat)]) (ha_groupBy a)"

definition aggregate_bounds :: "temporal \<Rightarrow> int \<Rightarrow> event_window \<Rightarrow> query_bounds option" where
  "aggregate_bounds T now window =
     (case window of
        Fixed f t \<Rightarrow> Some (Some f, Some t)
      | Live r \<Rightarrow> map_option (\<lambda>f. (f, None)) (rangeToFrom T now r))"

definition aggregate_key :: "temporal \<Rightarrow> hook_args \<Rightarrow> string option" where
  "aggregate_key T a =
     map_option (\<lambda>bucketSeconds.
        mt_serviceName (ha_metric a) @ ''::'' @ mt_name (ha_metric a) @ ''|'' @
        (case groupByKey a of None \<Rightarrow> [] | Some g \<Rightarrow> g) @ ''|'' @ eventWindowKey (ha_window a) @ ''|'' @
        (case bucketSeconds of None \<Rightarrow> ''auto'' | Some n \<Rightarrow> int_text n))
       (bucketSecondsForEventWindow T (ha_window a))"

definition aggregate_wanted :: "temporal \<Rightarrow> hook_args \<Rightarrow> point list \<Rightarrow> bool option" where
  "aggregate_wanted T a previous =
     (if groupByKey a = None \<or> groupByKey a = Some [] then Some False
      else case ha_window a of
             Live _ \<Rightarrow> Some True
           | Fixed _ _ \<Rightarrow>
               let previousIds = set (map dp_id previous);
                   added = filter (\<lambda>p. dp_id p \<notin> previousIds) (mt_dataPoints (ha_metric a))
               in map_option (\<lambda>ps. length ps \<noteq> 0) (filterPointsInEventWindow T dp_epochNs added (ha_window a)))"

definition aggregate_hook :: "temporal \<Rightarrow> (string option \<times> event_window) refetch_hook" where
  "aggregate_hook T =
     \<lparr>hk_key = aggregate_key T, hk_bounds = aggregate_bounds T, hk_enabled = (\<lambda>a. ha_groupBy a \<noteq> None),
      hk_deps = (\<lambda>a. (groupByKey a, ha_window a)), hk_wanted = aggregate_wanted T\<rparr>"

text \<open>The content key of a response, and the reference kept while it does not change.\<close>

definition opt_num :: "(number \<Rightarrow> string) \<Rightarrow> number option \<Rightarrow> string" where
  "opt_num num_text v = (case v of None \<Rightarrow> [] | Some n \<Rightarrow> num_text n)"

definition seriesKey :: "(number \<Rightarrow> string) \<Rightarrow> agg_series \<Rightarrow> string" where
  "seriesKey num_text s =
     join [char_of (0 :: nat)] (ag_groupValues s) @ ''|'' @
     join [char_of (2 :: nat)]
       (map (\<lambda>p. join [char_of (1 :: nat)]
          [ap_timestamp p, num_text (ap_value p), opt_num num_text (ap_count p), opt_num num_text (ap_sum p),
           opt_num num_text (ap_min p), opt_num num_text (ap_max p)]) (ag_points s))"

definition stable_series ::
    "(number \<Rightarrow> string) \<Rightarrow> string \<Rightarrow> agg_series list option \<Rightarrow> (string \<times> agg_series list) option \<Rightarrow>
     (string \<times> agg_series list) option" where
  "stable_series num_text queryKey series ref =
     (case series of
        None \<Rightarrow> ref
      | Some series \<Rightarrow>
          let responseKey = queryKey @ ''|'' @ join [char_of (3 :: nat)] (map (seriesKey num_text) series)
          in if map_option fst ref \<noteq> Some responseKey then Some (responseKey, series) else ref)"

definition shown_series ::
    "hook_args \<Rightarrow> bool \<Rightarrow> agg_series list option \<Rightarrow> (string \<times> agg_series list) option \<Rightarrow> agg_series list option" where
  "shown_series a isError data kept =
     (let series = (if isError then None else data)
      in if groupByKey a \<noteq> None \<and> groupByKey a \<noteq> Some [] \<and> series \<noteq> None then map_option snd kept else None)"

section \<open>The distribution statistics\<close>

definition distribution_supported :: "hook_args \<Rightarrow> bool" where
  "distribution_supported a \<longleftrightarrow>
     mt_type (ha_metric a) = ''Histogram'' \<or> mt_type (ha_metric a) = ''ExponentialHistogram''"

definition is_live :: "hook_args \<Rightarrow> bool" where
  "is_live a \<longleftrightarrow> (case ha_window a of Live _ \<Rightarrow> True | Fixed _ _ \<Rightarrow> False)"

definition scope_key :: "hook_args \<Rightarrow> string" where
  "scope_key a =
     json_text (\<lambda>_. []) (JArr [JStr (mt_serviceName (ha_metric a)), JStr (mt_name (ha_metric a)),
       (case ha_groupBy a of None \<Rightarrow> JNull | Some gs \<Rightarrow> JArr (map JStr gs))])"

definition distribution_hook :: "temporal \<Rightarrow> (bool \<times> bool) refetch_hook" where
  "distribution_hook T =
     \<lparr>hk_key = (\<lambda>a. Some (scope_key a)), hk_bounds = range_query_bounds T, hk_enabled = distribution_supported,
      hk_deps = (\<lambda>a. (distribution_supported a, is_live a)),
      hk_wanted = (\<lambda>a previous. Some (distribution_supported a \<and> is_live a))\<rparr>"

text \<open>The statistics shown; \<open>None\<close> is \<open>null\<close>.\<close>

definition shown_stats :: "bool \<Rightarrow> bool \<Rightarrow> 's list option \<Rightarrow> 's list option" where
  "shown_stats supported isError data = (if \<not> supported then None else if isError then Some [] else data)"

section \<open>Invalidation by live messages\<close>

record query_updates =
  qu_timer :: bool
  qu_previousStatus :: "ws_status option"
  qu_invalidations :: nat

definition new_updates :: query_updates where
  "new_updates = \<lparr>qu_timer = False, qu_previousStatus = None, qu_invalidations = 0\<rparr>"

definition refresh :: "query_updates \<Rightarrow> query_updates" where
  "refresh s = s\<lparr>qu_timer := False, qu_invalidations := qu_invalidations s + 1\<rparr>"

definition on_query_status :: "ws_status \<Rightarrow> query_updates \<Rightarrow> query_updates" where
  "on_query_status status s =
     (let s1 = (if status = Connected \<and> qu_previousStatus s \<noteq> None \<and> qu_previousStatus s \<noteq> Some Connected
                then refresh s else s)
      in s1\<lparr>qu_previousStatus := Some status\<rparr>)"

definition on_query_message :: "(ws_message \<Rightarrow> bool) \<Rightarrow> ws_message \<Rightarrow> query_updates \<Rightarrow> query_updates" where
  "on_query_message isRelevant message s = (if \<not> isRelevant message \<or> qu_timer s then s else s\<lparr>qu_timer := True\<rparr>)"

datatype update_event = QStatus ws_status | QMessage ws_message | QTimer

text \<open>A timer that is not set does not fire.\<close>

fun update_step :: "(ws_message \<Rightarrow> bool) \<Rightarrow> query_updates \<Rightarrow> update_event \<Rightarrow> query_updates" where
  "update_step isRelevant s (QStatus st) = on_query_status st s"
| "update_step isRelevant s (QMessage m) = on_query_message isRelevant m s"
| "update_step isRelevant s QTimer = (if qu_timer s then refresh s else s)"

text \<open>The clean-up drops the timer and the subscription, so no event but a fired timer could follow.\<close>

definition query_updates_unmount :: "query_updates \<Rightarrow> query_updates" where
  "query_updates_unmount s = s\<lparr>qu_timer := False\<rparr>"

lemma no_refresh_after_unmount: "update_step isRelevant (query_updates_unmount s) QTimer = query_updates_unmount s"
  by (simp add: query_updates_unmount_def)

text \<open>The messages that concern a trace's spans, the links of a span, and one link.\<close>

fun message_trace :: "ws_message \<Rightarrow> string option" where
  "message_trace (MsgTraces d) = Some (tr_traceId d)"
| "message_trace (MsgTraceDeletes i) = Some i"
| "message_trace _ = None"

definition trace_spans_relevant :: "string option \<Rightarrow> ws_message \<Rightarrow> bool" where
  "trace_spans_relevant traceId message \<longleftrightarrow>
     (case message_trace message of None \<Rightarrow> False | Some i \<Rightarrow> Some i = traceId)"

definition span_links_relevant :: "string \<Rightarrow> string \<Rightarrow> bool \<Rightarrow> string list \<Rightarrow> ws_message \<Rightarrow> bool" where
  "span_links_relevant traceId spanId incoming targetIds message \<longleftrightarrow>
     (case message_trace message of
        None \<Rightarrow> False
      | Some i \<Rightarrow>
          i = traceId \<or> i \<in> set targetIds \<or>
          (incoming \<and>
           (case message of
              MsgTraces d \<Rightarrow>
                (case trd_linkTargets d of
                   None \<Rightarrow> False
                 | Some targets \<Rightarrow>
                     list_ex (\<lambda>target. ref_traceId target = traceId \<and> ref_spanId target = spanId) targets)
            | _ \<Rightarrow> False)))"

definition span_link_relevant :: "string \<Rightarrow> string option \<Rightarrow> ws_message \<Rightarrow> bool" where
  "span_link_relevant sourceTraceId dataTraceId message \<longleftrightarrow>
     (case message_trace message of
        None \<Rightarrow> False
      | Some i \<Rightarrow> i = sourceTraceId \<or> Some i = dataTraceId)"

section \<open>No live update is lost\<close>

definition same_metric :: "hook_args \<Rightarrow> hook_args \<Rightarrow> bool" where
  "same_metric a b \<longleftrightarrow>
     mt_serviceName (ha_metric a) = mt_serviceName (ha_metric b) \<and> mt_name (ha_metric a) = mt_name (ha_metric b)"

text \<open>
  What a hook that follows live telemetry keeps to: the effect asks for a request whenever it sees
  new points, and whatever else reruns the effect is part of the query's key.
\<close>

locale following_hook =
  fixes h :: "'d refetch_hook"
    and follows :: "hook_args \<Rightarrow> bool"
  assumes follows_enabled: "follows a \<Longrightarrow> hk_enabled h a"
    and follows_wanted: "follows a \<Longrightarrow> hk_wanted h a previous = Some True"
    and follows_deps: "follows a \<Longrightarrow> hk_deps h a = hk_deps h b \<Longrightarrow> follows b"
    and deps_in_key: "follows a \<Longrightarrow> same_metric a b \<Longrightarrow> hk_deps h a \<noteq> hk_deps h b \<Longrightarrow> hk_enabled h b \<Longrightarrow>
      hk_key h a = Some k \<Longrightarrow> hk_key h b = Some k' \<Longrightarrow>
      hk_bounds h now (ha_window a) = Some x \<Longrightarrow> hk_bounds h now' (ha_window b) = Some y \<Longrightarrow> (k, x) \<noteq> (k', y)"
begin

definition hook_ok :: "hook_args \<Rightarrow> refetch \<Rightarrow> bool" where
  "hook_ok a0 s \<longleftrightarrow>
     same_metric (rf_args s) a0 \<and> hk_key h (rf_args s) = Some (rf_key s) \<and>
     (\<exists>now. hk_bounds h now (ha_window (rf_args s)) = Some (rf_bounds s)) \<and>
     fst (rf_mounted s) = ha_ref (rf_args s) \<and>
     (follows (rf_args s) \<longrightarrow> rf_fetched s = ha_ref (rf_args s) \<or> rf_timer s)"

lemma mount_ok: "hook_mount h now a = Some s \<Longrightarrow> hook_ok a s"
  by (auto simp: hook_mount_def hook_ok_def same_metric_def args_points_def split: Option.bind_splits)

lemma timeout_ok: "hook_ok a0 s \<Longrightarrow> hook_ok a0 (hook_timeout s)"
  by (simp add: hook_ok_def hook_timeout_def)

lemma rerun_args:
  assumes "rerun_effect w a s = Some s'"
  shows "rf_args s' = rf_args s \<and> rf_key s' = rf_key s \<and> rf_bounds s' = rf_bounds s \<and>
    rf_fetched s' = rf_fetched s \<and> fst (rf_mounted s') = ha_ref a"
  using assms by (auto simp: rerun_effect_def args_points_def Let_def split: if_splits option.splits)

lemma render_ok:
  assumes ok: "hook_ok a0 s" and a: "same_metric a a0" and r: "hook_render h now a s = Some s'"
  shows "hook_ok a0 s'"
proof -
  obtain bounds key where b: "(if ha_window a = ha_window (rf_args s) then Some (rf_bounds s)
      else hk_bounds h now (ha_window a)) = Some bounds" and k: "hk_key h a = Some key"
    using r by (auto simp: hook_render_def split: Option.bind_splits if_splits)
  define request where "request \<longleftrightarrow> hk_enabled h a \<and>
    ((key, bounds) \<noteq> (rf_key s, rf_bounds s) \<or> \<not> hk_enabled h (rf_args s))"
  define s1 where "s1 = s\<lparr>rf_args := a, rf_bounds := bounds, rf_key := key,
                  rf_fetched := (if request then ha_ref a else rf_fetched s)\<rparr>"
  let ?same = "ha_ref a = fst (rf_mounted s) \<and> hk_deps h a = hk_deps h (rf_args s)"
  have r': "(if ?same then Some s1 else rerun_effect (hk_wanted h) a s1) = Some s'"
    using r unfolding hook_render_def b k Option.bind.bind_lunit Let_def request_def [symmetric] s1_def [symmetric] .
  obtain now0 where old: "hk_bounds h now0 (ha_window (rf_args s)) = Some (rf_bounds s)"
    "hk_key h (rf_args s) = Some (rf_key s)" "fst (rf_mounted s) = ha_ref (rf_args s)"
    "same_metric a (rf_args s)"
    using ok a by (auto simp: hook_ok_def same_metric_def)
  have bounds: "\<exists>now. hk_bounds h now (ha_window a) = Some bounds"
    using b old(1) by (auto split: if_splits)
  have frame: "rf_args s' = a" "rf_key s' = key" "rf_bounds s' = bounds" "fst (rf_mounted s') = ha_ref a"
    "rf_fetched s' = rf_fetched s1"
    using r' rerun_args [of "hk_wanted h" a s1 s'] old(3) by (auto simp: s1_def split: if_splits)
  have "rf_fetched s' = ha_ref a \<or> rf_timer s'" if f: "follows a"
  proof (cases "ha_ref a = fst (rf_mounted s)")
    case False
    then show ?thesis
      using r' follows_wanted [OF f] by (auto simp: rerun_effect_def s1_def Let_def split: if_splits)
  next
    case same_ref: True
    show ?thesis
    proof (cases request)
      case True
      then show ?thesis using frame(5) by (simp add: s1_def)
    next
      case False
      then have "hk_enabled h (rf_args s)" "(key, bounds) = (rf_key s, rf_bounds s)"
        using follows_enabled [OF f] by (auto simp: request_def)
      then have deps: "hk_deps h a = hk_deps h (rf_args s)"
        using deps_in_key [OF f old(4), of key "rf_key s" _ bounds now0 "rf_bounds s"] bounds old(1,2) k by metis
      then have "follows (rf_args s)" "s' = s1"
        using follows_deps [OF f] r' same_ref by simp_all
      then have "rf_fetched s = ha_ref (rf_args s) \<or> rf_timer s" using ok by (simp add: hook_ok_def)
      then show ?thesis using \<open>s' = s1\<close> same_ref old(3) by (auto simp: s1_def)
    qed
  qed
  then show ?thesis using frame k bounds a by (auto simp: hook_ok_def)
qed

lemma step_ok:
  assumes "hook_ok a0 s" and "hook_step h s e = Some s'" and "\<And>now a. e = Render now a \<Longrightarrow> same_metric a a0"
  shows "hook_ok a0 s'"
  using assms by (cases e) (auto intro: render_ok timeout_ok split: if_splits)

lemma run_ok:
  assumes "hook_ok a0 s" and "hook_run h s es = Some s'"
    and "\<forall>now a. Render now a \<in> set es \<longrightarrow> same_metric a a0"
  shows "hook_ok a0 s'"
  using assms
proof (induction es arbitrary: s)
  case (Cons e es)
  then obtain s1 where s1: "hook_step h s e = Some s1" "hook_run h s1 es = Some s'"
    by (auto split: Option.bind_splits)
  have "hook_ok a0 s1"
  proof (rule step_ok [OF Cons.prems(1) s1(1)])
    show "same_metric a a0" if "e = Render now a" for now a using Cons.prems(3) that by (metis list.set_intros(1))
  qed
  then show ?case using Cons.IH s1(2) Cons.prems(3) by simp
qed simp

lemma no_update_lost:
  assumes "hook_mount h now a = Some s" and "hook_run h s es = Some s'"
    and "\<forall>now b. Render now b \<in> set es \<longrightarrow> same_metric b a"
    and "follows (rf_args s')"
  shows "rf_fetched s' = ha_ref (rf_args s') \<or> rf_timer s'"
  using run_ok [OF mount_ok [OF assms(1)] assms(2,3)] assms(4) by (simp add: hook_ok_def)

end

definition aggregate_follows :: "hook_args \<Rightarrow> bool" where
  "aggregate_follows a \<longleftrightarrow> groupByKey a \<noteq> None \<and> groupByKey a \<noteq> Some [] \<and> is_live a"

lemma last_separator:
  assumes "a @ c # x = b @ c # y" and "c \<notin> set x" and "c \<notin> set y"
  shows "a = b \<and> x = y"
proof -
  have "takeWhile (\<lambda>d. d \<noteq> c) (rev (a @ c # x)) = takeWhile (\<lambda>d. d \<noteq> c) (rev (b @ c # y))"
    by (simp only: assms(1))
  moreover have "takeWhile (\<lambda>d. d \<noteq> c) (rev z @ c # rev w) = rev z" if "c \<notin> set z" for w z
    using that by (subst takeWhile_append2) auto
  ultimately have "x = y" using assms(2,3) by simp
  then show ?thesis using assms(1) by simp
qed

lemma int_text_no_bar: "CHR ''|'' \<notin> set (int_text i)"
proof -
  have "c \<noteq> CHR ''|''" if "digit_char c" for c using that by (auto simp: digit_char_def char_code_def)
  then show ?thesis using nat_text_digits by (auto simp: int_text_def list_all_iff)
qed

lemma live_key_no_bar: "CHR ''|'' \<notin> set (eventWindowKey (Live r))"
  by (cases r) simp_all

lemma live_key_inj: "eventWindowKey (Live r) = eventWindowKey (Live r') \<longleftrightarrow> r = r'"
  by (cases r; cases r') simp_all

interpretation aggregate_client: following_hook "aggregate_hook T" aggregate_follows for T
proof
  fix a b k k' now now' x y
  assume f: "aggregate_follows a" and m: "same_metric a b"
    and d: "hk_deps (aggregate_hook T) a \<noteq> hk_deps (aggregate_hook T) b"
    and ks: "hk_key (aggregate_hook T) a = Some k" "hk_key (aggregate_hook T) b = Some k'"
    and bs: "hk_bounds (aggregate_hook T) now (ha_window a) = Some x"
      "hk_bounds (aggregate_hook T) now' (ha_window b) = Some y"
  obtain r where r: "ha_window a = Live r" using f by (auto simp: aggregate_follows_def is_live_def split: event_window.splits)
  show "(k, x) \<noteq> (k', y)"
  proof (cases "ha_window b")
    case (Fixed u v)
    then show ?thesis using bs r by (auto simp: aggregate_hook_def aggregate_bounds_def)
  next
    case (Live r')
    define g where "g = (\<lambda>a. case groupByKey a of None \<Rightarrow> [] | Some g \<Rightarrow> g)"
    define t where "t = (\<lambda>r. case bucketSecondsForRange r of None \<Rightarrow> ''auto'' | Some n \<Rightarrow> int_text n)"
    have t: "CHR ''|'' \<notin> set (t r)" for r using int_text_no_bar by (simp add: t_def split: option.split)
    have "k \<noteq> k'"
    proof
      assume "k = k'"
      then have "(g a @ CHR ''|'' # eventWindowKey (Live r)) @ CHR ''|'' # t r =
          (g b @ CHR ''|'' # eventWindowKey (Live r')) @ CHR ''|'' # t r'"
        using ks m by (auto simp: aggregate_hook_def aggregate_key_def r Live g_def t_def same_metric_def
            simp del: eventWindowKey.simps)
      then have "g a @ CHR ''|'' # eventWindowKey (Live r) = g b @ CHR ''|'' # eventWindowKey (Live r')"
        using last_separator [OF _ t t] by blast
      then have "g a = g b" "r = r'"
        using last_separator [OF _ live_key_no_bar live_key_no_bar] live_key_inj by blast+
      moreover have "groupByKey a = groupByKey b" using f \<open>g a = g b\<close>
        by (auto simp: g_def aggregate_follows_def split: option.splits)
      ultimately show False using d by (simp add: aggregate_hook_def r Live)
    qed
    then show ?thesis by simp
  qed
qed (auto simp: aggregate_hook_def aggregate_follows_def aggregate_wanted_def is_live_def groupByKey_def
    eq_commute [of "Some _" "map_option _ _"] split: event_window.splits option.splits)

interpretation distribution_client:
  following_hook "distribution_hook T" "\<lambda>a. distribution_supported a \<and> is_live a" for T
  by unfold_locales
    (auto simp: distribution_hook_def range_query_bounds_def is_live_def split: event_window.splits Option.bind_splits)

section \<open>When an invalidation is owed\<close>

definition refreshes :: "update_event list \<Rightarrow> nat \<Rightarrow> bool" where
  "refreshes es j \<longleftrightarrow>
     es ! j = QTimer \<or>
     (es ! j = QStatus Connected \<and>
      (\<exists>i < j. \<exists>st. es ! i = QStatus st \<and> st \<noteq> Connected \<and> (\<forall>k. i < k \<and> k < j \<longrightarrow> (\<forall>st'. es ! k \<noteq> QStatus st'))))"

definition owes :: "(ws_message \<Rightarrow> bool) \<Rightarrow> update_event list \<Rightarrow> bool" where
  "owes isRelevant es \<longleftrightarrow>
     (\<exists>i < length es. (\<exists>m. es ! i = QMessage m \<and> isRelevant m) \<and> (\<forall>j. i < j \<and> j < length es \<longrightarrow> \<not> refreshes es j))"

lemma refreshes_snoc: "j < length es \<Longrightarrow> refreshes (es @ [e]) j = refreshes es j"
  unfolding refreshes_def by (auto simp: nth_append)

lemma ex_last_snoc:
  "(\<exists>i < length (es @ [e]). P ((es @ [e]) ! i) \<and> (\<forall>k. i < k \<and> k < length (es @ [e]) \<longrightarrow> N k)) \<longleftrightarrow>
     P e \<or> ((\<exists>i < length es. P (es ! i) \<and> (\<forall>k. i < k \<and> k < length es \<longrightarrow> N k)) \<and> N (length es))"
proof -
  have A: "(\<forall>k. i < k \<and> k < Suc n \<longrightarrow> N k) \<longleftrightarrow> (\<forall>k. i < k \<and> k < n \<longrightarrow> N k) \<and> (i < n \<longrightarrow> N n)" for i n
    by (auto simp: less_Suc_eq)
  have B: "(\<exists>i < Suc n. Q i) \<longleftrightarrow> Q n \<or> (\<exists>i < n. Q i)" for n and Q :: "nat \<Rightarrow> bool"
    by (auto simp: less_Suc_eq)
  show ?thesis unfolding length_append_singleton A B by (simp add: nth_append cong: conj_cong) blast
qed

lemma owes_snoc:
  "owes isRelevant (es @ [e]) \<longleftrightarrow>
     (\<exists>m. e = QMessage m \<and> isRelevant m) \<or> (owes isRelevant es \<and> \<not> refreshes (es @ [e]) (length es))"
proof -
  have "(\<forall>j. i < j \<and> j < length es \<longrightarrow> \<not> refreshes (es @ [e]) j) \<longleftrightarrow>
      (\<forall>j. i < j \<and> j < length es \<longrightarrow> \<not> refreshes es j)" for i
    by (auto simp: refreshes_snoc)
  then show ?thesis unfolding owes_def
    using ex_last_snoc [of es e "\<lambda>x. \<exists>m. x = QMessage m \<and> isRelevant m" "\<lambda>j. \<not> refreshes (es @ [e]) j"] by simp
qed

abbreviation updates_run :: "(ws_message \<Rightarrow> bool) \<Rightarrow> update_event list \<Rightarrow> query_updates" where
  "updates_run isRelevant es \<equiv> foldl (update_step isRelevant) new_updates es"

lemma previous_status:
  "qu_previousStatus (updates_run isRelevant es) = Some st \<longleftrightarrow>
     (\<exists>i < length es. es ! i = QStatus st \<and> (\<forall>k. i < k \<and> k < length es \<longrightarrow> (\<forall>st'. es ! k \<noteq> QStatus st')))"
proof (induction es rule: rev_induct)
  case (snoc e es)
  have N: "(\<forall>k. i < k \<and> k < length es \<longrightarrow> (\<forall>st'. (es @ [e]) ! k \<noteq> QStatus st')) \<longleftrightarrow>
      (\<forall>k. i < k \<and> k < length es \<longrightarrow> (\<forall>st'. es ! k \<noteq> QStatus st'))" for i
    by (auto simp: nth_append)
  have "qu_previousStatus (updates_run isRelevant (es @ [e])) =
      (case e of QStatus st' \<Rightarrow> Some st' | _ \<Rightarrow> qu_previousStatus (updates_run isRelevant es))"
    by (cases e) (simp_all add: on_query_status_def on_query_message_def refresh_def Let_def)
  then show ?case
    unfolding ex_last_snoc [of es e "\<lambda>x. x = QStatus st" "\<lambda>k. \<forall>st'. (es @ [e]) ! k \<noteq> QStatus st'"] N snoc.IH [symmetric]
    by (cases e) auto
qed (simp add: new_updates_def)

lemma refreshes_last:
  "refreshes (es @ [e]) (length es) \<longleftrightarrow>
     e = QTimer \<or>
     (e = QStatus Connected \<and> (\<exists>st. qu_previousStatus (updates_run isRelevant es) = Some st \<and> st \<noteq> Connected))"
  unfolding refreshes_def previous_status by (auto simp: nth_append)

lemma timer_owes: "qu_timer (updates_run isRelevant es) \<longleftrightarrow> owes isRelevant es"
proof (induction es rule: rev_induct)
  case (snoc e es)
  then show ?case unfolding owes_snoc refreshes_last [of es e isRelevant]
    by (cases e) (auto simp: on_query_status_def on_query_message_def refresh_def Let_def)
qed (simp add: new_updates_def owes_def)

lemma push_unseen_new:
  "fst acc \<inter> {dp_id p} = {} \<Longrightarrow> distinct (map dp_id ps) \<Longrightarrow> p \<in> set ps \<Longrightarrow> p \<in> set (snd (foldl push_unseen acc ps))"
proof (induction ps arbitrary: acc)
  case (Cons x ps)
  show ?case
  proof (cases "x = p")
    case True
    then have "p \<in> set (snd (push_unseen acc x))" using Cons.prems(1) by (simp add: push_unseen_snd)
    then have "p \<in> set (take (length (snd (push_unseen acc x))) (snd (foldl push_unseen (push_unseen acc x) ps)))"
      by (simp add: push_unseen_prefix)
    then show ?thesis using in_set_takeD by fastforce
  next
    case False
    then have "dp_id x \<noteq> dp_id p" "p \<in> set ps" using Cons.prems(2,3) by auto
    then show ?thesis using Cons.IH [of "push_unseen acc x"] Cons.prems(1,2)
      by (auto simp: push_unseen_def split: prod.splits)
  qed
qed simp

lemma merge_keeps_new:
  assumes "distinct (map dp_id live)" and "p \<in> set live" and "dp_id p \<notin> dp_id ` set fetched"
  shows "p \<in> set (mergeDataPoints fetched live)"
proof -
  let ?a = "foldl push_unseen ({}, []) fetched"
  have "map dp_id (snd ?a) = uniq_from [] (map dp_id fetched)" using push_unseen_foldl [of "({}, [])" fetched] by simp
  then have "dp_id ` set (snd ?a) = dp_id ` set fetched" by (metis append_Nil set_map set_uniq_from Diff_empty list.set(1))
  then have "fst ?a = dp_id ` set fetched" using push_unseen_foldl_ok [of "({}, [])" fetched] by simp
  then show ?thesis using push_unseen_new [of ?a p live] assms by (simp add: mergeDataPoints_def)
qed

section \<open>Properties\<close>

definition mk_args :: "metric \<Rightarrow> nat \<Rightarrow> event_window \<Rightarrow> hook_args" where
  "mk_args m i w = \<lparr>ha_metric = m, ha_ref = i, ha_groupBy = Some [''host''], ha_window = w\<rparr>"



text \<open>On a fixed window a late point can be lost. When a delivery brings a new point inside the window
  and the next delivery, before the timeout, brings only points outside, the clean-up of the effect has
  cancelled the timeout and the effect returned without a new one: no request is pending although the
  last one was sent before the late point arrived.\<close>

theorem fixed_refetch_lost:
  assumes "ha_window a0 = Fixed f t" and "ha_window a1 = Fixed f t" and "ha_window a2 = Fixed f t"
    and "groupByKey a1 = groupByKey a0" and "groupByKey a2 = groupByKey a0"
    and "same_metric a1 a0" and "same_metric a2 a0"
    and "ha_ref a1 \<noteq> ha_ref a0" and "ha_ref a2 \<noteq> ha_ref a1"
    and "aggregate_wanted T a1 (mt_dataPoints (ha_metric a0)) = Some True"
    and "aggregate_wanted T a2 (mt_dataPoints (ha_metric a1)) = Some False"
    and "hook_mount (aggregate_hook T) now a0 = Some s0"
  shows "\<exists>s1 s2. hook_step (aggregate_hook T) s0 (Render now1 a1) = Some s1 \<and> rf_timer s1 \<and>
    hook_step (aggregate_hook T) s1 (Render now2 a2) = Some s2 \<and> \<not> rf_timer s2 \<and> rf_fetched s2 = ha_ref a0"
proof -
  obtain k where k: "aggregate_key T a0 = Some k" "aggregate_key T a1 = Some k" "aggregate_key T a2 = Some k"
    "rf_key s0 = k"
    using assms(12,1-7)
    by (auto simp: hook_mount_def aggregate_hook_def aggregate_key_def same_metric_def split: Option.bind_splits)
  obtain g0 g1 g2 where "ha_groupBy a0 = Some g0" "ha_groupBy a1 = Some g1" "ha_groupBy a2 = Some g2"
    using assms(4,5,10) by (auto simp: aggregate_wanted_def groupByKey_def split: if_splits)
  moreover have "rf_args s0 = a0" "rf_mounted s0 = args_points a0" "\<not> rf_cleanup s0" "\<not> rf_timer s0"
    "rf_fetched s0 = ha_ref a0"
    using assms(12) by (auto simp: hook_mount_def split: Option.bind_splits)
  ultimately show ?thesis using k assms(1-11)
    by (simp add: hook_render_def rerun_effect_def args_points_def aggregate_hook_def Let_def)
qed

theorem fixed_refetch_lost_witness:
  "let m = (\<lambda>ps. mk_metric ''m'' ps); w = Fixed ''0'' ''10'';
       a = (\<lambda>i ps. mk_args (m ps) i w);
       p1 = mk_point ''p1'' 5 1; p2 = mk_point ''p2'' 20 1
   in \<exists>s0 s1 s2. hook_mount (aggregate_hook decimal_temporal) 0 (a 0 []) = Some s0 \<and>
      hook_step (aggregate_hook decimal_temporal) s0 (Render 1 (a 1 [p1])) = Some s1 \<and> rf_timer s1 \<and>
      hook_step (aggregate_hook decimal_temporal) s1 (Render 2 (a 2 [p1, p2])) = Some s2 \<and> \<not> rf_timer s2 \<and>
      rf_fetched s2 = 0"
proof -
  let ?p1 = "mk_point ''p1'' 5 1" and ?p2 = "mk_point ''p2'' 20 1"
  let ?a = "\<lambda>i ps. mk_args (mk_metric ''m'' ps) i (Fixed ''0'' ''10'')"
  have w: "aggregate_wanted decimal_temporal (?a 1 [?p1]) [] = Some True"
    "aggregate_wanted decimal_temporal (?a 2 [?p1, ?p2]) [?p1] = Some False"
    by code_simp+
  have "hook_mount (aggregate_hook decimal_temporal) 0 (?a 0 []) \<noteq> None" by code_simp
  then obtain s0 where s0: "hook_mount (aggregate_hook decimal_temporal) 0 (?a 0 []) = Some s0" by blast
  have pts: "mt_dataPoints (mk_metric ''m'' ps) = ps" for ps by (simp add: mk_metric_def)
  show ?thesis
    using fixed_refetch_lost [OF _ _ _ _ _ _ _ _ _ _ _ s0, of "''0''" "''10''" "?a 1 [?p1]" "?a 2 [?p1, ?p2]" 1 2] w s0
    by (simp add: mk_args_def groupByKey_def same_metric_def pts mk_metric_def)
qed

text \<open>The points a metric's detail view shows of a fixed window are the fetched points inside it and the
  live points inside it that were not fetched, each id once.\<close>

theorem range_points_exact:
  assumes "inst_parse T f = Some fromNs" and "inst_parse T t = Some toNs"
  shows "\<exists>ps. range_points T fetched live (Fixed f t) = Some ps \<and> distinct (map dp_id ps) \<and>
    dp_id ` set ps = dp_id ` {p \<in> set (mergeDataPoints fetched live). fromNs \<le> dp_epochNs p \<and> dp_epochNs p < toNs} \<and>
    (\<forall>p \<in> set live. fromNs \<le> dp_epochNs p \<and> dp_epochNs p < toNs \<and> dp_id p \<notin> dp_id ` set fetched \<and>
       distinct (map dp_id live) \<longrightarrow> p \<in> set ps)"
  using assms by (auto simp: range_points_def merge_keeps_new distinct_map_filter)

theorem range_points_exact_witness:
  "\<exists>ps. range_points decimal_temporal [mk_point ''a'' 3 1] [mk_point ''b'' 5 1, mk_point ''c'' 20 1] (Fixed ''0'' ''10'') = Some ps \<and>
     mk_point ''b'' 5 1 \<in> set ps"
proof -
  have "inst_parse decimal_temporal ''0'' = Some 0" "inst_parse decimal_temporal ''10'' = Some 10" by code_simp+
  then show ?thesis
    using range_points_exact [of decimal_temporal "''0''" 0 "''10''" 10 "[mk_point ''a'' 3 1]"
        "[mk_point ''b'' 5 1, mk_point ''c'' 20 1]"] by (auto simp: mk_point_def)
qed



end
