(* ===== verification/JsRounding.thy ===== *)
theory JsRounding
  imports JsNumber
begin

text \<open>
  Order facts of the rounding to doubles: \<open>fl\<close> is monotone and odd, keeps the doubles it is
  given, and keeps every bound that is a double. The pixel and time computations of the charts
  rest on them.
\<close>

section \<open>Powers of two\<close>

lemma pow2_powi: "pow2 e = 2 powi e"
  by (simp add: pow2_def power_int_def inverse_eq_divide power_divide)

lemma pow2_add: "pow2 (a + b) = pow2 a * pow2 b"
  by (simp add: pow2_powi power_int_add)

lemma pow2_mono: "a \<le> b \<Longrightarrow> pow2 a \<le> pow2 b"
  unfolding pow2_powi by (rule power_int_increasing) simp_all

lemma pow2_of_nat: "pow2 (int n) = 2 ^ n"
  by (simp add: pow2_def)

lemma pow2_diff: "pow2 (a - b) = pow2 a / pow2 b"
  by (simp add: pow2_powi power_int_diff)

lemma pow2_less_cancel: "pow2 a < pow2 b \<Longrightarrow> a < b"
  by (metis linorder_not_le pow2_mono)

lemma pow2_int: "0 \<le> a \<Longrightarrow> pow2 a = of_int (2 ^ nat a)"
  by (simp add: pow2_def)

section \<open>The leading bit\<close>

lemma bin_exp_bounds:
  assumes "x \<noteq> 0"
  shows "pow2 (bin_exp x) \<le> \<bar>x\<bar>" and "\<bar>x\<bar> < pow2 (bin_exp x + 1)"
proof -
  obtain n d where nd: "quotient_of \<bar>x\<bar> = (n, d)" by fastforce
  have d: "0 < d" using nd by (rule quotient_of_denom_pos)
  have q: "\<bar>x\<bar> = of_int n / of_int d" using nd by (rule quotient_of_div)
  have "0 < rat_of_int n / of_int d" using assms by (simp flip: q)
  then have n: "0 < n" using d by (simp add: zero_less_divide_iff)
  let ?a = "bitlen n" and ?b = "bitlen d"
  have a: "1 \<le> ?a" and b: "1 \<le> ?b" using n d bitlen_nonneg [of n] bitlen_nonneg [of d] bitlen_eq_zero_iff [of n] bitlen_eq_zero_iff [of d]
    by simp_all
  have N: "pow2 (?a - 1) \<le> of_int n" "of_int n < pow2 ?a"
    using bitlen_bounds [OF n] a by (simp_all add: pow2_int flip: of_int_power)
  have D: "pow2 (?b - 1) \<le> of_int d" "of_int d < pow2 ?b"
    using bitlen_bounds [OF d] b by (simp_all add: pow2_int flip: of_int_power)
  let ?e = "?a - ?b"
  have "pow2 (?a - 1) / pow2 ?b < of_int n / of_int d"
    using N D d n by (intro frac_less2) simp_all
  then have lo: "pow2 (?e - 1) < \<bar>x\<bar>" by (simp add: q pow2_diff [symmetric] algebra_simps)
  have "of_int n / of_int d < pow2 ?a / pow2 (?b - 1)"
    using N D d n by (intro frac_less) simp_all
  then have hi: "\<bar>x\<bar> < pow2 (?e + 1)" by (simp add: q pow2_diff [symmetric] algebra_simps)
  have e: "bin_exp x = (if pow2 ?e \<le> \<bar>x\<bar> then ?e else ?e - 1)"
    by (simp add: bin_exp_def nd Let_def)
  show "pow2 (bin_exp x) \<le> \<bar>x\<bar>" "\<bar>x\<bar> < pow2 (bin_exp x + 1)"
    using lo hi by (auto simp: e)
qed

lemma bin_exp_mono: "x \<noteq> 0 \<Longrightarrow> \<bar>x\<bar> \<le> \<bar>y\<bar> \<Longrightarrow> bin_exp x \<le> bin_exp y"
  using bin_exp_bounds(1) [of x] bin_exp_bounds(2) [of y] pow2_less_cancel [of "bin_exp x" "bin_exp y + 1"]
  by (cases "y = 0") auto

lemma bin_exp_minus [simp]: "bin_exp (- x) = bin_exp x"
  by (simp add: bin_exp_def)

section \<open>Rounding to an integer\<close>

lemma round_half_even_mono: "x \<le> y \<Longrightarrow> round_half_even x \<le> round_half_even y"
proof -
  assume xy: "x \<le> y"
  have f: "\<lfloor>x\<rfloor> \<le> \<lfloor>y\<rfloor>" using xy by (rule floor_mono)
  have b: "\<lfloor>z\<rfloor> \<le> round_half_even z \<and> round_half_even z \<le> \<lfloor>z\<rfloor> + 1" for z
    by (simp add: round_half_even_def Let_def)
  show ?thesis
  proof (cases "\<lfloor>x\<rfloor> = \<lfloor>y\<rfloor>")
    case True
    then show ?thesis using xy by (auto simp: round_half_even_def Let_def)
  next
    case False
    then show ?thesis using f b [of x] b [of y] by linarith
  qed
qed

lemma round_half_even_le: "x \<le> of_int n \<Longrightarrow> round_half_even x \<le> n"
  using round_half_even_mono [of x "of_int n"] by simp

lemma round_half_even_ge: "of_int n \<le> x \<Longrightarrow> n \<le> round_half_even x"
  using round_half_even_mono [of "of_int n" x] by simp

lemma round_half_even_minus: "round_half_even (- x) = - round_half_even x"
proof (cases "x = of_int \<lfloor>x\<rfloor>")
  case True
  then show ?thesis by (metis of_int_minus round_half_even_of_int)
next
  case False
  then have "of_int \<lfloor>x\<rfloor> < x" using of_int_floor_le [of x] by linarith
  then have "\<lfloor>- x\<rfloor> = - \<lfloor>x\<rfloor> - 1"
    using floor_correct [of x] by (intro floor_unique) simp_all
  moreover define f where "f = \<lfloor>x\<rfloor>"
  ultimately have f: "\<lfloor>- x\<rfloor> = - f - 1" "\<lfloor>x\<rfloor> = f" by simp_all
  have "even (- f - 1) \<longleftrightarrow> odd f" by simp
  then show ?thesis unfolding round_half_even_def Let_def f by (simp add: algebra_simps)
qed

section \<open>Rounding to a double\<close>

definition fl_exp :: "rat \<Rightarrow> int" where
  "fl_exp x = max (bin_exp x - 52) (- 1074)"

lemma fl_eq: "x \<noteq> 0 \<Longrightarrow> fl x = of_int (round_half_even (x / pow2 (fl_exp x))) * pow2 (fl_exp x)"
  by (simp add: fl_def fl_exp_def Let_def)

lemma fl_minus: "fl (- x) = - fl x"
  by (cases "x = 0") (simp_all add: fl_eq fl_exp_def round_half_even_minus)

lemma fl_nonneg: "0 \<le> x \<Longrightarrow> 0 \<le> fl x"
  using round_half_even_ge [of 0 "x / pow2 (fl_exp x)"] by (cases "x = 0") (simp_all add: fl_eq less_imp_le)

text \<open>A power of two at or above the last place bounds the rounding from either side.\<close>

lemma fl_le_pow2:
  assumes "0 < x" and "x \<le> pow2 k" and "fl_exp x \<le> k"
  shows "fl x \<le> pow2 k"
proof -
  let ?e = "fl_exp x"
  have "x / pow2 ?e \<le> pow2 (k - ?e)" using assms(2) by (simp add: pow2_diff divide_right_mono less_imp_le)
  then have "round_half_even (x / pow2 ?e) \<le> 2 ^ nat (k - ?e)"
    using assms(3) by (intro round_half_even_le) (simp add: pow2_def)
  then have "of_int (round_half_even (x / pow2 ?e)) * pow2 ?e \<le> of_int (2 ^ nat (k - ?e)) * pow2 ?e"
    by (intro mult_right_mono) (simp_all add: less_imp_le del: of_int_power)
  also have "\<dots> = pow2 k" using assms(3) by (simp add: pow2_int [symmetric] pow2_add [symmetric] del: of_int_power)
  finally show ?thesis using assms(1) by (simp add: fl_eq)
qed

lemma fl_ge_pow2:
  assumes "0 < x" and "pow2 k \<le> x" and "fl_exp x \<le> k"
  shows "pow2 k \<le> fl x"
proof -
  let ?e = "fl_exp x"
  have "pow2 (k - ?e) \<le> x / pow2 ?e" using assms(2) by (simp add: pow2_diff divide_right_mono less_imp_le)
  then have "2 ^ nat (k - ?e) \<le> round_half_even (x / pow2 ?e)"
    using assms(3) by (intro round_half_even_ge) (simp add: pow2_def)
  then have "of_int (2 ^ nat (k - ?e)) * pow2 ?e \<le> of_int (round_half_even (x / pow2 ?e)) * pow2 ?e"
    by (intro mult_right_mono) (simp_all add: less_imp_le del: of_int_power)
  moreover have "of_int (2 ^ nat (k - ?e)) * pow2 ?e = pow2 k"
    using assms(3) by (simp add: pow2_int [symmetric] pow2_add [symmetric] del: of_int_power)
  ultimately show ?thesis using assms(1) by (simp only: fl_eq)
qed

lemma fl_mono_pos:
  assumes "0 < x" and "x \<le> y"
  shows "fl x \<le> fl y"
proof (cases "fl_exp x = fl_exp y")
  case True
  have "round_half_even (x / pow2 (fl_exp x)) \<le> round_half_even (y / pow2 (fl_exp x))"
    using assms(2) by (intro round_half_even_mono divide_right_mono) (simp_all add: less_imp_le)
  then show ?thesis using assms True by (simp add: fl_eq mult_right_mono less_imp_le)
next
  case False
  let ?k = "bin_exp y"
  have "bin_exp x \<le> ?k" using bin_exp_mono [of x y] assms by simp
  then have lt: "bin_exp x < ?k" "fl_exp y = ?k - 52" using False by (auto simp: fl_exp_def max_def split: if_splits)
  have "x \<le> pow2 ?k"
    using bin_exp_bounds(2) [of x] pow2_mono [of "bin_exp x + 1" ?k] lt assms by simp
  then have "fl x \<le> pow2 ?k" using assms lt by (intro fl_le_pow2) (simp_all add: fl_exp_def)
  also have "\<dots> \<le> fl y" using assms bin_exp_bounds(1) [of y] lt by (intro fl_ge_pow2) simp_all
  finally show ?thesis .
qed

lemma fl_mono: "x \<le> y \<Longrightarrow> fl x \<le> fl y"
proof -
  assume xy: "x \<le> y"
  consider "0 < x" | "x \<le> 0" "0 \<le> y" | "y < 0" using xy by linarith
  then show ?thesis
  proof cases
    case 1
    then show ?thesis using xy by (rule fl_mono_pos)
  next
    case 2
    then have "fl x \<le> 0" using fl_nonneg [of "- x"] by (simp add: fl_minus)
    also have "0 \<le> fl y" using 2 by (simp add: fl_nonneg)
    finally show ?thesis .
  next
    case 3
    then have "fl (- y) \<le> fl (- x)" using xy by (intro fl_mono_pos) simp_all
    then show ?thesis by (simp add: fl_minus)
  qed
qed

lemma fl_le_int: "x \<le> of_int n \<Longrightarrow> safe_int n \<Longrightarrow> fl x \<le> of_int n"
  using fl_mono [of x "of_int n"] by simp

lemma fl_ge_int: "of_int n \<le> x \<Longrightarrow> safe_int n \<Longrightarrow> of_int n \<le> fl x"
  using fl_mono [of "of_int n" x] by simp

text \<open>Integers of up to 53 bits, scaled by a power of two, are doubles.\<close>

lemma fl_dyadic:
  assumes "safe_int n" and "- 1074 \<le> e"
  shows "fl (of_int n * pow2 e) = of_int n * pow2 e"
proof (cases "n = 0")
  case False
  let ?x = "of_int n * pow2 e"
  have x: "?x \<noteq> 0" using False pow2_pos [of e] by (metis mult_eq_0_iff of_int_eq_0_iff less_irrefl)
  have "\<bar>of_int n :: rat\<bar> < of_int (2 ^ 53)"
    using assms(1) unfolding safe_int_def by (metis of_int_abs of_int_less_iff)
  then have "\<bar>of_int n :: rat\<bar> < pow2 53" by (simp add: pow2_def)
  moreover have "\<bar>pow2 e\<bar> = pow2 e" using pow2_pos [of e] by (simp only: abs_of_pos)
  ultimately have "\<bar>?x\<bar> < pow2 (53 + e)" by (simp add: abs_mult pow2_add)
  then have "pow2 (bin_exp ?x) < pow2 (53 + e)" using bin_exp_bounds(1) [OF x] by linarith
  then have le: "fl_exp ?x \<le> e" using pow2_less_cancel assms(2) by (fastforce simp: fl_exp_def)
  then have "?x / pow2 (fl_exp ?x) = of_int (n * 2 ^ nat (e - fl_exp ?x))"
    using pow2_int [of "e - fl_exp ?x"] by (simp add: pow2_diff flip: times_divide_eq_right)
  then have "fl ?x = ?x / pow2 (fl_exp ?x) * pow2 (fl_exp ?x)"
    unfolding fl_eq [OF x] by (simp only: round_half_even_of_int)
  then show ?thesis using pow2_pos [of "fl_exp ?x"] by (metis nonzero_eq_divide_eq less_irrefl times_divide_eq_left)
qed simp

text \<open>The floor of a rounded quotient of integers is their integer quotient, while both fit
  together into 53 bits.\<close>

lemma floor_fl_div:
  assumes "0 \<le> n" and "0 < d" and "d \<le> 2 ^ k" and "k \<le> 53" and "n div d < 2 ^ (53 - k)"
  shows "\<lfloor>fl (of_int n / of_int d)\<rfloor> = n div d"
proof -
  let ?q = "n div d" and ?K = "2 ^ k :: int"
  let ?m = "?K * ?q + (?K - 1)"
  have q: "0 \<le> ?q" using assms by (simp add: pos_imp_zdiv_nonneg_iff)
  have K: "1 \<le> ?K" by simp
  have "?K * (?q + 1) \<le> 2 ^ k * 2 ^ (53 - k)" using assms(5) by (intro mult_left_mono) simp_all
  also have "\<dots> = 2 ^ 53" using assms(4) by (simp flip: power_add)
  finally have mq: "?m < 2 ^ 53" by (simp add: algebra_simps)
  have "0 \<le> ?K * ?q" using q by simp
  with mq K have m: "safe_int ?m" by (simp add: safe_int_def)
  have "1 * ?q \<le> ?K * ?q" using q K by (intro mult_right_mono)
  then have sq: "safe_int ?q" using mq q K unfolding safe_int_def by linarith
  have n: "n = d * ?q + n mod d" by simp
  have r: "0 \<le> n mod d" "n mod d \<le> d - 1" using assms(2) by simp_all
  have lo: "d * ?q \<le> n" using n r by linarith
  have "?K * n = ?K * (d * ?q) + ?K * (n mod d)" using n by (metis distrib_left)
  also have "\<dots> \<le> ?K * (d * ?q) + ?K * (d - 1)" using r K by (intro add_left_mono mult_left_mono) simp_all
  also have "\<dots> \<le> ?K * (d * ?q) + d * (?K - 1)" using assms(3) by (simp add: algebra_simps)
  also have "\<dots> = d * ?m" by (simp add: algebra_simps)
  finally have hi: "?K * n \<le> d * ?m" .
  have pk: "pow2 (- int k) = 1 / of_int ?K" by (simp add: pow2_def)
  have "of_int ?q \<le> (of_int n / of_int d :: rat)"
    using lo assms(2) by (simp add: pos_le_divide_eq mult.commute flip: of_int_mult)
  then have low: "of_int ?q \<le> fl (of_int n / of_int d)"
    using sq by (intro fl_ge_int)
  have "(of_int (?K * n) :: rat) \<le> of_int (d * ?m)" using hi by (simp only: of_int_le_iff)
  then have "of_int ?K * of_int n \<le> of_int d * (of_int ?m :: rat)" by (simp only: of_int_mult)
  then have "of_int n / of_int d \<le> (of_int ?m * pow2 (- int k) :: rat)"
    using assms(2) K by (simp add: pk pos_divide_le_eq pos_le_divide_eq mult.commute del: of_int_diff of_int_add of_int_mult of_int_power)
  then have up: "fl (of_int n / of_int d) \<le> of_int ?m * pow2 (- int k)"
    using fl_mono fl_dyadic [OF m, of "- int k"] assms(4) by fastforce
  have "of_int ?m < (of_int (?K * (?q + 1)) :: rat)" by (simp only: of_int_less_iff) (simp add: algebra_simps)
  then have "of_int ?m * pow2 (- int k) < (of_int (?q + 1) :: rat)"
    unfolding pk by (simp add: pos_divide_less_eq mult.commute)
  with low up show ?thesis by (simp add: floor_unique)
qed

end
