(* ===== verification/MetricChart.thy ===== *)
theory MetricChart
  imports MetricSeries JsRounding
begin

text \<open>
  The metric chart of \<^verbatim>\<open>components/metrics/metric-chart.tsx\<close>: what it draws, the nearest
  point under the pointer, the drag that selects a time window, and the legend. What it
  renders is in \<open>ChartView\<close>; a pointer position arrives as a number of pixels, the time
  under the pointer as a date. Dates are milliseconds;
  \<open>date_iso\<close> is \<open>toISOString\<close>, \<open>date_ms\<close> the parser of the \<open>Date\<close> constructor.
\<close>

section \<open>What is drawn\<close>

definition eventWindowDomain ::
    "temporal \<Rightarrow> (string \<Rightarrow> int) \<Rightarrow> int \<Rightarrow> int list \<Rightarrow> event_window \<Rightarrow> (int \<times> int) option option" where
  "eventWindowDomain T date_ms now ts window =
     (if window = Live RAll then Some (timeRangeDomain ts RAll)
      else map_option (\<lambda>(f, t). Some (date_ms (the f), date_ms t)) (eventWindowBounds T now window))"

definition chart_series ::
    "temporal \<Rightarrow> (string \<Rightarrow> int) \<Rightarrow> (string \<Rightarrow> string \<Rightarrow> int) \<Rightarrow> (number \<Rightarrow> string) \<Rightarrow> metric \<Rightarrow>
     metric_facet option \<Rightarrow> agg_series list option \<Rightarrow> event_window \<Rightarrow> metric_series list option" where
  "chart_series T date_ms lc num_text metric f aggregatedSeries window =
     (case f of
        Some f \<Rightarrow>
          Some (case aggregatedSeries of
                  Some ss \<Rightarrow> buildAggregatedFacetSeries date_ms ss f window
                | None \<Rightarrow> [])
      | None \<Rightarrow>
          buildRawGroupedSeries T date_ms lc num_text (mt_dataPoints metric) (mt_type metric) window)"

definition selected_series :: "string set option \<Rightarrow> string \<Rightarrow> bool" where
  "selected_series selectedKeys key = (case selectedKeys of None \<Rightarrow> True | Some keys \<Rightarrow> key \<in> keys)"

definition visible_series ::
    "string set option \<Rightarrow> (int \<times> int) option \<Rightarrow> metric_series list \<Rightarrow> metric_series list" where
  "visible_series selectedKeys domain series =
     map (\<lambda>s. s\<lparr>ms_points :=
             (case domain of None \<Rightarrow> ms_points s | Some d \<Rightarrow> filterPointsInDomain cp_time (ms_points s) d)\<rparr>)
       (filter (\<lambda>s. selected_series selectedKeys (ms_key s)) series)"

text \<open>The vertical extent: 0 to 1 widened to every visible value, and a tenth on either side.\<close>

definition y_extent :: "chart_point list \<Rightarrow> number \<times> number" where
  "y_extent visiblePoints =
     foldl (\<lambda>(yMin, yMax) p.
         let yMin' = (if cp_value p < yMin then cp_value p else yMin)
         in (yMin', if cp_value p > yMax then cp_value p else yMax)) (0, 1) visiblePoints"

definition y_domain :: "chart_point list \<Rightarrow> number \<times> number" where
  "y_domain visiblePoints =
     (let (yMin, yMax) = y_extent visiblePoints;
          tenth = num_mul (num_sub yMax yMin) (fl (1 / 10));
          yPadding = (if tenth = 0 then 1 else tenth)
      in (num_sub yMin yPadding, num_add yMax yPadding))"

record margins =
  mg_top :: number
  mg_right :: number
  mg_bottom :: number
  mg_left :: number

definition MARGIN :: margins where
  "MARGIN = \<lparr>mg_top = 10, mg_right = 20, mg_bottom = 40, mg_left = 72\<rparr>"

definition inner_size :: "number \<Rightarrow> number \<Rightarrow> metric_series list \<Rightarrow> number \<times> number" where
  "inner_size width height series =
     (let svgHeight = (if length series > 0 then num_sub height 52 else height)
      in (num_sub (num_sub width (mg_left MARGIN)) (mg_right MARGIN),
          num_sub (num_sub svgHeight (mg_top MARGIN)) (mg_bottom MARGIN)))"

section \<open>Nearest points\<close>

definition time_dist :: "int \<Rightarrow> int \<Rightarrow> number" where
  "time_dist a b = \<bar>num_sub (of_int a) (of_int b)\<bar>"

text \<open>The distance \<open>None\<close> is infinity.\<close>

definition closer :: "number \<Rightarrow> number option \<Rightarrow> bool" where
  "closer d bestDist = (case bestDist of None \<Rightarrow> True | Some b \<Rightarrow> d < b)"

definition closest_step ::
    "int \<Rightarrow> chart_point option \<times> number option \<Rightarrow> chart_point \<Rightarrow> chart_point option \<times> number option" where
  "closest_step targetMs acc p =
     (let d = time_dist (cp_time p) targetMs in if closer d (snd acc) then (Some p, Some d) else acc)"

definition closestPoint :: "chart_point list \<Rightarrow> int \<Rightarrow> chart_point option" where
  "closestPoint points targetMs = fst (foldl (closest_step targetMs) (None, None) points)"

record tooltip_row =
  tt_label :: string
  tt_color :: string
  tt_value :: number

definition nearest_step :: "int \<Rightarrow> int \<times> number option \<Rightarrow> metric_series \<Rightarrow> int \<times> number option" where
  "nearest_step mouseTime acc s =
     (case closestPoint (ms_points s) mouseTime of
        None \<Rightarrow> acc
      | Some p \<Rightarrow>
          let d = time_dist (cp_time p) mouseTime
          in if closer d (snd acc) then (cp_time p, Some d) else acc)"

definition nearest_time :: "metric_series list \<Rightarrow> int \<Rightarrow> int" where
  "nearest_time visibleSeries mouseTime = fst (foldl (nearest_step mouseTime) (0, None) visibleSeries)"

text \<open>The tooltip shown, if any.\<close>

definition handleMouseMove :: "metric_series list \<Rightarrow> int \<Rightarrow> (int \<times> tooltip_row list) option" where
  "handleMouseMove visibleSeries mouseTime =
     (let nearestMs = nearest_time visibleSeries mouseTime;
          rows = List.map_filter (\<lambda>s.
              map_option (\<lambda>p. \<lparr>tt_label = ms_label s, tt_color = ms_color s, tt_value = cp_value p\<rparr>)
                (closestPoint (ms_points s) nearestMs)) visibleSeries
      in if length rows > 0 then Some (nearestMs, rows) else None)"

section \<open>Selecting a window\<close>

definition MIN_DRAG_DISTANCE_PX :: number where "MIN_DRAG_DISTANCE_PX = 4"

text \<open>\<open>new Date(v)\<close> drops the fraction of a millisecond.\<close>

definition trunc_ms :: "number \<Rightarrow> int" where
  "trunc_ms v = (if 0 \<le> v then \<lfloor>v\<rfloor> else \<lceil>v\<rceil>)"

definition clamp :: "number \<Rightarrow> number \<Rightarrow> number" where
  "clamp w x = max 0 (min w x)"

definition timeWindowFromDrag ::
    "(int \<Rightarrow> string) \<Rightarrow> int \<times> int \<Rightarrow> number \<Rightarrow> number \<Rightarrow> number \<Rightarrow> event_window option" where
  "timeWindowFromDrag date_iso domain startX endX width =
     (if width \<le> 0 \<or> \<bar>num_sub endX startX\<bar> < MIN_DRAG_DISTANCE_PX then None
      else
        let left = clamp width (min startX endX); right = clamp width (max startX endX)
        in if num_sub right left < MIN_DRAG_DISTANCE_PX then None
           else
             let domainStart = of_int (fst domain);
                 domainWidth = num_sub (of_int (snd domain)) domainStart
             in if domainWidth \<le> 0 then None
                else
                  let f = trunc_ms (num_add domainStart (num_mul (num_div left width) domainWidth));
                      t = trunc_ms (num_add domainStart (num_mul (num_div right width) domainWidth))
                  in if f \<ge> t then None else Some (Fixed (date_iso f) (date_iso t)))"

record drag =
  dr_start :: "number option"
  dr_selection :: "(number \<times> number) option"

text \<open>The offset inside the plot; without an element there is none.\<close>

definition plotX :: "number option \<Rightarrow> number \<Rightarrow> number option" where
  "plotX svgLeft clientX = map_option (\<lambda>l. num_sub (num_sub clientX l) (mg_left MARGIN)) svgLeft"

definition handlePointerDown ::
    "number \<Rightarrow> (int \<times> int) option \<Rightarrow> int \<Rightarrow> number option \<Rightarrow> drag \<Rightarrow> drag" where
  "handlePointerDown innerWidth domain button x s =
     (if button \<noteq> 0 \<or> domain = None then s
      else case x of
             None \<Rightarrow> s
           | Some x \<Rightarrow>
               let clampedX = clamp innerWidth x
               in s\<lparr>dr_start := Some clampedX, dr_selection := Some (clampedX, clampedX)\<rparr>)"

definition handlePointerMove :: "number \<Rightarrow> number option \<Rightarrow> drag \<Rightarrow> drag" where
  "handlePointerMove innerWidth x s =
     (case dr_start s of
        None \<Rightarrow> s
      | Some startX \<Rightarrow>
          (case x of None \<Rightarrow> s | Some x \<Rightarrow> s\<lparr>dr_selection := Some (startX, clamp innerWidth x)\<rparr>))"

text \<open>The window the drag asks for, if any.\<close>

definition finishDrag ::
    "(int \<Rightarrow> string) \<Rightarrow> number \<Rightarrow> (int \<times> int) option \<Rightarrow> number option \<Rightarrow> drag \<Rightarrow> drag \<times> event_window option" where
  "finishDrag date_iso innerWidth domain x s =
     (s\<lparr>dr_start := None, dr_selection := None\<rparr>,
      case (dr_start s, domain, x) of
        (Some startX, Some domain, Some x) \<Rightarrow> timeWindowFromDrag date_iso domain startX x innerWidth
      | _ \<Rightarrow> None)"

definition cancelDrag :: "drag \<Rightarrow> drag" where
  "cancelDrag s = s\<lparr>dr_start := None, dr_selection := None\<rparr>"

section \<open>The legend\<close>

text \<open>A click on a series, with or without the modifier key.\<close>

definition click_series :: "bool \<Rightarrow> metric_series list \<Rightarrow> string \<Rightarrow> string set option \<Rightarrow> string set option" where
  "click_series modifier series key previous =
     (if modifier then
        let next' = (case previous of None \<Rightarrow> set (map ms_key series) | Some keys \<Rightarrow> keys)
        in Some (if key \<in> next' then next' - {key} else insert key next')
      else Some {key})"

definition show_all :: "string set option \<Rightarrow> string set option" where
  "show_all previous = None"

section \<open>Lemmas\<close>

lemma clamp_bounds: "0 < w \<Longrightarrow> 0 \<le> clamp w x \<and> clamp w x \<le> w"
  by (simp add: clamp_def)

lemma clamp_mono: "x \<le> y \<Longrightarrow> clamp w x \<le> clamp w y"
  by (auto simp: clamp_def min_def max_def)

lemma num_sub_abs_commute: "\<bar>num_sub a b\<bar> = \<bar>num_sub b a\<bar>"
  using fl_minus [of "a - b"] by (simp add: num_sub_def)

lemma drag_commute: "timeWindowFromDrag date_iso domain x y w = timeWindowFromDrag date_iso domain y x w"
  unfolding timeWindowFromDrag_def num_sub_abs_commute [of y x] min.commute [of x y] max.commute [of x y] ..

lemma trunc_ms_between: "of_int a \<le> x \<Longrightarrow> x \<le> of_int b \<Longrightarrow> a \<le> trunc_ms x \<and> trunc_ms x \<le> b"
  by (auto simp: trunc_ms_def le_floor_iff floor_le_iff ceiling_le_iff le_ceiling_iff)

text \<open>A position inside the plot lies inside the domain.\<close>

lemma drag_time_bounds:
  assumes "0 < w" and "0 \<le> x" and "x \<le> w" and "a \<le> b" and "safe_int a" and "safe_int b" and "safe_int (b - a)"
  shows "of_int a \<le> num_add (of_int a) (num_mul (num_div x w) (num_sub (of_int b) (of_int a))) \<and>
    num_add (of_int a) (num_mul (num_div x w) (num_sub (of_int b) (of_int a))) \<le> of_int b"
proof -
  have w: "num_sub (of_int b) (of_int a) = of_int (b - a)"
    using assms(7) fl_of_int [of "b - a"] by (simp add: num_sub_def)
  have q: "0 \<le> num_div x w" "num_div x w \<le> 1"
    using assms(1-3) fl_nonneg [of "x / w"] fl_le_int [of "x / w" 1] by (simp_all add: num_div_def safe_int_def)
  have D: "0 \<le> (of_int (b - a) :: rat)" using assms(4) by simp
  have "num_div x w * of_int (b - a) \<le> of_int (b - a)" using mult_right_mono [OF q(2) D] by simp
  then have p: "0 \<le> num_mul (num_div x w) (of_int (b - a))" "num_mul (num_div x w) (of_int (b - a)) \<le> of_int (b - a)"
    using q(1) D assms(7) fl_nonneg fl_le_int unfolding num_mul_def by (simp_all del: of_int_diff)
  then show ?thesis unfolding w num_add_def
    using fl_ge_int [OF _ assms(5)] fl_le_int [OF _ assms(6)] by auto
qed

definition is_double :: "number \<Rightarrow> bool" where
  "is_double x \<longleftrightarrow> fl x = x"

text \<open>One step of either search keeps the nearest candidate seen so far.\<close>

lemma closest_fold:
  "foldl (closest_step t) (None, None) ps = (r, d) \<Longrightarrow>
     (if ps = [] then r = None \<and> d = None
      else \<exists>p \<in> set ps. r = Some p \<and> d = Some (time_dist (cp_time p) t) \<and>
        (\<forall>q \<in> set ps. time_dist (cp_time p) t \<le> time_dist (cp_time q) t))"
proof (induction ps arbitrary: r d rule: rev_induct)
  case (snoc x ps)
  obtain r0 d0 where f: "foldl (closest_step t) (None, None) ps = (r0, d0)" by fastforce
  show ?case
  proof (cases "ps = []")
    case True
    then show ?thesis using snoc.prems by (auto simp: closest_step_def closer_def Let_def)
  next
    case False
    then obtain p where p: "p \<in> set ps" "r0 = Some p" "d0 = Some (time_dist (cp_time p) t)"
      "\<forall>q \<in> set ps. time_dist (cp_time p) t \<le> time_dist (cp_time q) t"
      using snoc.IH [OF f] by auto
    have step: "closest_step t (r0, d0) x = (r, d)" using snoc.prems f by simp
    show ?thesis
    proof (cases "time_dist (cp_time x) t < time_dist (cp_time p) t")
      case True
      then have "r = Some x" "d = Some (time_dist (cp_time x) t)"
        using step p(2,3) by (simp_all add: closest_step_def closer_def Let_def)
      moreover have "\<forall>q \<in> set ps. time_dist (cp_time x) t \<le> time_dist (cp_time q) t" using True p(4) by force
      ultimately show ?thesis by simp
    next
      case False
      then have "r = Some p" "d = Some (time_dist (cp_time p) t)"
        using step p(2,3) by (simp_all add: closest_step_def closer_def Let_def)
      then show ?thesis using False p(1,4) by auto
    qed
  qed
qed simp

lemma closestPoint_spec:
  "closestPoint ps t = None \<longleftrightarrow> ps = []"
  "closestPoint ps t = Some p \<Longrightarrow>
     p \<in> set ps \<and> (\<forall>q \<in> set ps. time_dist (cp_time p) t \<le> time_dist (cp_time q) t)"
  using closest_fold [of t ps] unfolding closestPoint_def
  by (cases "foldl (closest_step t) (None, None) ps", auto split: if_splits)+

lemma nearest_fold:
  "foldl (nearest_step t) (0, None) vs = (ms, d) \<Longrightarrow>
     (if \<forall>s \<in> set vs. ms_points s = [] then d = None
      else (\<exists>s \<in> set vs. \<exists>p \<in> set (ms_points s). cp_time p = ms) \<and> d = Some (time_dist ms t) \<and>
        (\<forall>s \<in> set vs. \<forall>q \<in> set (ms_points s). time_dist ms t \<le> time_dist (cp_time q) t))"
proof (induction vs arbitrary: ms d rule: rev_induct)
  case (snoc x vs)
  obtain ms0 d0 where f: "foldl (nearest_step t) (0, None) vs = (ms0, d0)" by fastforce
  note ih = snoc.IH [OF f]
  have step: "nearest_step t (ms0, d0) x = (ms, d)" using snoc.prems f by simp
  show ?case
  proof (cases "closestPoint (ms_points x) t")
    case None
    then have "(ms, d) = (ms0, d0)" using step by (simp add: nearest_step_def)
    moreover have "ms_points x = []" using None closestPoint_spec(1) by blast
    ultimately show ?thesis using ih by auto
  next
    case (Some p)
    have p: "p \<in> set (ms_points x)" "\<forall>q \<in> set (ms_points x). time_dist (cp_time p) t \<le> time_dist (cp_time q) t"
      using closestPoint_spec(2) [OF Some] by simp_all
    then have ne: "ms_points x \<noteq> []" by auto
    show ?thesis
    proof (cases "\<forall>s \<in> set vs. ms_points s = []")
      case True
      then have "cp_time p = ms" "d = Some (time_dist ms t)"
        using ih step Some by (auto simp: nearest_step_def closer_def Let_def)
      then show ?thesis using True p ne by auto
    next
      case False
      then have ih: "\<exists>s \<in> set vs. \<exists>p \<in> set (ms_points s). cp_time p = ms0" "d0 = Some (time_dist ms0 t)"
        "\<forall>s \<in> set vs. \<forall>q \<in> set (ms_points s). time_dist ms0 t \<le> time_dist (cp_time q) t"
        using ih by auto
      show ?thesis
      proof (cases "time_dist (cp_time p) t < time_dist ms0 t")
        case True
        then have "cp_time p = ms" "d = Some (time_dist ms t)"
          using ih step Some by (auto simp: nearest_step_def closer_def Let_def)
        moreover have "\<forall>s \<in> set vs. \<forall>q \<in> set (ms_points s). time_dist (cp_time p) t \<le> time_dist (cp_time q) t"
          using True ih(3) by force
        ultimately show ?thesis using p ne by auto
      next
        case False
        then have "ms = ms0" "d = d0" using ih step Some by (auto simp: nearest_step_def closer_def Let_def)
        moreover have "\<forall>q \<in> set (ms_points x). time_dist ms0 t \<le> time_dist (cp_time q) t" using False p(2) by force
        ultimately show ?thesis using ih ne by auto
      qed
    qed
  qed
qed simp

lemma y_extent_bounds:
  assumes "list_all (is_double \<circ> cp_value) ps"
  shows "\<exists>lo hi. y_extent ps = (lo, hi) \<and> lo \<le> 0 \<and> 1 \<le> hi \<and> is_double lo \<and> is_double hi \<and>
    (\<forall>p \<in> set ps. lo \<le> cp_value p \<and> cp_value p \<le> hi)"
  using assms
proof (induction ps rule: rev_induct)
  case Nil
  show ?case using fl_of_int [of 1] by (simp add: y_extent_def is_double_def safe_int_def)
next
  case (snoc x ps)
  then obtain lo hi where "y_extent ps = (lo, hi)" "lo \<le> 0" "1 \<le> hi" "is_double lo" "is_double hi"
    "\<forall>p \<in> set ps. lo \<le> cp_value p \<and> cp_value p \<le> hi" by auto
  moreover have "is_double (cp_value x)" using snoc.prems by simp
  ultimately show ?case by (force simp: y_extent_def Let_def)
qed

section \<open>Properties\<close>

text \<open>C38: a window selected by dragging lies inside the chart: its bounds are the texts of two instants of
  the drawn domain, the first before the second, and dragging the other way selects the same window.\<close>

theorem drag_window_in_domain:
  assumes "safe_int a" and "safe_int b" and "safe_int (b - a)"
    and "timeWindowFromDrag date_iso (a, b) startX endX width = Some win"
  shows "(\<exists>f t. win = Fixed (date_iso f) (date_iso t) \<and> a \<le> f \<and> f < t \<and> t \<le> b) \<and>
    timeWindowFromDrag date_iso (a, b) endX startX width = Some win"
proof -
  define left where "left = clamp width (min startX endX)"
  define right where "right = clamp width (max startX endX)"
  define pos where "pos = (\<lambda>x. num_add (of_int a) (num_mul (num_div x width) (num_sub (of_int b) (of_int a))))"
  have w: "0 < width" and d: "0 < num_sub (of_int b) (of_int a)"
    and win: "trunc_ms (pos left) < trunc_ms (pos right)"
      "win = Fixed (date_iso (trunc_ms (pos left))) (date_iso (trunc_ms (pos right)))"
    using assms(4) by (auto simp: timeWindowFromDrag_def left_def right_def pos_def Let_def split: if_splits)
  have "a \<le> b" using d assms(3) fl_of_int [of "b - a"] by (simp add: num_sub_def)
  then have "a \<le> trunc_ms (pos x) \<and> trunc_ms (pos x) \<le> b" if "0 \<le> x" "x \<le> width" for x
    using drag_time_bounds [OF w that _ assms(1-3)] by (intro trunc_ms_between) (simp_all add: pos_def)
  then have "a \<le> trunc_ms (pos left)" "trunc_ms (pos right) \<le> b"
    using clamp_bounds [OF w] by (simp_all add: left_def right_def)
  moreover have "timeWindowFromDrag date_iso (a, b) endX startX width = Some win"
    using assms(4) by (simp only: drag_commute [of date_iso _ endX])
  ultimately show ?thesis using win by blast
qed

theorem drag_window_in_domain_witness:
  "\<exists>f t. timeWindowFromDrag int_text (0, 1000) 60 10 100 = Some (Fixed (int_text f) (int_text t)) \<and> 0 \<le> f \<and> f < t \<and> t \<le> 1000"
proof -
  have "timeWindowFromDrag int_text (0, 1000) 60 10 100 \<noteq> None" by code_simp
  then obtain win where "timeWindowFromDrag int_text (0, 1000) 60 10 100 = Some win" by blast
  then show ?thesis
    using drag_window_in_domain [of 0 1000 int_text 60 10 100 win] by (auto simp: safe_int_def)
qed

text \<open>The tooltip is absent exactly when no visible series has a point. Otherwise its time is that of a
  visible point, no visible point is nearer to the pointer, and it has one row per visible series with
  points, in the order of the series, each with the value of a point of that series nearest to that time.\<close>

theorem tooltip_nearest:
  "(handleMouseMove vs t = None \<longleftrightarrow> (\<forall>s \<in> set vs. ms_points s = [])) \<and>
   (\<forall>ms rows. handleMouseMove vs t = Some (ms, rows) \<longrightarrow>
      (\<exists>s \<in> set vs. \<exists>p \<in> set (ms_points s). cp_time p = ms) \<and>
      (\<forall>s \<in> set vs. \<forall>q \<in> set (ms_points s). time_dist ms t \<le> time_dist (cp_time q) t) \<and>
      list_all2 (\<lambda>row s. tt_label row = ms_label s \<and>
        (\<exists>p \<in> set (ms_points s). tt_value row = cp_value p \<and>
           (\<forall>q \<in> set (ms_points s). time_dist (cp_time p) ms \<le> time_dist (cp_time q) ms)))
        rows (filter (\<lambda>s. ms_points s \<noteq> []) vs))"
proof -
  let ?row = "\<lambda>ms s. map_option (\<lambda>p. \<lparr>tt_label = ms_label s, tt_color = ms_color s, tt_value = cp_value p\<rparr>)
                (closestPoint (ms_points s) ms)"
  let ?rows = "\<lambda>ms. List.map_filter (?row ms) vs"
  have rows: "list_all2 (\<lambda>row s. tt_label row = ms_label s \<and>
        (\<exists>p \<in> set (ms_points s). tt_value row = cp_value p \<and>
           (\<forall>q \<in> set (ms_points s). time_dist (cp_time p) ms \<le> time_dist (cp_time q) ms)))
        (List.map_filter (?row ms) us) (filter (\<lambda>s. ms_points s \<noteq> []) us)" for ms us
  proof (induction us)
    case (Cons u us)
    then show ?case
      using closestPoint_spec [of "ms_points u" ms]
      by (cases "closestPoint (ms_points u) ms") (auto simp: List.map_filter_simps)
  qed (simp add: List.map_filter_simps)
  then have len: "length (?rows ms) = length (filter (\<lambda>s. ms_points s \<noteq> []) vs)" for ms
    by (rule list_all2_lengthD)
  have none: "(\<forall>s \<in> set vs. ms_points s = []) \<longleftrightarrow> length (filter (\<lambda>s. ms_points s \<noteq> []) vs) = 0"
    by (auto simp: filter_empty_conv)
  obtain ms0 d0 where f: "foldl (nearest_step t) (0, None) vs = (ms0, d0)" by fastforce
  then have h: "handleMouseMove vs t = (if length (?rows ms0) > 0 then Some (ms0, ?rows ms0) else None)"
    by (simp add: handleMouseMove_def Let_def nearest_time_def)
  show ?thesis
  proof (cases "\<forall>s \<in> set vs. ms_points s = []")
    case True
    then have "handleMouseMove vs t = None" unfolding h len using none by simp
    then show ?thesis using True by simp
  next
    case False
    then have "handleMouseMove vs t = Some (ms0, ?rows ms0)" unfolding h len using none by simp
    then show ?thesis using False nearest_fold [OF f] rows [of ms0 vs] by simp
  qed
qed

theorem tooltip_nearest_witness:
  "let vs = [\<lparr>ms_key = ''a'', ms_label = ''a'', ms_color = [], ms_points = [\<lparr>cp_time = 3, cp_value = 1\<rparr>, \<lparr>cp_time = 8, cp_value = 2\<rparr>]\<rparr>]
   in \<exists>ms rows. handleMouseMove vs 7 = Some (ms, rows) \<and> (\<forall>s \<in> set vs. \<forall>q \<in> set (ms_points s). time_dist ms 7 \<le> time_dist (cp_time q) 7)"
proof -
  let ?vs = "[\<lparr>ms_key = ''a'', ms_label = ''a'', ms_color = [],
    ms_points = [\<lparr>cp_time = 3, cp_value = 1\<rparr>, \<lparr>cp_time = 8, cp_value = 2\<rparr>]\<rparr>]"
  have "handleMouseMove ?vs 7 \<noteq> None" by (subst tooltip_nearest [THEN conjunct1]) simp
  then obtain ms rows where "handleMouseMove ?vs 7 = Some (ms, rows)" by auto
  with tooltip_nearest [THEN conjunct2, of ?vs 7] show ?thesis unfolding Let_def by blast
qed

text \<open>The vertical axis covers 0, 1 and the value of every visible point.\<close>

theorem y_domain_covers:
  assumes "list_all (is_double \<circ> cp_value) ps"
  shows "let (lo, hi) = y_domain ps
    in lo \<le> 0 \<and> 1 \<le> hi \<and> (\<forall>p \<in> set ps. lo \<le> cp_value p \<and> cp_value p \<le> hi)"
proof -
  obtain lo hi where e: "y_extent ps = (lo, hi)" "lo \<le> 0" "1 \<le> hi" "fl lo = lo" "fl hi = hi"
    "\<forall>p \<in> set ps. lo \<le> cp_value p \<and> cp_value p \<le> hi"
    using y_extent_bounds [OF assms] by (auto simp: is_double_def)
  define tenth where "tenth = num_mul (num_sub hi lo) (fl (1 / 10))"
  define pad where "pad = (if tenth = 0 then 1 else tenth)"
  have "0 \<le> num_sub hi lo" using e(2,3) by (simp add: num_sub_def fl_nonneg)
  then have "0 \<le> tenth" by (simp add: tenth_def num_mul_def fl_nonneg)
  then have pad: "0 \<le> pad" by (simp add: pad_def)
  have "y_domain ps = (num_sub lo pad, num_add hi pad)" by (simp add: y_domain_def e(1) tenth_def pad_def Let_def)
  moreover have "num_sub lo pad \<le> lo" using fl_mono [of "lo - pad" lo] pad e(4) by (simp add: num_sub_def)
  moreover have "hi \<le> num_add hi pad" using fl_mono [of hi "hi + pad"] pad e(5) by (simp add: num_add_def)
  ultimately show ?thesis using e(2,3,6) by force
qed

theorem y_domain_covers_witness:
  "\<exists>lo hi. y_domain [\<lparr>cp_time = 0, cp_value = - 3\<rparr>] = (lo, hi) \<and> lo \<le> - 3 \<and> 1 \<le> hi"
proof -
  have "is_double (- 3)" by code_simp
  then show ?thesis using y_domain_covers [of "[\<lparr>cp_time = 0, cp_value = - 3\<rparr>]"] by (auto split: prod.splits)
qed

end
