(* ===== verification/Formatting.thy ===== *)
theory Formatting
  imports Telemetry JsText JsRounding
begin

text \<open>
  The texts of values: \<^verbatim>\<open>lib/format.ts\<close>, \<^verbatim>\<open>lib/format-metric.ts\<close>
  and the tones of \<^verbatim>\<open>lib/tones.ts\<close>. The text of a number that is printed as it is
  (\<open>num_text\<close>), the compact format of the internationalisation library, the parser of
  dates and the parts of a local time are parameters. The two code points for micro, of which one is beyond
  the Latin-1 range, are both the Latin-1 one.
\<close>

section \<open>Fixed decimals\<close>

definition pad_left :: "nat \<Rightarrow> string \<Rightarrow> string" where
  "pad_left n s = replicate (n - length s) (CHR ''0'') @ s"

text \<open>\<open>x.toFixed(f)\<close>: the nearest multiple of \<open>10 ^ - f\<close>, a tie away from zero; from
  \<open>1e21\<close> on the text of the number itself.\<close>

definition fixed_units :: "nat \<Rightarrow> number \<Rightarrow> nat" where
  "fixed_units f x = nat \<lfloor>\<bar>x\<bar> * 10 ^ f + 1 / 2\<rfloor>"

definition minus_sign :: "number \<Rightarrow> string" where
  "minus_sign x = (if x < 0 then ''-'' else [])"

definition toFixed :: "(number \<Rightarrow> string) \<Rightarrow> nat \<Rightarrow> number \<Rightarrow> string" where
  "toFixed num_text f x =
     (if 10 ^ 21 \<le> \<bar>x\<bar> then minus_sign x @ num_text \<bar>x\<bar>
      else
        let ds = nat_text (fixed_units f x)
        in minus_sign x @
           (if f = 0 then ds
            else
              let padded = pad_left (f + 1) ds; k = length padded - f
              in take k padded @ ''.'' @ drop k padded))"

section \<open>Durations\<close>

definition MICRO :: string where
  "MICRO = [char_of (181 :: nat)]"

definition formatDuration :: "(number \<Rightarrow> string) \<Rightarrow> number \<Rightarrow> string" where
  "formatDuration num_text ns =
     (if ns < 1000 then num_text ns @ ''ns''
      else if ns < 1000000 then toFixed num_text 1 (num_div ns 1000) @ MICRO @ ''s''
      else if ns < 1000000000 then toFixed num_text 1 (num_div ns 1000000) @ ''ms''
      else toFixed num_text 2 (num_div ns 1000000000) @ ''s'')"

definition createDurationFormatter :: "(number \<Rightarrow> string) \<Rightarrow> number \<Rightarrow> number \<Rightarrow> string" where
  "createDurationFormatter num_text totalNs =
     (if totalNs < 1000 then (\<lambda>ns. int_text (math_round ns) @ ''ns'')
      else if totalNs < 1000000 then (\<lambda>ns. toFixed num_text 1 (num_div ns 1000) @ MICRO @ ''s'')
      else if totalNs < 1000000000 then (\<lambda>ns. toFixed num_text 1 (num_div ns 1000000) @ ''ms'')
      else (\<lambda>ns. toFixed num_text 2 (num_div ns 1000000000) @ ''s''))"

text \<open>\<open>Math.floor(a / b)\<close>, for a divisor that is a literal of the code.\<close>

definition floor_div :: "number \<Rightarrow> number \<Rightarrow> int" where
  "floor_div a b = \<lfloor>num_div a b\<rfloor>"

definition formatElapsedMs :: "number \<Rightarrow> string" where
  "formatElapsedMs ms =
     (let sgn = minus_sign ms; a = \<bar>ms\<bar>
      in if a < 1000 then sgn @ int_text (math_round a) @ ''ms''
         else
           let totalSeconds = floor_div a 1000
           in if totalSeconds < 60 then sgn @ int_text totalSeconds @ ''s''
              else
                let totalMinutes = floor_div (of_int totalSeconds) 60; seconds = totalSeconds mod 60
                in if totalMinutes < 60
                   then sgn @ int_text totalMinutes @ ''m'' @
                     (if seconds = 0 then [] else '' '' @ int_text seconds @ ''s'')
                   else
                     let totalHours = floor_div (of_int totalMinutes) 60; minutes = totalMinutes mod 60
                     in if totalHours < 24
                        then sgn @ int_text totalHours @ ''h'' @
                          (if minutes = 0 then [] else '' '' @ int_text minutes @ ''m'')
                        else
                          let days = floor_div (of_int totalHours) 24; hours = totalHours mod 24
                          in sgn @ int_text days @ ''d'' @
                             (if hours = 0 then [] else '' '' @ int_text hours @ ''h''))"

section \<open>Instants\<close>

text \<open>
  The time a text stands for, in milliseconds, is \<open>None\<close> where the parser gives an invalid
  date; every comparison with it is then false.
\<close>

definition formatRelativeTime :: "(string \<Rightarrow> int option) \<Rightarrow> int \<Rightarrow> string \<Rightarrow> string" where
  "formatRelativeTime date_parse now stamp =
     (case date_parse stamp of
        None \<Rightarrow> ''NaNd ago''
      | Some t \<Rightarrow>
          let diff = now - t; future = diff < 0; a = \<bar>diff\<bar>;
              say = (\<lambda>n u. if future then ''in '' @ int_text n @ u else int_text n @ u @ '' ago'')
          in if a < 1000 then ''now''
             else if a < 60000 then say (floor_div (of_int a) 1000) ''s''
             else if a < 3600000 then say (floor_div (of_int a) 60000) ''m''
             else if a < 86400000 then say (floor_div (of_int a) 3600000) ''h''
             else say (floor_div (of_int a) 86400000) ''d'')"

record local_time =
  lt_year :: int
  lt_month :: int
  lt_date :: int
  lt_hours :: int
  lt_minutes :: int
  lt_seconds :: int

text \<open>\<open>getMonth\<close> counts from zero.\<close>

definition pad2 :: "int \<Rightarrow> string" where
  "pad2 n = pad_left 2 (int_text n)"

definition formatDateTime :: "(string \<Rightarrow> local_time option) \<Rightarrow> string \<Rightarrow> string" where
  "formatDateTime local_parts stamp =
     (case local_parts stamp of
        None \<Rightarrow> ''NaN-NaN-NaN NaN:NaN:NaN''
      | Some d \<Rightarrow>
          int_text (lt_year d) @ ''-'' @ pad2 (lt_month d + 1) @ ''-'' @ pad2 (lt_date d) @ '' '' @
          pad2 (lt_hours d) @ '':'' @ pad2 (lt_minutes d) @ '':'' @ pad2 (lt_seconds d))"

section \<open>Ids\<close>

definition ZERO_TRACE_ID :: string where
  "ZERO_TRACE_ID = ''00000000000000000000000000000000''"

definition isZeroId :: "string \<Rightarrow> bool" where
  "isZeroId i \<longleftrightarrow> i = [] \<or> i = ZERO_TRACE_ID \<or> i = ''0000000000000000''"

definition shortId :: "string \<Rightarrow> int \<Rightarrow> string" where
  "shortId i len = js_slice 0 len i"

section \<open>Metric values\<close>

definition fixed :: "(number \<Rightarrow> string) \<Rightarrow> number \<Rightarrow> string" where
  "fixed num_text n =
     (let a = \<bar>n\<bar>
      in if 100 \<le> a then toFixed num_text 0 n
         else if 10 \<le> a then toFixed num_text 1 n
         else toFixed num_text 2 n)"

text \<open>The loop of \<open>formatBytes\<close> over the units that are left.\<close>

fun byte_scale :: "number \<Rightarrow> string list \<Rightarrow> number \<times> string" where
  "byte_scale n [] = (n, [])"
| "byte_scale n [u] = (n, u)"
| "byte_scale n (u # v # us) = (if 1000 \<le> n then byte_scale (num_div n 1000) (v # us) else (n, u))"

definition BYTE_UNITS :: "string list" where
  "BYTE_UNITS = [''B'', ''KB'', ''MB'', ''GB'', ''TB'', ''PB'']"

definition formatBytes :: "(number \<Rightarrow> string) \<Rightarrow> number \<Rightarrow> string" where
  "formatBytes num_text v =
     (let (n, u) = byte_scale \<bar>v\<bar> BYTE_UNITS
      in minus_sign v @ fixed num_text n @ '' '' @ u)"

definition formatSeconds :: "(number \<Rightarrow> string) \<Rightarrow> number \<Rightarrow> string" where
  "formatSeconds num_text v =
     (let a = \<bar>v\<bar>
      in if a = 0 then ''0 s''
         else if 60 \<le> a
         then
           let mins = floor_div a 60; secs = num_sub a (num_mul (of_int mins) 60)
           in minus_sign v @ int_text mins @ ''m '' @ toFixed num_text 0 secs @ ''s''
         else if 1 \<le> a then fixed num_text v @ '' s''
         else if fl (1 / 1000) \<le> a then fixed num_text (num_mul v 1000) @ '' ms''
         else fixed num_text (num_mul v 1000000) @ '' '' @ MICRO @ ''s'')"

definition formatMillis :: "(number \<Rightarrow> string) \<Rightarrow> number \<Rightarrow> string" where
  "formatMillis num_text v =
     (let a = \<bar>v\<bar>
      in if 1000 \<le> a then fixed num_text (num_div v 1000) @ '' s''
         else if 1 \<le> a then fixed num_text v @ '' ms''
         else fixed num_text (num_mul v 1000) @ '' '' @ MICRO @ ''s'')"

definition formatMetricValue ::
    "(number \<Rightarrow> string) \<Rightarrow> (number \<Rightarrow> string) \<Rightarrow> number \<Rightarrow> string \<Rightarrow> string" where
  "formatMetricValue num_text compactFmt v u =
     (if u = ''By'' then formatBytes num_text v
      else if u = ''By/s'' then formatBytes num_text v @ ''/s''
      else if u = ''s'' then formatSeconds num_text v
      else if u = ''ms'' then formatMillis num_text v
      else if u = ''%'' then compactFmt v @ ''%''
      else if u = [] \<or> u = ''1'' then compactFmt v
      else if startsWith u ''{'' \<and> endsWith u ''}'' then compactFmt v @ '' '' @ js_slice 1 (- 1) u
      else compactFmt v @ '' '' @ u)"

section \<open>Tones\<close>

datatype tone =
    Debug_tone | Info_tone | Fatal_tone | Success_tone | Destructive_tone | Warning_tone
  | Primary_tone | Muted_tone | Trace_tone | Metric_tone | Log_tone

definition traceStatusTone :: "span_status \<Rightarrow> tone" where
  "traceStatusTone status =
     (case status of Ok \<Rightarrow> Success_tone | Error \<Rightarrow> Destructive_tone | Unset \<Rightarrow> Muted_tone)"

text \<open>
  \<open>toUpperCase\<close> on the Latin-1 range: the sharp s becomes two letters, and the two letters whose
  upper case is beyond the range are kept.
\<close>

definition is_lower :: "char \<Rightarrow> bool" where
  "is_lower c \<longleftrightarrow>
     97 \<le> char_code c \<and> char_code c \<le> 122 \<or>
     224 \<le> char_code c \<and> char_code c \<le> 254 \<and> char_code c \<noteq> 247"

definition upper_text :: "char \<Rightarrow> string" where
  "upper_text c =
     (if char_code c = 223 then ''SS'' else if is_lower c then [char_of (char_code c - 32)] else [c])"

definition toUpperCase :: "string \<Rightarrow> string" where
  "toUpperCase s = concat (map upper_text s)"

definition level_names :: "string list" where
  "level_names = [''TRACE'', ''DEBUG'', ''INFO'', ''WARN'', ''ERROR'', ''FATAL'']"

text \<open>The replacement of a level name followed by one of the digits 2 to 4 by the name.\<close>

definition strip_level :: "string \<Rightarrow> string" where
  "strip_level s =
     (if s \<noteq> [] \<and> last s \<in> set ''234'' \<and> butlast s \<in> set level_names then butlast s else s)"

definition severity_tones :: "tone list" where
  "severity_tones = [Muted_tone, Debug_tone, Info_tone, Warning_tone, Destructive_tone, Fatal_tone]"

definition number_tone :: "number option \<Rightarrow> tone" where
  "number_tone severityNumber =
     (case severityNumber of
        None \<Rightarrow> Muted_tone
      | Some n \<Rightarrow>
          if of_int \<lfloor>n\<rfloor> = n \<and> 1 \<le> n \<and> n \<le> 24 then severity_tones ! nat (floor_div (num_sub n 1) 4)
          else Muted_tone)"

definition severityTone :: "string option \<Rightarrow> number option \<Rightarrow> tone" where
  "severityTone severity severityNumber =
     (let s = map_option (\<lambda>s. strip_level (toUpperCase (trim s))) severity
      in if s = Some ''TRACE'' then Muted_tone
         else if s = Some ''DEBUG'' then Debug_tone
         else if s = Some ''INFO'' then Info_tone
         else if s = Some ''WARN'' \<or> s = Some ''WARNING'' then Warning_tone
         else if s = Some ''ERROR'' then Destructive_tone
         else if s = Some ''FATAL'' \<or> s = Some ''CRITICAL'' then Fatal_tone
         else number_tone severityNumber)"

section \<open>The digits of a fixed text\<close>

fun low_digits :: "nat \<Rightarrow> nat \<Rightarrow> string" where
  "low_digits 0 n = []"
| "low_digits (Suc f) n = low_digits f (n div 10) @ [char_of (48 + n mod 10)]"

lemma length_low_digits [simp]: "length (low_digits f n) = f"
  by (induction f arbitrary: n) simp_all

lemma char_of_zero [simp]: "char_of (48 :: nat) = CHR ''0''" "char_of (49 :: nat) = CHR ''1''"
  by code_simp+

lemma pad_left_snoc:
  "0 < k \<Longrightarrow> pad_left (Suc k) (nat_text n) = pad_left k (nat_text (n div 10)) @ [char_of (48 + n mod 10)]"
proof (cases "n < 10")
  case True
  moreover assume "0 < k"
  ultimately show ?thesis
    by (cases k) (simp_all add: pad_left_def nat_text.simps [of n] nat_text.simps [of 0] replicate_append_same)
qed (simp add: pad_left_def nat_text.simps [of n])

lemma pad_left_split: "pad_left (Suc f) (nat_text n) = nat_text (n div 10 ^ f) @ low_digits f n"
proof (induction f arbitrary: n)
  case 0
  then show ?case by (cases "nat_text n") (simp_all add: pad_left_def)
next
  case (Suc f)
  then show ?case by (simp add: pad_left_snoc div_mult2_eq [of n 10])
qed

lemma low_digits_read: "nat_of_text 0 (nat_text (n div 10 ^ f) @ low_digits f n) = n"
proof (induction f arbitrary: n)
  case (Suc f)
  have "nat_of_text 0 (nat_text (n div 10 ^ Suc f) @ low_digits (Suc f) n) =
      nat_of_text (nat_of_text 0 (nat_text (n div 10 div 10 ^ f) @ low_digits f (n div 10)))
        [char_of (48 + n mod 10)]"
    by (simp add: div_mult2_eq [of n 10] nat_of_text_append)
  also have "\<dots> = n" by (simp only: Suc.IH) simp
  finally show ?case .
qed simp

lemma fixed_units_nearest: "\<bar>of_nat (fixed_units f x) - \<bar>x\<bar> * 10 ^ f\<bar> \<le> 1 / 2"
proof -
  define y where "y = \<bar>x\<bar> * 10 ^ f"
  have "0 \<le> y" by (simp add: y_def)
  then have "of_nat (nat \<lfloor>y + 1 / 2\<rfloor>) = (of_int \<lfloor>y + 1 / 2\<rfloor> :: rat)" by (simp add: of_nat_nat)
  then show ?thesis using floor_correct [of "y + 1 / 2"] unfolding fixed_units_def y_def [symmetric] by linarith
qed

lemma toFixed_digits:
  assumes "\<bar>x\<bar> < 10 ^ 21"
  shows "toFixed num_text f x =
    minus_sign x @ nat_text (fixed_units f x div 10 ^ f) @
    (if f = 0 then [] else CHR ''.'' # low_digits f (fixed_units f x))"
proof (cases f)
  case (Suc k)
  let ?n = "fixed_units f x"
  have "pad_left (f + 1) (nat_text ?n) = nat_text (?n div 10 ^ f) @ low_digits f ?n"
    using pad_left_split [of f ?n] by simp
  then show ?thesis using assms Suc by (simp only: toFixed_def Let_def) simp
qed (use assms in \<open>simp add: toFixed_def\<close>)

section \<open>Properties\<close>

lemma floor_div_int:
  assumes "0 \<le> n" and "0 < d" and "d \<le> 2 ^ k" and "k \<le> 53" and "n div d < 2 ^ (53 - k)"
  shows "floor_div (of_int n) (of_int d) = n div d"
  using floor_fl_div [OF assms] by (simp add: floor_div_def num_div_def)

text \<open>The time of an elapsed time in the unit a text names.\<close>

definition unit_ms :: "string \<Rightarrow> int" where
  "unit_ms u =
     (if u = ''s'' then 1000 else if u = ''m'' then 60000 else if u = ''h'' then 3600000 else 86400000)"

text \<open>Two parts of a mixed radix number, as the division steps of the code give them.\<close>

lemma two_parts:
  fixes n :: int
  assumes "0 < u" and "0 < r"
  shows "n div u div r * (r * u) + n div u mod r * u \<le> n"
    and "n < n div u div r * (r * u) + (n div u mod r + 1) * u"
proof -
  have "n div u div r * (r * u) + n div u mod r * u = (n div u div r * r + n div u mod r) * u"
    by (simp only: distrib_right mult.assoc)
  also have "\<dots> = n div u * u" by (simp only: div_mult_mod_eq)
  finally have e: "n div u div r * (r * u) + n div u mod r * u = n div u * u" .
  have m: "n div u * u + n mod u = n" by (rule div_mult_mod_eq)
  have d: "(n div u mod r + 1) * u = n div u mod r * u + u" by (simp only: distrib_right mult_1)
  have "0 \<le> n mod u" "n mod u < u" using assms(1) by simp_all
  with e m show "n div u div r * (r * u) + n div u mod r * u \<le> n"
    "n < n div u div r * (r * u) + (n div u mod r + 1) * u" unfolding d by linarith+
qed

text \<open>A text of one or two parts and the time it stands for.\<close>

definition elapsed_text :: "int \<Rightarrow> string \<Rightarrow> bool" where
  "elapsed_text m w \<longleftrightarrow>
     (\<exists>a b u v. w = int_text a @ u @ (if b = 0 then [] else '' '' @ int_text b @ v) \<and>
        (u, v) \<in> {(''s'', ''s''), (''m'', ''s''), (''h'', ''m''), (''d'', ''h'')} \<and>
        1 \<le> a \<and> 0 \<le> b \<and> b * unit_ms v < unit_ms u \<and>
        a * unit_ms u + b * unit_ms v \<le> m \<and> m < a * unit_ms u + (b + 1) * unit_ms v)"

lemma elapsed_textI:
  assumes "(u, v) \<in> {(''m'', ''s''), (''h'', ''m''), (''d'', ''h'')}"
    and "unit_ms u = r * unit_ms v" and "0 < r" and "r \<le> m div unit_ms v"
  shows "elapsed_text m (int_text (m div unit_ms v div r) @ u @
    (if m div unit_ms v mod r = 0 then [] else '' '' @ int_text (m div unit_ms v mod r) @ v))"
proof -
  let ?s = "m div unit_ms v"
  have v: "0 < unit_ms v" by (simp add: unit_ms_def)
  have "1 \<le> ?s div r" using pos_imp_zdiv_pos_iff [OF assms(3), of ?s] assms(4) by linarith
  moreover have "0 \<le> ?s mod r" "?s mod r < r" using assms(3) by simp_all
  moreover from this(2) v have "?s mod r * unit_ms v < unit_ms u" by (simp add: assms(2))
  ultimately show ?thesis
    using two_parts [OF v assms(3), of m] assms(1)
    unfolding elapsed_text_def assms(2) [symmetric] by blast
qed

text \<open>A span of at least a second is shown as one or two parts, of a unit and the next smaller one, that
  are its exact value but for less than one of the smaller unit: a part never reaches the unit above it,
  and the shown value never exceeds the span.\<close>

theorem formatElapsedMs_reads:
  assumes "1000 \<le> \<bar>n\<bar>" and "\<bar>n\<bar> \<le> 8640000000000000"
  shows "\<exists>w. formatElapsedMs (of_int n) = minus_sign (of_int n) @ w \<and> elapsed_text \<bar>n\<bar> w"
proof -
  define m where "m = \<bar>n\<bar>"
  define s where "s = m div 1000"
  have m: "1000 \<le> m" "m \<le> 8640000000000000" using assms by (simp_all add: m_def)
  have abs: "\<bar>of_int n :: rat\<bar> = of_int m" by (simp add: m_def)
  have small: "\<not> (of_int m :: rat) < 1000" "\<not> m < 1000" using m(1) by simp_all
  have s: "1 \<le> s" "s \<le> 8640000000000" using m unfolding s_def by (linarith, linarith)
  have fs: "floor_div (of_int m) 1000 = s"
    using floor_div_int [of m 1000 10] m s by (simp add: s_def)
  have fm: "floor_div (of_int s) 60 = s div 60" using floor_div_int [of s 60 10] s by simp
  have fh: "floor_div (of_int (s div 60)) 60 = s div 60 div 60"
    using floor_div_int [of "s div 60" 60 10] s by simp
  have fd: "floor_div (of_int (s div 60 div 60)) 24 = s div 60 div 60 div 24"
    using floor_div_int [of "s div 60 div 60" 24 10] s by simp
  have minutes: "m div 60000 = s div 60" and hours: "m div 3600000 = s div 60 div 60"
    by (simp_all add: s_def flip: zdiv_zmult2_eq)
  note f = formatElapsedMs_def Let_def abs small fs fm fh fd if_False
  consider "s < 60" | "60 \<le> s" "s div 60 < 60" | "60 \<le> s" "60 \<le> s div 60" "s div 60 div 60 < 24"
    | "60 \<le> s" "60 \<le> s div 60" "24 \<le> s div 60 div 60" by linarith
  then show ?thesis
  proof cases
    case 1
    then have "formatElapsedMs (of_int n) = minus_sign (of_int n) @ int_text s @ ''s''" by (simp add: f)
    moreover have "s * 1000 \<le> m" "m < (s + 1) * 1000" unfolding s_def by presburger+
    then have "elapsed_text m (int_text s @ ''s'')"
      using s(1) unfolding elapsed_text_def by (intro exI [of _ s] exI [of _ 0]) (auto simp: unit_ms_def)
    ultimately show ?thesis by (simp add: m_def)
  next
    case 2
    then have "formatElapsedMs (of_int n) = minus_sign (of_int n) @ int_text (s div 60) @ ''m'' @
          (if s mod 60 = 0 then [] else '' '' @ int_text (s mod 60) @ ''s'')"
      by (simp add: f)
    moreover have "elapsed_text m (int_text (s div 60) @ ''m'' @
          (if s mod 60 = 0 then [] else '' '' @ int_text (s mod 60) @ ''s''))"
      using elapsed_textI [of "''m''" "''s''" 60 m] 2 by (simp add: unit_ms_def s_def cong: if_cong)
    ultimately show ?thesis unfolding m_def by blast
  next
    case 3
    then have "formatElapsedMs (of_int n) = minus_sign (of_int n) @ int_text (s div 60 div 60) @ ''h'' @
          (if s div 60 mod 60 = 0 then [] else '' '' @ int_text (s div 60 mod 60) @ ''m'')"
      by (simp add: f)
    moreover have "elapsed_text m (int_text (s div 60 div 60) @ ''h'' @
          (if s div 60 mod 60 = 0 then [] else '' '' @ int_text (s div 60 mod 60) @ ''m''))"
      using elapsed_textI [of "''h''" "''m''" 60 m] 3 by (simp add: unit_ms_def minutes cong: if_cong)
    ultimately show ?thesis unfolding m_def by blast
  next
    case 4
    then have "formatElapsedMs (of_int n) = minus_sign (of_int n) @ int_text (s div 60 div 60 div 24) @ ''d'' @
          (if s div 60 div 60 mod 24 = 0 then [] else '' '' @ int_text (s div 60 div 60 mod 24) @ ''h'')"
      by (simp add: f)
    moreover have "elapsed_text m (int_text (s div 60 div 60 div 24) @ ''d'' @
          (if s div 60 div 60 mod 24 = 0 then [] else '' '' @ int_text (s div 60 div 60 mod 24) @ ''h''))"
      using elapsed_textI [of "''d''" "''h''" 24 m] 4 by (simp add: unit_ms_def hours cong: if_cong)
    ultimately show ?thesis unfolding m_def by blast
  qed
qed

theorem formatElapsedMs_reads_witness:
  "formatElapsedMs 3725999 = ''1h 2m'' \<and>
   (\<exists>w. formatElapsedMs (of_int 3725999) = minus_sign (of_int 3725999) @ w \<and> elapsed_text \<bar>3725999\<bar> w)"
proof
  show "formatElapsedMs 3725999 = ''1h 2m''" by code_simp
qed (rule formatElapsedMs_reads, simp_all)

text \<open>The time since or until an instant is its whole number of the largest unit it reaches, what lies
  ahead is told from what has passed, and an instant that is no date has no number.\<close>

lemma whole_units:
  fixes m :: int
  assumes "0 < u" and "u \<le> m"
  shows "1 \<le> m div u" "m div u * u \<le> m" "m < (m div u + 1) * u"
proof -
  show "1 \<le> m div u" using pos_imp_zdiv_pos_iff [OF assms(1), of m] assms(2) by linarith
  have "m div u * u + m mod u = m" by (rule div_mult_mod_eq)
  moreover have "0 \<le> m mod u" "m mod u < u" using assms(1) by simp_all
  moreover have "(m div u + 1) * u = m div u * u + u" by (simp only: distrib_right mult_1)
  ultimately show "m div u * u \<le> m" "m < (m div u + 1) * u" by linarith+
qed

theorem formatRelativeTime_reads:
  assumes "date_parse i = Some t" and "1000 \<le> \<bar>now - t\<bar>" and "\<bar>now - t\<bar> \<le> 4320000000000000"
  shows "\<exists>a u. formatRelativeTime date_parse now i =
      (if now < t then ''in '' @ int_text a @ u else int_text a @ u @ '' ago'') \<and>
    u \<in> {''s'', ''m'', ''h'', ''d''} \<and> 1 \<le> a \<and> a * unit_ms u \<le> \<bar>now - t\<bar> \<and> \<bar>now - t\<bar> < (a + 1) * unit_ms u"
proof -
  define m where "m = \<bar>now - t\<bar>"
  define say where "say = (\<lambda>a u. if now < t then ''in '' @ int_text a @ u else int_text a @ u @ '' ago'')"
  have m: "1000 \<le> m" "m \<le> 4320000000000000" using assms by (simp_all add: m_def)
  have "m div 86400000 \<le> 4320000000000000 div 86400000" using m(2) by (rule zdiv_mono1) simp
  then have d: "floor_div (of_int m) 86400000 = m div 86400000"
    using floor_div_int [of m 86400000 27] m by simp
  have h: "floor_div (of_int m) 3600000 = m div 3600000" if "m < 86400000"
    using floor_div_int [of m 3600000 22] m that by simp
  have mi: "floor_div (of_int m) 60000 = m div 60000" if "m < 3600000"
    using floor_div_int [of m 60000 16] m that by simp
  have se: "floor_div (of_int m) 1000 = m div 1000" if "m < 60000"
    using floor_div_int [of m 1000 10] m that by simp
  have f: "formatRelativeTime date_parse now i =
      (if m < 60000 then say (m div 1000) ''s''
       else if m < 3600000 then say (m div 60000) ''m''
       else if m < 86400000 then say (m div 3600000) ''h''
       else say (m div 86400000) ''d'')"
    using assms(1) m(1) se mi h d
    by (simp add: formatRelativeTime_def Let_def m_def [symmetric] say_def)
  have "\<exists>u. formatRelativeTime date_parse now i = say (m div unit_ms u) u \<and>
      u \<in> {''s'', ''m'', ''h'', ''d''} \<and> unit_ms u \<le> m"
  proof -
    consider "m < 60000" | "60000 \<le> m" "m < 3600000" | "3600000 \<le> m" "m < 86400000" | "86400000 \<le> m"
      by linarith
    then show ?thesis
    proof cases
      case 1 then show ?thesis using m f by (intro exI [of _ "''s''"]) (simp add: unit_ms_def)
    next
      case 2 then show ?thesis using f by (intro exI [of _ "''m''"]) (simp add: unit_ms_def)
    next
      case 3 then show ?thesis using f by (intro exI [of _ "''h''"]) (simp add: unit_ms_def)
    next
      case 4 then show ?thesis using f by (intro exI [of _ "''d''"]) (simp add: unit_ms_def)
    qed
  qed
  then obtain u where u: "formatRelativeTime date_parse now i = say (m div unit_ms u) u"
      "u \<in> {''s'', ''m'', ''h'', ''d''}" "unit_ms u \<le> m" by blast
  moreover have "0 < unit_ms u" by (simp add: unit_ms_def)
  note whole_units [OF this u(3)]
  ultimately show ?thesis unfolding m_def say_def by blast
qed

theorem formatRelativeTime_reads_witness:
  "\<exists>a u. formatRelativeTime (\<lambda>_. Some 90000) 0 ''t'' = ''in '' @ int_text a @ u \<and>
     a * unit_ms u \<le> 90000"
  using formatRelativeTime_reads [of "\<lambda>_. Some 90000" "''t''" 90000 0] by fastforce

text \<open>The text of a duration is the nearest decimal, with one or two places, of the duration in the
  unit shown; below a microsecond it is the number itself.\<close>

theorem formatDuration_nearest:
  assumes "1000 \<le> ns" and "num_div ns 1000000000 < 10 ^ 21"
  shows "\<exists>f d u n. formatDuration num_text ns = nat_text (n div 10 ^ f) @ ''.'' @ low_digits f n @ u \<and>
    (f, d, u) \<in> {(1, 1000, MICRO @ ''s''), (1, 1000000, ''ms''), (2, 1000000000, ''s'')} \<and>
    nat_of_text 0 (nat_text (n div 10 ^ f) @ low_digits f n) = n \<and>
    \<bar>of_nat n - num_div ns d * 10 ^ f\<bar> \<le> 1 / 2"
proof -
  have main: "toFixed num_text f (num_div ns d) @ u =
        nat_text (n div 10 ^ f) @ ''.'' @ low_digits f n @ u \<and>
      nat_of_text 0 (nat_text (n div 10 ^ f) @ low_digits f n) = n \<and>
      \<bar>of_nat n - num_div ns d * 10 ^ f\<bar> \<le> 1 / 2"
    if "n = fixed_units f (num_div ns d)" "0 < f" "0 < d" "num_div ns d < 10 ^ 21" for f d u n
  proof -
    let ?x = "num_div ns d"
    have x: "0 \<le> ?x" using assms(1) that(3) by (simp add: num_div_def fl_nonneg)
    then have "minus_sign ?x = []" "\<bar>?x\<bar> = ?x" by (simp_all add: minus_sign_def)
    moreover have "nat_of_text 0 (nat_text (n div 10 ^ f) @ low_digits f n) = n"
      by (rule low_digits_read)
    ultimately show ?thesis
      using toFixed_digits [of ?x num_text f] fixed_units_nearest [of f ?x] that by simp
  qed
  have le: "num_div ns (of_int d) < 10 ^ 21" if "ns < 1000 * of_int d" "0 < d" for d
  proof -
    have "ns / of_int d \<le> of_int 1000" using that by (simp add: pos_divide_le_eq)
    then have "num_div ns (of_int d) \<le> of_int 1000" unfolding num_div_def by (rule fl_le_int) (simp add: safe_int_def)
    then show ?thesis by simp
  qed
  consider "ns < 1000000" | "1000000 \<le> ns" "ns < 1000000000" | "1000000000 \<le> ns" by linarith
  then show ?thesis
  proof cases
    case 1
    then have "formatDuration num_text ns = toFixed num_text 1 (num_div ns 1000) @ MICRO @ ''s''"
      using assms(1) by (simp add: formatDuration_def)
    with main [OF refl, of 1 1000 "MICRO @ ''s''"] le [of 1000] 1 show ?thesis
      by (intro exI [of _ 1] exI [of _ 1000] exI [of _ "MICRO @ ''s''"] exI [of _ "fixed_units 1 (num_div ns 1000)"]) simp
  next
    case 2
    then have "formatDuration num_text ns = toFixed num_text 1 (num_div ns 1000000) @ ''ms''"
      by (simp add: formatDuration_def)
    with main [OF refl, of 1 1000000 "''ms''"] le [of 1000000] 2 show ?thesis
      by (intro exI [of _ 1] exI [of _ 1000000] exI [of _ "''ms''"] exI [of _ "fixed_units 1 (num_div ns 1000000)"]) simp
  next
    case 3
    then have "formatDuration num_text ns = toFixed num_text 2 (num_div ns 1000000000) @ ''s''"
      by (simp add: formatDuration_def)
    with main [OF refl, of 2 1000000000 "''s''"] assms(2) 3 show ?thesis
      by (intro exI [of _ 2] exI [of _ 1000000000] exI [of _ "''s''"] exI [of _ "fixed_units 2 (num_div ns 1000000000)"]) simp
  qed
qed

theorem formatDuration_nearest_witness:
  "formatDuration (\<lambda>_. []) 2345678 = ''2.3ms'' \<and>
   (\<exists>f u n. formatDuration (\<lambda>_. []) 2345678 = nat_text (n div 10 ^ f) @ ''.'' @ low_digits f n @ u)"
proof
  show "formatDuration (\<lambda>_. []) 2345678 = ''2.3ms''" by code_simp
  have "(1000 :: number) \<le> 2345678" "num_div 2345678 1000000000 < 10 ^ 21" by code_simp+
  from formatDuration_nearest [OF this, of "\<lambda>_. []"]
  show "\<exists>f u n. formatDuration (\<lambda>_. []) 2345678 = nat_text (n div 10 ^ f) @ ''.'' @ low_digits f n @ u"
    by blast
qed

text \<open>A severity text that, trimmed and in any case, is one of the six level names, alone or followed by
  its rank 2 to 4, has the tone of the number of that level and rank; a text that is none of the known
  names leaves the tone to the number.\<close>

definition rank_text :: "nat \<Rightarrow> string" where
  "rank_text k = (if k = 0 then [] else nat_text (k + 1))"

lemma level_tones:
  "\<forall>i \<in> set [0..<6]. \<forall>k \<in> set [0..<4].
     number_tone (Some (of_int (4 * int i + int k + 1))) = severity_tones ! i \<and>
     strip_level (level_names ! i @ rank_text k) = level_names ! i"
  by code_simp

lemma level_name_tones:
  "\<forall>i \<in> set [0..<6].
     severityTone (Some (level_names ! i)) None = severity_tones ! i"
  by code_simp

theorem severityTone_levels:
  "(\<forall>i < 6. \<forall>k < 4. \<forall>s. toUpperCase (trim s) = level_names ! i @ rank_text k \<longrightarrow>
      severityTone (Some s) n = number_tone (Some (of_int (4 * int i + int k + 1)))) \<and>
   (\<forall>s. strip_level (toUpperCase (trim s)) \<notin> set level_names \<union> {''WARNING'', ''CRITICAL''} \<longrightarrow>
      severityTone (Some s) n = severityTone None n) \<and>
   severityTone None n = number_tone n"
proof (intro conjI allI impI)
  fix i k s assume ik: "i < (6 :: nat)" "k < (4 :: nat)"
    and s: "toUpperCase (trim s) = level_names ! i @ rank_text k"
  have l: "number_tone (Some (of_int (4 * int i + int k + 1))) = severity_tones ! i"
      "strip_level (toUpperCase (trim s)) = level_names ! i"
    using level_tones ik s by simp_all
  have "i = 0 \<or> i = 1 \<or> i = 2 \<or> i = 3 \<or> i = 4 \<or> i = 5" using ik by auto
  then show "severityTone (Some s) n = number_tone (Some (of_int (4 * int i + int k + 1)))"
    unfolding l(1) severityTone_def Let_def option.map l(2)
    by (elim disjE) (simp_all add: level_names_def severity_tones_def)
qed (simp_all add: severityTone_def level_names_def)

theorem severityTone_levels_witness:
  "severityTone (Some '' warn3 '') None = number_tone (Some 15) \<and> number_tone (Some 15) = Warning_tone"
proof
  have "toUpperCase (trim '' warn3 '') = level_names ! 3 @ rank_text 2" by code_simp
  with severityTone_levels [of None, THEN conjunct1, rule_format, of 3 2 "'' warn3 ''"]
  show "severityTone (Some '' warn3 '') None = number_tone (Some 15)" by simp
qed code_simp

text \<open>The unit is chosen before the value is rounded, so a value just below the next unit is shown as a
  full one: \<open>1m 60s\<close>, \<open>1000 KB\<close>, \<open>1000.0ms\<close>.\<close>

lemma toFixed_eval:
  assumes "\<lfloor>\<bar>x\<bar> * 10 ^ f + 1 / 2\<rfloor> = n" and "\<bar>x\<bar> < 10 ^ 21"
  shows "toFixed num_text f x = minus_sign x @ nat_text (nat n div 10 ^ f) @
    (if f = 0 then [] else CHR ''.'' # low_digits f (nat n))"
  using toFixed_digits [OF assms(2)] assms(1) by (simp add: fixed_units_def)

theorem unit_chosen_before_rounding:
  "formatSeconds num_text (fl (1197 / 10)) = ''1m 60s'' \<and>
   formatBytes num_text 999600 = ''1000 KB'' \<and>
   formatDuration num_text 999999999 = ''1000.0ms''"
proof (intro conjI)
  show "formatSeconds num_text (fl (1197 / 10)) = ''1m 60s''" by code_simp
  have t: "\<bar>num_div 999600 1000\<bar> < 10 ^ 21" "\<lfloor>\<bar>num_div 999600 1000\<bar> * 10 ^ 0 + 1 / 2\<rfloor> = 1000"
    "minus_sign (num_div 999600 1000) = []" "byte_scale \<bar>999600\<bar> BYTE_UNITS = (num_div 999600 1000, ''KB'')"
    "100 \<le> \<bar>num_div 999600 1000\<bar>"
    by code_simp+
  have d: "nat_text 1000 = ''1000''" "nat_text 10000 = ''10000''" by (simp_all add: nat_text.simps)
  show "formatBytes num_text 999600 = ''1000 KB''"
    using t toFixed_eval [OF t(2,1), of num_text] d by (simp add: formatBytes_def fixed_def minus_sign_def)
  have u: "\<bar>num_div 999999999 1000000\<bar> < 10 ^ 21" "\<lfloor>\<bar>num_div 999999999 1000000\<bar> * 10 ^ 1 + 1 / 2\<rfloor> = 10000"
    "minus_sign (num_div 999999999 1000000) = []"
    by code_simp+
  show "formatDuration num_text 999999999 = ''1000.0ms''"
    using toFixed_eval [OF u(2,1), of num_text] d u(3) by (simp add: formatDuration_def)
qed

end
