(* ===== verification/ChartView.thy ===== *)
theory ChartView
  imports MetricChart MetricCatalog Formatting
begin

text \<open>
  The state of the metric chart and what it renders, the rest of
  \<^verbatim>\<open>components/metrics/metric-chart.tsx\<close>: the handlers as one machine over the drag, the
  selected series and the tooltip, and the picture as a value. The scales of the drawing library are
  an argument: positions and ticks of a domain and a range. The tooltip state is that of its
  \<open>useTooltip\<close>, where hiding drops the data.
\<close>

section \<open>State and handlers\<close>

record scales =
  sc_x :: "int \<times> int \<Rightarrow> number \<times> number \<Rightarrow> int \<Rightarrow> number"
  sc_invert :: "int \<times> int \<Rightarrow> number \<times> number \<Rightarrow> number \<Rightarrow> int"
  sc_y :: "number \<times> number \<Rightarrow> number \<times> number \<Rightarrow> number \<Rightarrow> number"
  sc_yTicks :: "number \<times> number \<Rightarrow> int \<Rightarrow> number list"
  sc_xTicks :: "int \<times> int \<Rightarrow> int \<Rightarrow> int list"

record chart_tip =
  tip_time :: int
  tip_rows :: "tooltip_row list"
  tip_left :: number
  tip_top :: number

record chart_state = drag +
  ch_selectedKeys :: "string set option"
  ch_tooltip :: "chart_tip option"

definition new_chart :: chart_state where
  "new_chart = \<lparr>dr_start = None, dr_selection = None, ch_selectedKeys = None, ch_tooltip = None\<rparr>"

text \<open>The values a render hands to its handlers: the series, the domain, the size measured, the time
  of the render and the place of the element on the screen.\<close>

record chart_scene =
  cs_series :: "metric_series list"
  cs_domain :: "(int \<times> int) option"
  cs_now :: int
  cs_width :: number
  cs_height :: number
  cs_svg :: "(number \<times> number) option"

definition chart_innerWidth :: "chart_scene \<Rightarrow> number" where
  "chart_innerWidth c = fst (inner_size (cs_width c) (cs_height c) (cs_series c))"

definition chart_innerHeight :: "chart_scene \<Rightarrow> number" where
  "chart_innerHeight c = snd (inner_size (cs_width c) (cs_height c) (cs_series c))"

text \<open>Without a domain the scale has the time of the render at both ends.\<close>

definition x_domain :: "chart_scene \<Rightarrow> int \<times> int" where
  "x_domain c = (case cs_domain c of Some d \<Rightarrow> d | None \<Rightarrow> (cs_now c, cs_now c))"

definition xScale :: "scales \<Rightarrow> chart_scene \<Rightarrow> int \<Rightarrow> number" where
  "xScale S c = sc_x S (x_domain c) (0, chart_innerWidth c)"

definition chart_visible :: "chart_scene \<Rightarrow> string set option \<Rightarrow> metric_series list" where
  "chart_visible c keys = visible_series keys (cs_domain c) (cs_series c)"

definition chart_plotX :: "chart_scene \<Rightarrow> number \<Rightarrow> number option" where
  "chart_plotX c clientX = plotX (map_option fst (cs_svg c)) clientX"

definition hover_chart :: "scales \<Rightarrow> chart_scene \<Rightarrow> number \<Rightarrow> number \<Rightarrow> chart_state \<Rightarrow> chart_state" where
  "hover_chart S c clientX clientY s =
     (case cs_svg c of
        None \<Rightarrow> s
      | Some (svgLeft, svgTop) \<Rightarrow>
          let x = num_sub (num_sub clientX svgLeft) (mg_left MARGIN);
              mouseTime = sc_invert S (x_domain c) (0, chart_innerWidth c) x
          in case handleMouseMove (chart_visible c (ch_selectedKeys s)) mouseTime of
               None \<Rightarrow> s
             | Some (nearestMs, rows) \<Rightarrow>
                 s\<lparr>ch_tooltip := Some
                     \<lparr>tip_time = nearestMs, tip_rows = rows,
                      tip_left = num_add (xScale S c nearestMs) (mg_left MARGIN),
                      tip_top = num_sub clientY svgTop\<rparr>\<rparr>)"

definition hide_tooltip :: "chart_state \<Rightarrow> chart_state" where
  "hide_tooltip s = s\<lparr>ch_tooltip := None\<rparr>"

text \<open>A drag begins with the primary button, on a chart that has a domain and is mounted; the tooltip
  goes with it.\<close>

definition begins_drag :: "chart_scene \<Rightarrow> int \<Rightarrow> number \<Rightarrow> bool" where
  "begins_drag c button clientX \<longleftrightarrow> button = 0 \<and> cs_domain c \<noteq> None \<and> chart_plotX c clientX \<noteq> None"

definition set_drag :: "drag \<Rightarrow> chart_state \<Rightarrow> chart_state" where
  "set_drag d s = s\<lparr>dr_start := dr_start d, dr_selection := dr_selection d\<rparr>"

datatype chart_event =
    Mouse_move number number
  | Mouse_leave
  | Pointer_pressed int number
  | Pointer_moved number
  | Pointer_released number
  | Pointer_lost
  | Key_pressed string
  | Series_clicked bool string
  | Show_all_clicked

datatype chart_output = Window_picked event_window | Default_prevented

fun chart_step ::
    "(int \<Rightarrow> string) \<Rightarrow> scales \<Rightarrow> chart_scene \<Rightarrow> chart_event \<Rightarrow> chart_state \<Rightarrow>
     chart_state \<times> chart_output option" where
  "chart_step date_iso S c (Mouse_move x y) s =
     (if dr_selection s \<noteq> None then s else hover_chart S c x y s, None)"
| "chart_step date_iso S c Mouse_leave s = (hide_tooltip s, None)"
| "chart_step date_iso S c (Pointer_pressed button x) s =
     (let s' = set_drag (handlePointerDown (chart_innerWidth c) (cs_domain c) button (chart_plotX c x) (drag.truncate s)) s
      in (if begins_drag c button x then hide_tooltip s' else s', None))"
| "chart_step date_iso S c (Pointer_moved x) s =
     (set_drag (handlePointerMove (chart_innerWidth c) (chart_plotX c x) (drag.truncate s)) s, None)"
| "chart_step date_iso S c (Pointer_released x) s =
     (let (d, picked) = finishDrag date_iso (chart_innerWidth c) (cs_domain c) (chart_plotX c x) (drag.truncate s)
      in (set_drag d s, map_option Window_picked picked))"
| "chart_step date_iso S c Pointer_lost s = (set_drag (cancelDrag (drag.truncate s)) s, None)"
| "chart_step date_iso S c (Key_pressed key) s =
     (if key \<noteq> ''Escape'' \<or> dr_start s = None then (s, None)
      else (set_drag (cancelDrag (drag.truncate s)) s, Some Default_prevented))"
| "chart_step date_iso S c (Series_clicked modifier key) s =
     ((hide_tooltip s)\<lparr>ch_selectedKeys := click_series modifier (cs_series c) key (ch_selectedKeys s)\<rparr>, None)"
| "chart_step date_iso S c Show_all_clicked s =
     (if ch_selectedKeys s = None then s
      else (hide_tooltip s)\<lparr>ch_selectedKeys := show_all (ch_selectedKeys s)\<rparr>, None)"

text \<open>The states a mounted chart comes to: every event may meet another scene, since the points and
  the size change between renders.\<close>

inductive chart_reach :: "(int \<Rightarrow> string) \<Rightarrow> scales \<Rightarrow> chart_state \<Rightarrow> bool" for date_iso S where
  mounted: "chart_reach date_iso S new_chart"
| event: "chart_reach date_iso S s \<Longrightarrow> chart_step date_iso S c e s = (s', out) \<Longrightarrow> chart_reach date_iso S s'"

section \<open>The picture\<close>

text \<open>The key the chart is remounted by: the code writes the three as one JSON text.\<close>

definition chart_key :: "metric \<Rightarrow> metric_facet option \<Rightarrow> string \<times> string \<times> string list option" where
  "chart_key m f = (mt_serviceName m, mt_name m, map_option fc_attributes f)"

record drawn_series =
  dw_label :: string
  dw_color :: string
  dw_line :: "(number \<times> number) list option"
  dw_dots :: "(number \<times> number) list"

definition draw_series :: "(int \<Rightarrow> number) \<Rightarrow> (number \<Rightarrow> number) \<Rightarrow> metric_series \<Rightarrow> drawn_series" where
  "draw_series x y s =
     (let dots = map (\<lambda>p. (x (cp_time p), y (cp_value p))) (ms_points s)
      in \<lparr>dw_label = ms_label s, dw_color = ms_color s,
          dw_line = (if length (ms_points s) \<ge> 2 then Some dots else None), dw_dots = dots\<rparr>)"

definition drag_rect :: "number \<Rightarrow> number \<times> number \<Rightarrow> number \<times> number \<times> number" where
  "drag_rect innerHeight sel =
     (min (fst sel) (snd sel), \<bar>num_sub (snd sel) (fst sel)\<bar>, innerHeight)"

definition highlights ::
    "(int \<Rightarrow> number) \<Rightarrow> (number \<Rightarrow> number) \<Rightarrow> int \<Rightarrow> metric_series list \<Rightarrow> (string \<times> number \<times> number) list" where
  "highlights x y nearestMs visibleSeries =
     List.map_filter (\<lambda>s.
       map_option (\<lambda>p. (ms_color s, x (cp_time p), y (cp_value p))) (closestPoint (ms_points s) nearestMs))
       visibleSeries"

record legend_entry =
  le_label :: string
  le_pressed :: bool
  le_border :: string
  le_fill :: "string option"
  le_struck :: bool

definition legend_entry :: "string set option \<Rightarrow> metric_series \<Rightarrow> legend_entry" where
  "legend_entry selectedKeys s =
     (let hidden = (case selectedKeys of None \<Rightarrow> False | Some keys \<Rightarrow> ms_key s \<notin> keys)
      in \<lparr>le_label = ms_label s, le_pressed = selected_series selectedKeys (ms_key s), le_border = ms_color s,
          le_fill = (if hidden then None else Some (ms_color s)), le_struck = hidden\<rparr>)"

record chart_picture =
  pc_height :: number
  pc_grid :: "number list"
  pc_yLabels :: "string list"
  pc_xTickCount :: int
  pc_xLabels :: "string list"
  pc_series :: "drawn_series list"
  pc_rect :: "(number \<times> number \<times> number) option"
  pc_crosshair :: "(number \<times> (string \<times> number \<times> number) list) option"
  pc_tooltip :: "(number \<times> number \<times> string \<times> (string \<times> string \<times> string) list) option"
  pc_legend :: "legend_entry list"
  pc_showAll :: bool

datatype chart_view = No_data_points | Chart_shown chart_picture

definition tooltip_view ::
    "(number \<Rightarrow> string) \<Rightarrow> (number \<Rightarrow> string) \<Rightarrow> (int \<Rightarrow> string) \<Rightarrow> string \<Rightarrow> chart_tip \<Rightarrow>
     number \<times> number \<times> string \<times> (string \<times> string \<times> string) list" where
  "tooltip_view num_text compactFmt show_time u tip =
     (tip_left tip, tip_top tip, show_time (tip_time tip),
      map (\<lambda>row. (tt_color row, tt_label row, formatMetricValue num_text compactFmt (tt_value row) u)) (tip_rows tip))"

text \<open>\<open>show_time\<close> is \<open>toLocaleTimeString\<close>, \<open>show_tick\<close> the same to the second.\<close>

definition ChartInner ::
    "scales \<Rightarrow> (number \<Rightarrow> string) \<Rightarrow> (number \<Rightarrow> string) \<Rightarrow> (int \<Rightarrow> string) \<Rightarrow> (int \<Rightarrow> string) \<Rightarrow>
     metric \<Rightarrow> chart_scene \<Rightarrow> chart_state \<Rightarrow> chart_view" where
  "ChartInner S num_text compactFmt show_tick show_time m c s =
     (if length (concat (map ms_points (cs_series c))) = 0 then No_data_points
      else
        let u = resolveMetricUnit (mt_name m) (mt_unit m);
            visibleSeries = chart_visible c (ch_selectedKeys s);
            x = xScale S c;
            innerHeight = chart_innerHeight c;
            yDomain = y_domain (concat (map ms_points visibleSeries));
            y = sc_y S yDomain (innerHeight, 0);
            xTickCount = max 3 \<lfloor>num_div (chart_innerWidth c) 120\<rfloor>
        in Chart_shown
             \<lparr>pc_height = (if length (cs_series c) > 0 then num_sub (cs_height c) 52 else cs_height c),
              pc_grid = map y (sc_yTicks S yDomain 5),
              pc_yLabels = map (\<lambda>v. formatMetricValue num_text compactFmt v u) (sc_yTicks S yDomain 5),
              pc_xTickCount = xTickCount,
              pc_xLabels = map show_tick (sc_xTicks S (x_domain c) xTickCount),
              pc_series = map (draw_series x y) visibleSeries,
              pc_rect = map_option (drag_rect innerHeight) (dr_selection s),
              pc_crosshair =
                map_option (\<lambda>tip. (x (tip_time tip), highlights x y (tip_time tip) visibleSeries)) (ch_tooltip s),
              pc_tooltip = map_option (tooltip_view num_text compactFmt show_time u) (ch_tooltip s),
              pc_legend = map (legend_entry (ch_selectedKeys s)) (cs_series c),
              pc_showAll = (ch_selectedKeys s \<noteq> None)\<rparr>)"

definition MetricChart_shown :: "number \<Rightarrow> number \<Rightarrow> bool" where
  "MetricChart_shown width height \<longleftrightarrow> width > 0 \<and> height > 0"

section \<open>Lemmas\<close>

text \<open>A drag under way is drawn from where it began, and no tooltip shows beside it.\<close>

definition drag_ok :: "chart_state \<Rightarrow> bool" where
  "drag_ok s \<longleftrightarrow>
     (case dr_selection s of
        None \<Rightarrow> dr_start s = None
      | Some sel \<Rightarrow> dr_start s = Some (fst sel) \<and> ch_tooltip s = None)"

lemma drag_projections [simp]:
  "dr_start (drag.truncate s) = dr_start s"
  "dr_selection (drag.truncate s) = dr_selection s"
  "dr_start (set_drag d s) = dr_start d"
  "dr_selection (set_drag d s) = dr_selection d"
  "ch_tooltip (set_drag d s) = ch_tooltip s"
  "ch_selectedKeys (set_drag d s) = ch_selectedKeys s"
  "dr_start (hide_tooltip s) = dr_start s"
  "dr_selection (hide_tooltip s) = dr_selection s"
  "ch_tooltip (hide_tooltip s) = None"
  "dr_start (cancelDrag d) = None"
  "dr_selection (cancelDrag d) = None"
  by (simp_all add: drag.truncate_def set_drag_def hide_tooltip_def cancelDrag_def)

lemma hover_keeps_drag [simp]:
  "dr_start (hover_chart S c x y s) = dr_start s"
  "dr_selection (hover_chart S c x y s) = dr_selection s"
  "ch_selectedKeys (hover_chart S c x y s) = ch_selectedKeys s"
  by (simp_all add: hover_chart_def Let_def split: option.splits prod.splits)

lemma drag_ok_step:
  assumes "drag_ok s" and "chart_step date_iso S c e s = (s', out)"
  shows "drag_ok s'"
proof (cases e)
  case (Pointer_pressed button x)
  then show ?thesis using assms
    by (auto simp: drag_ok_def handlePointerDown_def begins_drag_def Let_def split: option.splits if_splits)
next
  case (Pointer_moved x)
  then show ?thesis using assms
    by (auto simp: drag_ok_def handlePointerMove_def split: option.splits)
next
  case (Pointer_released x)
  then have "s' = set_drag (drag.truncate s\<lparr>dr_start := None, dr_selection := None\<rparr>) s"
    using assms(2) by (auto simp: finishDrag_def Let_def)
  then show ?thesis by (simp add: drag_ok_def)
qed (use assms in \<open>auto simp: drag_ok_def split: if_splits option.splits\<close>)

lemma chart_reach_drag_ok: "chart_reach date_iso S s \<Longrightarrow> drag_ok s"
  by (induction rule: chart_reach.induct) (auto simp: new_chart_def drag_ok_def intro: drag_ok_step [unfolded drag_ok_def])

text \<open>Escape, a lost pointer and a release all end the drag, and only the release of one picks a window.\<close>

lemma drag_ends:
  "chart_step date_iso S c (Pointer_released x) s = (s', out) \<Longrightarrow> dr_start s' = None \<and> dr_selection s' = None"
  "chart_step date_iso S c Pointer_lost s = (s', out) \<Longrightarrow> dr_start s' = None \<and> dr_selection s' = None"
  "chart_reach date_iso S s \<Longrightarrow> chart_step date_iso S c (Key_pressed ''Escape'') s = (s', out) \<Longrightarrow>
     dr_start s' = None \<and> dr_selection s' = None"
  using chart_reach_drag_ok [of date_iso S s]
  by (auto simp: finishDrag_def drag_ok_def Let_def split: if_splits option.splits)

lemma window_only_from_drag:
  assumes "chart_reach date_iso S s" and "chart_step date_iso S c e s = (s', Some (Window_picked w))"
  shows "\<exists>x sel px domain. e = Pointer_released x \<and> dr_selection s = Some sel \<and> chart_plotX c x = Some px \<and>
    cs_domain c = Some domain \<and>
    timeWindowFromDrag date_iso domain (fst sel) px (chart_innerWidth c) = Some w"
  using assms(2) chart_reach_drag_ok [OF assms(1)]
  by (cases e)
    (auto simp: finishDrag_def drag_ok_def Let_def split: if_splits option.splits)

text \<open>The legend and the drawing agree: the pressed entries are the series drawn, in their order.\<close>

lemma legend_names_drawn:
  assumes "ChartInner S num_text compactFmt show_tick show_time m c s = Chart_shown pic"
  shows "map le_label (filter le_pressed (pc_legend pic)) = map dw_label (pc_series pic)"
    and "list_all (\<lambda>e. le_struck e \<longleftrightarrow> \<not> le_pressed e) (pc_legend pic)"
proof -
  have legend: "pc_legend pic = map (legend_entry (ch_selectedKeys s)) (cs_series c)"
    and drawn: "map dw_label (pc_series pic) = map ms_label (chart_visible c (ch_selectedKeys s))"
    using assms by (auto simp: ChartInner_def Let_def draw_series_def comp_def split: if_splits)
  show "map le_label (filter le_pressed (pc_legend pic)) = map dw_label (pc_series pic)"
    by (simp add: legend drawn chart_visible_def visible_series_def filter_map comp_def legend_entry_def Let_def)
  show "list_all (\<lambda>e. le_struck e \<longleftrightarrow> \<not> le_pressed e) (pc_legend pic)"
    by (simp add: legend list_all_iff legend_entry_def selected_series_def Let_def split: option.splits)
qed

text \<open>Clicks on the legend: a plain one isolates a series, a second one with the modifier brings it back,
  and showing all undoes either.\<close>

lemma legend_clicks:
  "ch_selectedKeys (fst (chart_step date_iso S c (Series_clicked False key) s)) = Some {key}"
  "ch_selectedKeys
     (fst (chart_step date_iso S c (Series_clicked True key) (fst (chart_step date_iso S c (Series_clicked True key) s)))) =
     Some (case ch_selectedKeys s of None \<Rightarrow> set (map ms_key (cs_series c))
           | Some keys \<Rightarrow> keys)"
  "ch_selectedKeys (fst (chart_step date_iso S c Show_all_clicked s)) = None"
  by (auto simp: click_series_def show_all_def hide_tooltip_def Let_def split: option.splits)

end
