(* ===== verification/SpanTree.thy ===== *)
theory SpanTree
  imports Telemetry JsText
begin

text \<open>
  The span tree of \<^verbatim>\<open>components/traces/span-tree.ts\<close> and the timeline of
  \<^verbatim>\<open>components/traces/trace-timeline.ts\<close>. The recursive \<open>walk\<close> takes its call depth as
  fuel; \<open>None\<close> stands for a call stack that is exhausted.
\<close>

section \<open>Definitions\<close>

record flat_span =
  fl_span :: span
  fl_depth :: nat
  fl_hasChildren :: bool

definition toNsOffset :: "int \<Rightarrow> int \<Rightarrow> number" where
  "toNsOffset startEpochNs baseNs = num_of_bigint (startEpochNs - baseNs)"

definition compareByStartTime :: "span \<Rightarrow> span \<Rightarrow> int" where
  "compareByStartTime a b =
     (if sp_startEpochNs a < sp_startEpochNs b then - 1
      else if sp_startEpochNs a > sp_startEpochNs b then 1
      else 0)"

text \<open>\<open>byId.get\<close>: the last span of an id; \<open>children.get\<close>, sorted when it is walked.\<close>

definition by_id :: "span list \<Rightarrow> string \<Rightarrow> span option" where
  "by_id spans i = lookup_by sp_spanId (rev spans) i"

definition children_of :: "span list \<Rightarrow> string \<Rightarrow> span list" where
  "children_of spans parentId = filter (\<lambda>s. sp_parentSpanId s = parentId) spans"

definition kids :: "span list \<Rightarrow> string \<Rightarrow> span list" where
  "kids spans parentId = sort_by compareByStartTime (children_of spans parentId)"

definition flat :: "span list \<Rightarrow> span \<Rightarrow> nat \<Rightarrow> flat_span" where
  "flat spans s depth =
     \<lparr>fl_span = s, fl_depth = depth, fl_hasChildren = (length (children_of spans (sp_spanId s)) > 0)\<rparr>"

fun walk :: "nat \<Rightarrow> span list \<Rightarrow> string \<Rightarrow> nat \<Rightarrow> flat_span list option" where
  "walk 0 spans parentId depth = None"
| "walk (Suc fuel) spans parentId depth =
     map_option concat
       (map_opt
         (\<lambda>s. map_option (\<lambda>sub. flat spans s depth # sub) (walk fuel spans (sp_spanId s) (depth + 1)))
         (kids spans parentId))"

definition is_root :: "span list \<Rightarrow> span \<Rightarrow> bool" where
  "is_root spans s \<longleftrightarrow> sp_parentSpanId s = [] \<or> by_id spans (sp_parentSpanId s) = None"

definition root_spans :: "span list \<Rightarrow> span list" where
  "root_spans spans = sort_by compareByStartTime (filter (is_root spans) spans)"

definition buildTree :: "nat \<Rightarrow> span list \<Rightarrow> flat_span list option" where
  "buildTree fuel spans =
     map_option concat
       (map_opt (\<lambda>r. map_option (\<lambda>sub. flat spans r 0 # sub) (walk fuel spans (sp_spanId r) 1))
         (root_spans spans))"

record span_filter =
  sf_query :: string
  sf_errorsOnly :: bool

text \<open>
  The loop both \<open>matchingSpanIds\<close> and \<open>spanPath\<close> contain: from a span upwards, until the
  parent is unknown or already collected.
\<close>

function climb :: "span list \<Rightarrow> span option \<Rightarrow> string set \<Rightarrow> string set" where
  "climb spans None ids = ids"
| "climb spans (Some current) ids =
     (if sp_spanId current \<in> ids then ids
      else climb spans (by_id spans (sp_parentSpanId current)) (insert (sp_spanId current) ids))"
  by pat_completeness auto

lemma by_id_in: "by_id spans i = Some s \<Longrightarrow> s \<in> set spans \<and> sp_spanId s = i"
  by (auto simp: by_id_def dest: lookup_by_SomeD)

definition climb_measure :: "span list \<times> span option \<times> string set \<Rightarrow> nat" where
  "climb_measure = (\<lambda>(spans, current, ids).
     card ((sp_spanId ` set spans \<union> sp_spanId ` set_option current) - ids))"

termination climb
proof (relation "measure climb_measure", simp)
  fix spans :: "span list" and current :: span and ids :: "string set"
  assume new: "sp_spanId current \<notin> ids"
  let ?old = "(sp_spanId ` set spans \<union> sp_spanId ` set_option (Some current)) - ids"
  let ?new = "(sp_spanId ` set spans \<union>
    sp_spanId ` set_option (by_id spans (sp_parentSpanId current))) - insert (sp_spanId current) ids"
  have "?new \<subseteq> ?old" by (auto dest: by_id_in)
  moreover have "sp_spanId current \<in> ?old" "sp_spanId current \<notin> ?new" using new by auto
  ultimately have "?new \<subset> ?old" by blast
  then have "card ?new < card ?old" by (intro psubset_card_mono) simp_all
  then show "((spans, by_id spans (sp_parentSpanId current), insert (sp_spanId current) ids),
      spans, Some current, ids) \<in> measure climb_measure"
    by (simp add: climb_measure_def)
qed

definition span_matches :: "string \<Rightarrow> bool \<Rightarrow> span \<Rightarrow> bool" where
  "span_matches lowerQuery errorsOnly s \<longleftrightarrow>
     \<not> (errorsOnly \<and> sp_statusCode s \<noteq> Error) \<and>
     \<not> (lowerQuery \<noteq> [] \<and>
        \<not> str_includes (toLowerCase (sp_name s @ '' '' @ sp_serviceName s)) lowerQuery)"

definition matchingSpanIds :: "span list \<Rightarrow> span_filter \<Rightarrow> string set option" where
  "matchingSpanIds spans f =
     (let trimmedQuery = trim (sf_query f)
      in if trimmedQuery = [] \<and> \<not> sf_errorsOnly f then None
         else
           let lowerQuery = toLowerCase trimmedQuery
           in Some (foldl (\<lambda>ids s. if span_matches lowerQuery (sf_errorsOnly f) s
                                   then climb spans (Some s) ids else ids) {} spans))"

text \<open>The loop of \<open>visibleSpans\<close>: the rows still to see and the depth below which rows hide.\<close>

fun visible_from ::
    "string set \<Rightarrow> string set option \<Rightarrow> nat option \<Rightarrow> flat_span list \<Rightarrow> flat_span list" where
  "visible_from collapsed matchingIds skipDepth [] = []"
| "visible_from collapsed matchingIds skipDepth (f # fs) =
     (if (case matchingIds of None \<Rightarrow> False | Some ids \<Rightarrow> sp_spanId (fl_span f) \<notin> ids)
      then visible_from collapsed matchingIds skipDepth fs
      else if (case skipDepth of None \<Rightarrow> False | Some d \<Rightarrow> fl_depth f > d)
      then visible_from collapsed matchingIds skipDepth fs
      else f # visible_from collapsed matchingIds
                 (if matchingIds = None \<and> sp_spanId (fl_span f) \<in> collapsed
                  then Some (fl_depth f) else None) fs)"

definition visibleSpans ::
    "flat_span list \<Rightarrow> string set \<Rightarrow> string set option \<Rightarrow> flat_span list" where
  "visibleSpans flatSpans collapsed matchingIds = visible_from collapsed matchingIds None flatSpans"

definition spanPath :: "span list \<Rightarrow> string option \<Rightarrow> string set" where
  "spanPath spans selectedSpanId =
     (case selectedSpanId of
        None \<Rightarrow> climb spans None {}
      | Some i \<Rightarrow> climb spans (if i = [] then None else by_id spans i) {})"

section \<open>Timeline\<close>

definition SERVICE_COLORS :: "string list" where
  "SERVICE_COLORS =
     [''oklch(0.65 0.14 195)'', ''oklch(0.67 0.14 80)'', ''oklch(0.63 0.14 300)'',
      ''oklch(0.63 0.17 155)'', ''oklch(0.60 0.18 15)'', ''oklch(0.65 0.12 230)'']"

definition traceTimeline :: "trace \<Rightarrow> int \<times> number" where
  "traceTimeline t =
     (let start = tr_startEpochNs t;
          duration = tr_duration t;
          (start', duration') =
            (if duration \<le> 0 \<and> length (tr_spans t) > 0
             then
               let start = foldl (\<lambda>mn s. if sp_startEpochNs s < mn then sp_startEpochNs s else mn)
                     (sp_startEpochNs (tr_spans t ! 0)) (tr_spans t);
                   end = foldl (\<lambda>mx s. if sp_endEpochNs s > mx then sp_endEpochNs s else mx)
                     start (tr_spans t)
               in (start, num_of_bigint (end - start))
             else (start, duration))
      in (start', max 1 duration'))"

definition traceServiceColors :: "span list \<Rightarrow> (string \<times> string) list" where
  "traceServiceColors spans =
     (let services = uniq (map sp_serviceName spans)
      in map (\<lambda>(service, index). (service, SERVICE_COLORS ! (index mod length SERVICE_COLORS)))
           (zip services [0..<length services]))"

section \<open>The walk\<close>

lemma map_opt_Some_iff:
  "map_opt f xs = Some ys \<longleftrightarrow> (\<forall>x \<in> set xs. f x \<noteq> None) \<and> ys = map (\<lambda>x. the (f x)) xs"
  by (induction xs arbitrary: ys) (auto split: option.splits)

definition subtree :: "nat \<Rightarrow> span list \<Rightarrow> nat \<Rightarrow> span \<Rightarrow> flat_span list" where
  "subtree fuel spans depth s =
     flat spans s depth # the (walk fuel spans (sp_spanId s) (Suc depth))"

lemma walk_forest_iff:
  "map_option concat (map_opt (\<lambda>s. map_option (\<lambda>sub. flat spans s d # sub)
       (walk fuel spans (sp_spanId s) (Suc d))) ks) = Some fs \<longleftrightarrow>
     (\<forall>s \<in> set ks. walk fuel spans (sp_spanId s) (Suc d) \<noteq> None) \<and>
     fs = concat (map (subtree fuel spans d) ks)"
proof -
  let ?f = "\<lambda>s. map_option (\<lambda>sub. flat spans s d # sub) (walk fuel spans (sp_spanId s) (Suc d))"
  have a: "(\<forall>s \<in> set ks. ?f s \<noteq> None) \<longleftrightarrow> (\<forall>s \<in> set ks. walk fuel spans (sp_spanId s) (Suc d) \<noteq> None)"
    by simp
  have b: "concat (map (\<lambda>s. the (?f s)) ks) = concat (map (subtree fuel spans d) ks)"
    if "\<forall>s \<in> set ks. walk fuel spans (sp_spanId s) (Suc d) \<noteq> None"
    using that by (intro arg_cong [where f = concat] map_cong) (auto simp: subtree_def)
  have c: "map_option concat (map_opt ?f ks) = Some fs \<longleftrightarrow>
      (\<exists>ys. map_opt ?f ks = Some ys \<and> fs = concat ys)"
    by (cases "map_opt ?f ks") auto
  show ?thesis
    by (simp only: c map_opt_Some_iff a) (use b in auto)
qed

lemma walk_Suc_iff:
  "walk (Suc fuel) spans p d = Some fs \<longleftrightarrow>
     (\<forall>s \<in> set (kids spans p). walk fuel spans (sp_spanId s) (Suc d) \<noteq> None) \<and>
     fs = concat (map (subtree fuel spans d) (kids spans p))"
  using walk_forest_iff [of spans d fuel "kids spans p" fs] by simp

lemma buildTree_iff:
  "buildTree fuel spans = Some fs \<longleftrightarrow>
     (\<forall>s \<in> set (root_spans spans). walk fuel spans (sp_spanId s) 1 \<noteq> None) \<and>
     fs = concat (map (subtree fuel spans 0) (root_spans spans))"
  using walk_forest_iff [of spans 0 fuel "root_spans spans" fs] by (simp add: buildTree_def)

declare walk.simps(2) [simp del]

lemma set_kids [simp]: "s \<in> set (kids spans p) \<longleftrightarrow> s \<in> set spans \<and> sp_parentSpanId s = p"
  by (auto simp: kids_def children_of_def)

lemma set_root_spans [simp]: "s \<in> set (root_spans spans) \<longleftrightarrow> s \<in> set spans \<and> is_root spans s"
  by (auto simp: root_spans_def)

lemma distinct_kids: "distinct (map f spans) \<Longrightarrow> distinct (map f (kids spans p))"
  by (simp add: kids_def children_of_def distinct_map_filter)

lemma distinct_root_spans: "distinct (map f spans) \<Longrightarrow> distinct (map f (root_spans spans))"
  by (simp add: root_spans_def distinct_map_filter)

section \<open>Enough fuel\<close>

text \<open>Spans with distinct, non-empty ids.\<close>

definition ids_ok :: "span list \<Rightarrow> bool" where
  "ids_ok spans \<longleftrightarrow> distinct (map sp_spanId spans) \<and> [] \<notin> sp_spanId ` set spans"

lemma same_span: "ids_ok spans \<Longrightarrow> a \<in> set spans \<Longrightarrow> b \<in> set spans \<Longrightarrow> sp_spanId a = sp_spanId b \<Longrightarrow> a = b"
  by (auto simp: ids_ok_def distinct_map inj_on_def)

lemma by_id_None: "by_id spans i = None \<longleftrightarrow> i \<notin> sp_spanId ` set spans"
  by (simp add: by_id_def lookup_by_None)

lemma by_id_Some: "ids_ok spans \<Longrightarrow> by_id spans i = Some s \<longleftrightarrow> s \<in> set spans \<and> sp_spanId s = i"
  by (metis by_id_None by_id_in image_eqI not_Some_eq same_span)

lemma is_root_iff: "ids_ok spans \<Longrightarrow> is_root spans s \<longleftrightarrow> sp_parentSpanId s \<notin> sp_spanId ` set spans"
  by (auto simp: is_root_def by_id_None ids_ok_def)

text \<open>The ids from a span up to its root.\<close>

inductive root_path :: "span list \<Rightarrow> string list \<Rightarrow> bool" for spans where
  root: "r \<in> set spans \<Longrightarrow> is_root spans r \<Longrightarrow> root_path spans [sp_spanId r]"
| kid: "root_path spans (p # ps) \<Longrightarrow> s \<in> set spans \<Longrightarrow> sp_parentSpanId s = p \<Longrightarrow>
    root_path spans (sp_spanId s # p # ps)"

inductive_cases root_path_NilE: "root_path spans []"
inductive_cases root_path_ConsE: "root_path spans (i # ps)"

lemma root_path_Cons:
  assumes "root_path spans (i # qs)"
  obtains (root) r where "r \<in> set spans" "is_root spans r" "i = sp_spanId r" "qs = []"
  | (kid) p ps s where "qs = p # ps" "root_path spans (p # ps)" "s \<in> set spans"
      "sp_parentSpanId s = p" "i = sp_spanId s"
  using assms by (cases rule: root_path_ConsE) auto

lemma root_path_ids: "root_path spans ps \<Longrightarrow> set ps \<subseteq> sp_spanId ` set spans"
  by (induction rule: root_path.induct) auto

lemma root_path_unique:
  assumes ids: "ids_ok spans" and "root_path spans ps" and "root_path spans qs" and "hd ps = hd qs"
  shows "ps = qs"
  using assms(2,3,4)
proof (induction arbitrary: qs rule: root_path.induct)
  case (root r)
  obtain i qs' where qs: "qs = i # qs'" using root.prems(1) by (cases qs) (auto elim: root_path_NilE)
  then have i: "i = sp_spanId r" using root.prems(2) by simp
  from root.prems(1) have "root_path spans (i # qs')" by (simp add: qs)
  then show ?case
  proof (cases rule: root_path_Cons)
    case (kid p ps s)
    then have "s = r" using ids root.hyps i by (intro same_span) auto
    then have "p \<notin> sp_spanId ` set spans" using kid root.hyps ids by (auto simp: is_root_iff)
    with root_path_ids [OF kid(2)] show ?thesis by simp
  qed (use i qs in simp)
next
  case (kid p ps s)
  obtain i qs' where qs: "qs = i # qs'" using kid.prems(1) by (cases qs) (auto elim: root_path_NilE)
  then have i: "i = sp_spanId s" using kid.prems(2) by simp
  note hyps = kid.hyps and IH = kid.IH
  from kid.prems(1) have "root_path spans (i # qs')" by (simp add: qs)
  then show ?case
  proof (cases rule: root_path_Cons)
    case (root r)
    then have "r = s" using ids hyps i by (intro same_span) auto
    then have "p \<notin> sp_spanId ` set spans" using root hyps ids by (auto simp: is_root_iff)
    with root_path_ids [OF hyps(1)] show ?thesis by simp
  next
    case (kid p' ps' s')
    then have "s' = s" using ids hyps i by (intro same_span) auto
    then have "p # ps = p' # ps'" using IH [OF kid(2)] kid hyps by simp
    with kid i qs show ?thesis by simp
  qed
qed

lemma root_path_suffix: "root_path spans (xs @ i # ys) \<Longrightarrow> root_path spans (i # ys)"
proof (induction xs)
  case (Cons x xs)
  then have "root_path spans (x # (xs @ i # ys))" by simp
  then have "root_path spans (xs @ i # ys)" by (cases rule: root_path_Cons) auto
  then show ?case by (rule Cons.IH)
qed simp

lemma root_path_distinct:
  assumes ids: "ids_ok spans" and "root_path spans ps"
  shows "distinct ps"
  using assms(2)
proof (induction rule: root_path.induct)
  case (kid p ps s)
  have "sp_spanId s \<notin> set (p # ps)"
  proof
    assume "sp_spanId s \<in> set (p # ps)"
    then obtain xs ys where split: "p # ps = xs @ sp_spanId s # ys" by (meson split_list)
    with kid.hyps(1) have "root_path spans (sp_spanId s # ys)" by (metis root_path_suffix)
    moreover have "root_path spans (sp_spanId s # p # ps)" using kid.hyps by (intro root_path.kid) auto
    ultimately have "ys = p # ps" using root_path_unique [OF ids] by fastforce
    then have "length (p # ps) = length xs + Suc (length (p # ps))" using split by (metis length_append length_Cons)
    then show False by simp
  qed
  with kid.IH show ?case by simp
qed simp

lemma walk_enough_fuel:
  assumes ids: "ids_ok spans"
  shows "root_path spans (p # ps) \<Longrightarrow> length spans < fuel + length (p # ps) \<Longrightarrow>
    walk fuel spans p d \<noteq> None"
proof (induction fuel arbitrary: p ps d)
  case 0
  have "length (p # ps) = card (set (p # ps))"
    using root_path_distinct [OF ids "0.prems"(1)] by (simp only: distinct_card)
  also have "\<dots> \<le> card (sp_spanId ` set spans)"
    using root_path_ids [OF "0.prems"(1)] by (intro card_mono) auto
  also have "\<dots> \<le> length spans" by (metis card_length length_map set_map)
  finally show ?case using "0.prems"(2) by simp
next
  case (Suc fuel)
  have "walk fuel spans (sp_spanId s) (Suc d) \<noteq> None" if "s \<in> set (kids spans p)" for s
    using that Suc.prems by (intro Suc.IH [of _ "p # ps"] root_path.kid) auto
  then show ?case using walk_Suc_iff [of fuel spans p d] by blast
qed

lemma buildTree_total:
  assumes ids: "ids_ok spans" and "length spans \<le> fuel"
  shows "\<exists>fs. buildTree fuel spans = Some fs"
proof -
  have "walk fuel spans (sp_spanId r) 1 \<noteq> None" if "r \<in> set (root_spans spans)" for r
    using that assms(2) by (intro walk_enough_fuel [OF ids, of _ "[]"] root_path.root) auto
  then show ?thesis unfolding buildTree_iff by blast
qed

section \<open>What the tree holds\<close>

text \<open>The spans the tree contains, with their distance from a root.\<close>

inductive tree_at :: "span list \<Rightarrow> span \<Rightarrow> nat \<Rightarrow> bool" for spans where
  root: "r \<in> set spans \<Longrightarrow> is_root spans r \<Longrightarrow> tree_at spans r 0"
| kid: "tree_at spans p d \<Longrightarrow> s \<in> set spans \<Longrightarrow> sp_parentSpanId s = sp_spanId p \<Longrightarrow>
    tree_at spans s (Suc d)"

inductive_cases tree_at_SucE: "tree_at spans s (Suc d)"
inductive_cases tree_at_0E: "tree_at spans s 0"

lemma tree_at_in: "tree_at spans s d \<Longrightarrow> s \<in> set spans"
  by (induction rule: tree_at.induct) auto

lemma tree_at_root_iff:
  assumes "ids_ok spans" and "tree_at spans s d"
  shows "is_root spans s \<longleftrightarrow> d = 0"
  using assms(2)
proof cases
  case (kid p d')
  then have "sp_parentSpanId s \<in> sp_spanId ` set spans" using tree_at_in by auto
  with kid assms(1) show ?thesis by (simp add: is_root_iff)
qed simp

lemma tree_at_depth_unique:
  assumes ids: "ids_ok spans"
  shows "tree_at spans s d \<Longrightarrow> tree_at spans s d' \<Longrightarrow> d = d'"
proof (induction arbitrary: d' rule: tree_at.induct)
  case (root r)
  then show ?case using tree_at_root_iff [OF ids root.prems] by simp
next
  case (kid p d s)
  have "tree_at spans s (Suc d)" using kid.hyps by (rule tree_at.kid)
  then have "d' \<noteq> 0" using tree_at_root_iff [OF ids] kid.prems by blast
  then obtain e where e: "d' = Suc e" by (cases d') auto
  with kid.prems obtain q where q: "tree_at spans q e" "sp_parentSpanId s = sp_spanId q"
    by (auto elim: tree_at_SucE)
  then have "q = p" using ids kid.hyps tree_at_in by (metis same_span)
  with q kid.IH e show ?case by simp
qed

lemma subtree_rows:
  assumes "walk fuel spans (sp_spanId s) (Suc d) \<noteq> None" and "tree_at spans s d"
  shows "(\<forall>f \<in> set (subtree fuel spans d s). tree_at spans (fl_span f) (fl_depth f) \<and> d \<le> fl_depth f \<and>
      f = flat spans (fl_span f) (fl_depth f)) \<and>
    (\<forall>f \<in> set (subtree fuel spans d s). \<forall>c \<in> set spans. sp_parentSpanId c = sp_spanId (fl_span f) \<longrightarrow>
      flat spans c (Suc (fl_depth f)) \<in> set (subtree fuel spans d s))"
  using assms
proof (induction fuel arbitrary: s d)
  case (Suc fuel)
  let ?ks = "kids spans (sp_spanId s)"
  have sub: "the (walk (Suc fuel) spans (sp_spanId s) (Suc d)) = concat (map (subtree fuel spans (Suc d)) ?ks)"
      "\<forall>k \<in> set ?ks. walk fuel spans (sp_spanId k) (Suc (Suc d)) \<noteq> None"
    using Suc.prems(1) walk_Suc_iff [of fuel spans "sp_spanId s" "Suc d"] by fastforce+
  have eq: "subtree (Suc fuel) spans d s = flat spans s d # concat (map (subtree fuel spans (Suc d)) ?ks)"
    by (simp add: subtree_def [of "Suc fuel"] sub)
  have at: "tree_at spans k (Suc d)" if "k \<in> set ?ks" for k
    using that Suc.prems(2) by (auto intro: tree_at.kid)
  note IH = Suc.IH [OF sub(2) [rule_format] at]
  have head: "flat spans k (Suc d) \<in> set (subtree fuel spans (Suc d) k)" for k
    by (simp add: subtree_def)
  show ?case
  proof (intro conjI ballI impI)
    fix f assume "f \<in> set (subtree (Suc fuel) spans d s)"
    then consider "f = flat spans s d" | k where "k \<in> set ?ks" "f \<in> set (subtree fuel spans (Suc d) k)"
      unfolding eq by auto
    note f = this
    show "tree_at spans (fl_span f) (fl_depth f)"
      by (cases rule: f) (use Suc.prems IH in \<open>auto simp: flat_def\<close>)
    show "d \<le> fl_depth f"
      by (cases rule: f) (use IH in \<open>auto simp: flat_def dest: Suc_leD\<close>)
    show "f = flat spans (fl_span f) (fl_depth f)"
      by (cases rule: f) (use IH in \<open>auto simp: flat_def\<close>)
    fix c assume c: "c \<in> set spans" "sp_parentSpanId c = sp_spanId (fl_span f)"
    show "flat spans c (Suc (fl_depth f)) \<in> set (subtree (Suc fuel) spans d s)"
    proof (cases rule: f)
      case 1
      with c have "c \<in> set ?ks" by (simp add: flat_def)
      with head [of c] 1 show ?thesis unfolding eq by (auto simp: flat_def)
    next
      case (2 k)
      then have "flat spans c (Suc (fl_depth f)) \<in> set (subtree fuel spans (Suc d) k)"
        using IH c by blast
      with 2 show ?thesis unfolding eq by auto
    qed
  qed
qed simp

lemma buildTree_rows:
  assumes "buildTree fuel spans = Some fs"
  shows "set fs = (\<lambda>(s, d). flat spans s d) ` {(s, d). tree_at spans s d}"
proof -
  have b: "\<forall>s \<in> set (root_spans spans). walk fuel spans (sp_spanId s) (Suc 0) \<noteq> None"
      "fs = concat (map (subtree fuel spans 0) (root_spans spans))"
    using assms unfolding buildTree_iff by simp_all
  have rows: "(\<forall>f \<in> set (subtree fuel spans 0 r). tree_at spans (fl_span f) (fl_depth f) \<and>
      f = flat spans (fl_span f) (fl_depth f)) \<and>
    (\<forall>f \<in> set (subtree fuel spans 0 r). \<forall>c \<in> set spans. sp_parentSpanId c = sp_spanId (fl_span f) \<longrightarrow>
      flat spans c (Suc (fl_depth f)) \<in> set (subtree fuel spans 0 r))" if "r \<in> set (root_spans spans)" for r
    using subtree_rows [OF b(1) [rule_format, OF that] tree_at.root] that by auto
  have "flat spans s d \<in> set fs" if "tree_at spans s d" for s d
    using that
  proof (induction rule: tree_at.induct)
    case (root r)
    then show ?case by (auto simp: b(2) subtree_def)
  next
    case (kid p d s)
    then obtain r where r: "r \<in> set (root_spans spans)" "flat spans p d \<in> set (subtree fuel spans 0 r)"
      by (auto simp: b(2))
    from rows [OF r(1)] r(2) kid.hyps
    have "flat spans s (Suc d) \<in> set (subtree fuel spans 0 r)" by (force simp: flat_def)
    with r(1) show ?case by (auto simp: b(2))
  qed
  moreover have "tree_at spans (fl_span f) (fl_depth f) \<and> f = flat spans (fl_span f) (fl_depth f)"
    if "f \<in> set fs" for f
    using that rows by (auto simp: b(2))
  ultimately show ?thesis by (auto simp: image_iff) blast
qed

section \<open>Ancestors\<close>

text \<open>The span \<open>n\<close> steps up the chain of parents.\<close>

definition ancestor :: "span list \<Rightarrow> nat \<Rightarrow> span \<Rightarrow> span option" where
  "ancestor spans n s = ((\<lambda>x. Option.bind x (\<lambda>y. by_id spans (sp_parentSpanId y))) ^^ n) (Some s)"

lemma ancestor_0 [simp]: "ancestor spans 0 s = Some s"
  by (simp add: ancestor_def)

lemma ancestor_Suc: "ancestor spans (Suc n) s = Option.bind (ancestor spans n s) (\<lambda>y. by_id spans (sp_parentSpanId y))"
  by (simp add: ancestor_def)

lemma ancestor_None: "ancestor spans n s = None \<Longrightarrow> n \<le> m \<Longrightarrow> ancestor spans m s = None"
  by (induction m) (auto simp: ancestor_Suc le_Suc_eq)

lemma ancestor_Suc_bottom:
  "ancestor spans (Suc n) s =
     (case by_id spans (sp_parentSpanId s) of None \<Rightarrow> None | Some p \<Rightarrow> ancestor spans n p)"
proof (induction n)
  case (Suc n)
  then show ?case
    by (subst ancestor_Suc) (auto simp: ancestor_Suc split: option.split)
qed (simp add: ancestor_Suc split: option.split)

lemma tree_at_ancestor:
  assumes ids: "ids_ok spans" and "tree_at spans s d"
  shows "ancestor spans d s \<noteq> None \<and> ancestor spans (Suc d) s = None"
  using assms(2)
proof (induction rule: tree_at.induct)
  case (root r)
  then show ?case using ids by (simp add: ancestor_Suc is_root_iff by_id_None)
next
  case (kid p d s)
  then have "by_id spans (sp_parentSpanId s) = Some p"
    using ids tree_at_in by (simp add: by_id_Some)
  with kid.IH show ?case by (simp add: ancestor_Suc_bottom [of spans _ s])
qed

lemma ancestor_tree_at:
  assumes ids: "ids_ok spans"
  shows "s \<in> set spans \<Longrightarrow> ancestor spans n s = None \<Longrightarrow> \<exists>d. tree_at spans s d"
proof (induction n arbitrary: s)
  case (Suc n)
  show ?case
  proof (cases "by_id spans (sp_parentSpanId s)")
    case None
    then have "is_root spans s" by (simp add: is_root_def)
    with Suc.prems(1) show ?thesis by (blast intro: tree_at.root)
  next
    case (Some p)
    then have p: "p \<in> set spans" "sp_spanId p = sp_parentSpanId s" using by_id_in by blast+
    with Suc.prems Some obtain d where "tree_at spans p d"
      using Suc.IH [of p] by (auto simp: ancestor_Suc_bottom)
    with p Suc.prems(1) show ?thesis using tree_at.kid [of spans p d s] by auto
  qed
qed simp

lemma subtree_ancestor:
  assumes ids: "ids_ok spans" and "walk fuel spans (sp_spanId s) (Suc d) \<noteq> None" and "s \<in> set spans"
    and "f \<in> set (subtree fuel spans d s)"
  shows "d \<le> fl_depth f \<and> ancestor spans (fl_depth f - d) (fl_span f) = Some s"
  using assms(2,3,4)
proof (induction fuel arbitrary: s d)
  case (Suc fuel)
  let ?ks = "kids spans (sp_spanId s)"
  have sub: "the (walk (Suc fuel) spans (sp_spanId s) (Suc d)) = concat (map (subtree fuel spans (Suc d)) ?ks)"
      "\<forall>k \<in> set ?ks. walk fuel spans (sp_spanId k) (Suc (Suc d)) \<noteq> None"
    using Suc.prems(1) walk_Suc_iff [of fuel spans "sp_spanId s" "Suc d"] by fastforce+
  show ?case
  proof (cases "f = flat spans s d")
    case False
    with Suc.prems(3) sub(1) obtain k where k: "k \<in> set ?ks" "f \<in> set (subtree fuel spans (Suc d) k)"
      by (auto simp: subtree_def [of "Suc fuel"])
    with Suc.IH [of k "Suc d"] sub(2)
    have up: "Suc d \<le> fl_depth f" "ancestor spans (fl_depth f - Suc d) (fl_span f) = Some k" by auto
    moreover have "by_id spans (sp_parentSpanId k) = Some s" using k Suc.prems(2) ids by (simp add: by_id_Some)
    moreover have "fl_depth f - d = Suc (fl_depth f - Suc d)" using up(1) by simp
    ultimately show ?thesis by (simp add: ancestor_Suc)
  qed (simp add: flat_def)
qed simp

lemma distinct_concat_map:
  assumes "distinct ks" and "\<And>k. k \<in> set ks \<Longrightarrow> distinct (f k)"
    and "\<And>a b. a \<in> set ks \<Longrightarrow> b \<in> set ks \<Longrightarrow> a \<noteq> b \<Longrightarrow> set (f a) \<inter> set (f b) = {}"
  shows "distinct (concat (map f ks))"
  using assms by (induction ks) fastforce+

lemma distinct_subtrees:
  assumes ids: "ids_ok spans" and "distinct ks" and "set ks \<subseteq> set spans"
    and "\<forall>k \<in> set ks. walk fuel spans (sp_spanId k) (Suc d) \<noteq> None"
    and "\<And>k. k \<in> set ks \<Longrightarrow> distinct (subtree fuel spans d k)"
  shows "distinct (concat (map (subtree fuel spans d) ks))"
proof (rule distinct_concat_map [OF assms(2,5)])
  fix a b assume ab: "a \<in> set ks" "b \<in> set ks" "a \<noteq> b"
  have "ancestor spans (fl_depth f - d) (fl_span f) = Some c"
    if "f \<in> set (subtree fuel spans d c)" "c \<in> set ks" for f c
    using subtree_ancestor [OF ids _ _ that(1)] assms(3,4) that(2) by blast
  then have "a = b" if "f \<in> set (subtree fuel spans d a)" "f \<in> set (subtree fuel spans d b)" for f
    using that ab by (metis option.inject)
  with ab(3) show "set (subtree fuel spans d a) \<inter> set (subtree fuel spans d b) = {}" by auto
qed

lemma distinct_subtree:
  assumes ids: "ids_ok spans"
  shows "walk fuel spans (sp_spanId s) (Suc d) \<noteq> None \<Longrightarrow> distinct (subtree fuel spans d s)"
proof (induction fuel arbitrary: s d)
  case (Suc fuel)
  let ?ks = "kids spans (sp_spanId s)"
  have sub: "the (walk (Suc fuel) spans (sp_spanId s) (Suc d)) = concat (map (subtree fuel spans (Suc d)) ?ks)"
      "\<forall>k \<in> set ?ks. walk fuel spans (sp_spanId k) (Suc (Suc d)) \<noteq> None"
    using Suc.prems(1) walk_Suc_iff [of fuel spans "sp_spanId s" "Suc d"] by fastforce+
  have "distinct (map sp_spanId ?ks)" using ids by (auto simp: ids_ok_def intro: distinct_kids)
  then have "distinct ?ks" by (simp add: distinct_map)
  then have "distinct (concat (map (subtree fuel spans (Suc d)) ?ks))"
    using Suc.IH sub(2) by (intro distinct_subtrees [OF ids]) auto
  moreover have "flat spans s d \<notin> set (subtree fuel spans (Suc d) k)" if "k \<in> set ?ks" for k
    using subtree_ancestor [OF ids _ _, of fuel k "Suc d" "flat spans s d"] that sub(2)
    by (auto simp: flat_def)
  ultimately show ?case by (simp add: subtree_def [of "Suc fuel"] sub(1))
qed simp

lemma buildTree_distinct:
  assumes ids: "ids_ok spans" and "buildTree fuel spans = Some fs"
  shows "distinct (map fl_span fs)"
proof -
  have b: "\<forall>s \<in> set (root_spans spans). walk fuel spans (sp_spanId s) (Suc 0) \<noteq> None"
      "fs = concat (map (subtree fuel spans 0) (root_spans spans))"
    using assms(2) unfolding buildTree_iff by simp_all
  have "distinct (map sp_spanId (root_spans spans))"
    using ids by (auto simp: ids_ok_def intro: distinct_root_spans)
  then have "distinct (root_spans spans)" by (simp add: distinct_map)
  then have "distinct fs"
    unfolding b(2) using b(1) by (intro distinct_subtrees [OF ids]) (auto intro: distinct_subtree [OF ids])
  moreover have "inj_on fl_span (set fs)"
    unfolding buildTree_rows [OF assms(2)]
    by (auto simp: inj_on_def flat_def dest: tree_at_depth_unique [OF ids])
  ultimately show ?thesis by (simp add: distinct_map)
qed

section \<open>Properties\<close>

text \<open>C36: for spans with distinct, non-empty ids the recursion ends within as many calls as there are
  spans, and the rows are, each once, exactly the spans whose chain of parents ends, at a depth that
  is the number of their ancestors, with the children mark set when some span names them as parent;
  spans on or below a cycle of parents are in no row.\<close>

theorem buildTree_complete:
  assumes "ids_ok spans" and "length spans \<le> fuel"
  shows "\<exists>fs. buildTree fuel spans = Some fs \<and> distinct (map fl_span fs) \<and>
    set (map fl_span fs) = {s \<in> set spans. \<exists>n. ancestor spans n s = None} \<and>
    (\<forall>f \<in> set fs. ancestor spans (fl_depth f) (fl_span f) \<noteq> None \<and>
       ancestor spans (Suc (fl_depth f)) (fl_span f) = None \<and>
       fl_hasChildren f = (\<exists>c \<in> set spans. sp_parentSpanId c = sp_spanId (fl_span f)))"
proof -
  obtain fs where fs: "buildTree fuel spans = Some fs" using buildTree_total [OF assms] by blast
  note rows = buildTree_rows [OF fs]
  have "set (map fl_span fs) = {s. \<exists>d. tree_at spans s d}"
    by (auto simp: rows flat_def image_iff)
  also have "\<dots> = {s \<in> set spans. \<exists>n. ancestor spans n s = None}"
    using tree_at_in tree_at_ancestor [OF assms(1)] ancestor_tree_at [OF assms(1)] by blast
  finally have "set (map fl_span fs) = {s \<in> set spans. \<exists>n. ancestor spans n s = None}" .
  moreover have "ancestor spans (fl_depth f) (fl_span f) \<noteq> None \<and>
       ancestor spans (Suc (fl_depth f)) (fl_span f) = None \<and>
       fl_hasChildren f = (\<exists>c \<in> set spans. sp_parentSpanId c = sp_spanId (fl_span f))"
    if "f \<in> set fs" for f
    using that tree_at_ancestor [OF assms(1)]
    by (auto simp: rows flat_def children_of_def filter_empty_conv)
  ultimately show ?thesis using fs buildTree_distinct [OF assms(1) fs] by blast
qed

definition mk_span :: "string \<Rightarrow> string \<Rightarrow> int \<Rightarrow> span" where
  "mk_span i parent start =
     \<lparr>sp_linkCount = 0, sp_droppedLinksCount = 0, sp_traceId = ''t'', sp_spanId = i,
      sp_parentSpanId = parent, sp_name = ''op'', sp_kind = ''Server'', sp_serviceName = ''svc'',
      sp_startTime = ''s'', sp_endTime = ''e'', sp_duration = 1, sp_statusCode = Unset,
      sp_statusMessage = [], sp_attributes = [], sp_events = [], sp_resource = [],
      sp_startEpochNs = start, sp_endEpochNs = start + 1\<rparr>"

lemma mk_span_simps [simp]:
  "sp_spanId (mk_span i p t) = i" "sp_parentSpanId (mk_span i p t) = p"
  "sp_startEpochNs (mk_span i p t) = t" "sp_endEpochNs (mk_span i p t) = t + 1"
  "sp_serviceName (mk_span i p t) = ''svc''" "sp_name (mk_span i p t) = ''op''"
  by (simp_all add: mk_span_def)

theorem buildTree_complete_witness:
  "\<exists>fs. buildTree 3 [mk_span ''b'' ''a'' 5, mk_span ''a'' [] 3, mk_span ''x'' ''x'' 4] = Some fs \<and>
     distinct (map fl_span fs)"
proof -
  have "ids_ok [mk_span ''b'' ''a'' 5, mk_span ''a'' [] 3, mk_span ''x'' ''x'' 4]"
    by (simp add: ids_ok_def)
  from buildTree_complete [OF this, of 3] show ?thesis by auto
qed

text \<open>The tree as the reader sees it with some rows collapsed: the walk that does not enter them.\<close>

fun pruned :: "nat \<Rightarrow> span list \<Rightarrow> string set \<Rightarrow> nat \<Rightarrow> span \<Rightarrow> flat_span list" where
  "pruned 0 spans collapsed depth s = [flat spans s depth]"
| "pruned (Suc fuel) spans collapsed depth s =
     flat spans s depth #
       (if sp_spanId s \<in> collapsed then []
        else concat (map (pruned fuel spans collapsed (Suc depth)) (kids spans (sp_spanId s))))"

abbreviation shallow_head :: "nat \<Rightarrow> flat_span list \<Rightarrow> bool" where
  "shallow_head d rest \<equiv> rest = [] \<or> fl_depth (hd rest) \<le> d"

lemma visible_skip:
  "\<forall>f \<in> set fs. d < fl_depth f \<Longrightarrow> shallow_head d rest \<Longrightarrow>
     visible_from c None (Some d) (fs @ rest) = visible_from c None None rest"
  by (induction fs) (cases rest; auto)+

lemma subtree_depth:
  "walk fuel spans (sp_spanId s) (Suc d) \<noteq> None \<Longrightarrow>
     \<exists>sub. subtree fuel spans d s = flat spans s d # sub \<and> (\<forall>f \<in> set sub. d < fl_depth f)"
proof (induction fuel arbitrary: s d)
  case (Suc fuel)
  have sub: "the (walk (Suc fuel) spans (sp_spanId s) (Suc d)) =
        concat (map (subtree fuel spans (Suc d)) (kids spans (sp_spanId s)))"
      "\<forall>k \<in> set (kids spans (sp_spanId s)). walk fuel spans (sp_spanId k) (Suc (Suc d)) \<noteq> None"
    using Suc.prems(1) walk_Suc_iff [of fuel spans "sp_spanId s" "Suc d"] by fastforce+
  have "d < fl_depth f" if "k \<in> set (kids spans (sp_spanId s))" "f \<in> set (subtree fuel spans (Suc d) k)" for k f
    using Suc.IH [OF sub(2) [rule_format, OF that(1)]] that(2) by (auto simp: flat_def dest: Suc_lessD)
  then show ?case by (auto simp: subtree_def [of "Suc fuel"] sub(1))
qed simp

lemma visible_forest:
  assumes tree: "\<And>k rest. k \<in> set ks \<Longrightarrow> shallow_head d rest \<Longrightarrow>
      visible_from c None None (subtree fuel spans d k @ rest) =
        pruned fuel spans c d k @ visible_from c None None rest"
    and "shallow_head d rest"
  shows "visible_from c None None (concat (map (subtree fuel spans d) ks) @ rest) =
    concat (map (pruned fuel spans c d) ks) @ visible_from c None None rest"
  using assms
proof (induction ks)
  case (Cons k ks)
  have "shallow_head d (concat (map (subtree fuel spans d) ks) @ rest)"
    using Cons.prems(2) by (cases ks) (simp_all add: subtree_def flat_def)
  with Cons show ?case by simp
qed simp

lemma visible_subtree:
  "walk fuel spans (sp_spanId s) (Suc d) \<noteq> None \<Longrightarrow> shallow_head d rest \<Longrightarrow>
     visible_from c None None (subtree fuel spans d s @ rest) =
       pruned fuel spans c d s @ visible_from c None None rest"
proof (induction fuel arbitrary: s d rest)
  case (Suc fuel)
  let ?ks = "kids spans (sp_spanId s)"
  have sub: "the (walk (Suc fuel) spans (sp_spanId s) (Suc d)) = concat (map (subtree fuel spans (Suc d)) ?ks)"
      "\<forall>k \<in> set ?ks. walk fuel spans (sp_spanId k) (Suc (Suc d)) \<noteq> None"
    using Suc.prems(1) walk_Suc_iff [of fuel spans "sp_spanId s" "Suc d"] by fastforce+
  have eq: "subtree (Suc fuel) spans d s = flat spans s d # concat (map (subtree fuel spans (Suc d)) ?ks)"
    by (simp add: subtree_def [of "Suc fuel"] sub(1))
  have head: "shallow_head (Suc d) rest" using Suc.prems(2) by auto
  show ?case
  proof (cases "sp_spanId s \<in> c")
    case True
    have "\<forall>f \<in> set (concat (map (subtree fuel spans (Suc d)) ?ks)). d < fl_depth f"
      using subtree_depth [OF Suc.prems(1)] eq by auto
    with visible_skip [OF this Suc.prems(2)] True show ?thesis by (simp add: eq flat_def)
  next
    case False
    have "visible_from c None None (concat (map (subtree fuel spans (Suc d)) ?ks) @ rest) =
        concat (map (pruned fuel spans c (Suc d)) ?ks) @ visible_from c None None rest"
      using visible_forest [OF Suc.IH [OF sub(2) [rule_format]] head] by blast
    with False show ?thesis by (simp add: eq flat_def)
  qed
qed simp

lemma visible_filter: "visible_from c (Some ids) None fs = filter (\<lambda>f. sp_spanId (fl_span f) \<in> ids) fs"
  by (induction fs) auto

lemma visible_pruned:
  assumes "buildTree fuel spans = Some fs"
  shows "visibleSpans fs collapsed None = concat (map (pruned fuel spans collapsed 0) (root_spans spans))"
proof -
  have b: "\<forall>s \<in> set (root_spans spans). walk fuel spans (sp_spanId s) (Suc 0) \<noteq> None"
      "fs = concat (map (subtree fuel spans 0) (root_spans spans))"
    using assms unfolding buildTree_iff by simp_all
  have "visible_from collapsed None None (concat (map (subtree fuel spans 0) (root_spans spans)) @ []) =
      concat (map (pruned fuel spans collapsed 0) (root_spans spans)) @ visible_from collapsed None None []"
    by (rule visible_forest) (use visible_subtree b(1) in auto)
  then show ?thesis by (simp add: visibleSpans_def b(2))
qed

text \<open>The single pass with a skip depth shows the tree that a walk not entering the collapsed rows
  would give: a collapsed row hides its descendants and nothing else, however deep collapsed rows
  nest; with a filter the rows shown are those that match, whatever is collapsed.\<close>

theorem visibleSpans_collapse:
  assumes "buildTree fuel spans = Some fs"
  shows "visibleSpans fs collapsed None = concat (map (pruned fuel spans collapsed 0) (root_spans spans)) \<and>
    visibleSpans fs collapsed (Some ids) = filter (\<lambda>f. sp_spanId (fl_span f) \<in> ids) fs"
  by (simp add: visible_pruned [OF assms]) (simp add: visibleSpans_def visible_filter)

theorem visibleSpans_collapse_witness:
  "\<exists>fs. buildTree 3 [mk_span ''b'' ''a'' 5, mk_span ''a'' [] 3] = Some fs \<and>
     visibleSpans fs {''a''} None =
       concat (map (pruned 3 [mk_span ''b'' ''a'' 5, mk_span ''a'' [] 3] {''a''} 0)
         (root_spans [mk_span ''b'' ''a'' 5, mk_span ''a'' [] 3]))"
proof -
  have "ids_ok [mk_span ''b'' ''a'' 5, mk_span ''a'' [] 3]" by (simp add: ids_ok_def)
  then obtain fs where "buildTree 3 [mk_span ''b'' ''a'' 5, mk_span ''a'' [] 3] = Some fs"
    using buildTree_total [of _ 3] by fastforce
  with visibleSpans_collapse [OF this] show ?thesis by blast
qed

section \<open>Climbing to the root\<close>

definition up_ids :: "span list \<Rightarrow> span option \<Rightarrow> string set" where
  "up_ids spans x = {sp_spanId t | t s n. x = Some s \<and> ancestor spans n s = Some t}"

lemma up_ids_None [simp]: "up_ids spans None = {}"
  by (simp add: up_ids_def)

lemma up_ids_Some:
  "up_ids spans (Some s) = insert (sp_spanId s) (up_ids spans (by_id spans (sp_parentSpanId s)))"
proof (intro equalityI subsetI)
  fix i assume "i \<in> up_ids spans (Some s)"
  then obtain t n where t: "i = sp_spanId t" "ancestor spans n s = Some t" by (auto simp: up_ids_def)
  show "i \<in> insert (sp_spanId s) (up_ids spans (by_id spans (sp_parentSpanId s)))"
    using t by (cases n) (auto simp: ancestor_Suc_bottom up_ids_def split: option.splits)
next
  fix i assume "i \<in> insert (sp_spanId s) (up_ids spans (by_id spans (sp_parentSpanId s)))"
  then consider "i = sp_spanId s" | u t n where "by_id spans (sp_parentSpanId s) = Some u"
      "i = sp_spanId t" "ancestor spans n u = Some t"
    by (auto simp: up_ids_def)
  then show "i \<in> up_ids spans (Some s)"
  proof cases
    case 1
    then show ?thesis unfolding up_ids_def using ancestor_0 by blast
  next
    case 2
    then have "ancestor spans (Suc n) s = Some t" by (simp add: ancestor_Suc_bottom)
    with 2(2) show ?thesis unfolding up_ids_def by blast
  qed
qed

text \<open>The ids collected so far hold the parent of each of their spans, but for the one being visited.\<close>

definition up_closed :: "span list \<Rightarrow> span option \<Rightarrow> string set \<Rightarrow> bool" where
  "up_closed spans current ids \<longleftrightarrow>
     (\<forall>t \<in> set spans. sp_spanId t \<in> ids \<longrightarrow>
        (\<forall>u. by_id spans (sp_parentSpanId t) = Some u \<longrightarrow> sp_spanId u \<in> ids \<or> current = Some u))"

lemma up_ids_closed:
  assumes "up_closed spans None ids" and "s \<in> set spans" and "sp_spanId s \<in> ids"
  shows "up_ids spans (Some s) \<subseteq> ids"
proof -
  have "sp_spanId t \<in> ids \<and> t \<in> set spans" if "ancestor spans n s = Some t" for n t
    using that
  proof (induction n arbitrary: t)
    case (Suc n)
    then obtain q where q: "ancestor spans n s = Some q" "by_id spans (sp_parentSpanId q) = Some t"
      by (auto simp: ancestor_Suc bind_eq_Some_conv)
    with Suc.IH assms(1) show ?case by (auto simp: up_closed_def dest: by_id_in)
  qed (use assms in simp)
  then show ?thesis by (auto simp: up_ids_def)
qed

lemma climb_spec:
  "ids_ok spans \<Longrightarrow> set_option current \<subseteq> set spans \<Longrightarrow> up_closed spans current ids \<Longrightarrow>
    climb spans current ids = ids \<union> up_ids spans current \<and> up_closed spans None (climb spans current ids)"
proof (induction spans current ids rule: climb.induct)
  case (2 spans current ids)
  show ?case
  proof (cases "sp_spanId current \<in> ids")
    case True
    then have closed: "up_closed spans None ids" using "2.prems"(3) by (auto simp: up_closed_def)
    with up_ids_closed [OF closed _ True] "2.prems"(2) True show ?thesis by auto
  next
    case False
    let ?next = "by_id spans (sp_parentSpanId current)"
    have mem: "set_option ?next \<subseteq> set spans" by (auto dest: by_id_in)
    note ok = "2.prems"(1)
    have closed: "up_closed spans ?next (insert (sp_spanId current) ids)"
      unfolding up_closed_def
    proof (intro ballI impI allI)
      fix t u
      assume t: "t \<in> set spans" "sp_spanId t \<in> insert (sp_spanId current) ids"
        and u: "by_id spans (sp_parentSpanId t) = Some u"
      show "sp_spanId u \<in> insert (sp_spanId current) ids \<or> ?next = Some u"
      proof (cases "sp_spanId t \<in> ids")
        case True
        with t u "2.prems"(3) have "sp_spanId u \<in> ids \<or> Some current = Some u"
          unfolding up_closed_def by blast
        then show ?thesis by auto
      next
        case False
        then have "t = current" using t ok "2.prems"(2) by (intro same_span) auto
        then show ?thesis using u by simp
      qed
    qed
    have step: "climb spans (Some current) ids = climb spans ?next (insert (sp_spanId current) ids)"
      using False by simp
    from "2.IH" [OF False ok mem closed] show ?thesis
      unfolding step up_ids_Some by (intro conjI) (simp, rule conjunct2)
  qed
qed (simp add: up_closed_def)

lemma up_closed_empty [simp]: "up_closed spans x {}"
  by (simp add: up_closed_def)

lemma matching_fold:
  assumes ids_ok: "ids_ok spans"
  shows "set ss \<subseteq> set spans \<Longrightarrow> up_closed spans None ids \<Longrightarrow>
    foldl (\<lambda>ids s. if P s then climb spans (Some s) ids else ids) ids ss =
      ids \<union> (\<Union>s \<in> {s \<in> set ss. P s}. up_ids spans (Some s))"
proof (induction ss arbitrary: ids)
  case (Cons s ss)
  show ?case
  proof (cases "P s")
    case True
    have "up_closed spans (Some s) ids" using Cons.prems(2) by (auto simp: up_closed_def)
    with Cons.prems(1) climb_spec [OF ids_ok, of "Some s" ids]
    have c: "climb spans (Some s) ids = ids \<union> up_ids spans (Some s)"
        "up_closed spans None (climb spans (Some s) ids)" by auto
    have "foldl (\<lambda>ids s. if P s then climb spans (Some s) ids else ids) (climb spans (Some s) ids) ss =
        climb spans (Some s) ids \<union> (\<Union>s \<in> {s \<in> set ss. P s}. up_ids spans (Some s))"
      using Cons.prems(1) c(2) by (intro Cons.IH) auto
    moreover have "{x \<in> set (s # ss). P x} = insert s {x \<in> set ss. P x}" using True by auto
    ultimately show ?thesis using True c(1) by (simp add: Un_assoc)
  next
    case False
    then have "{x \<in> set (s # ss). P x} = {x \<in> set ss. P x}" by auto
    with Cons False show ?thesis by simp
  qed
qed simp

text \<open>A filter collects exactly the matching spans and all their ancestors, and the selection
  path is exactly the selected span and its ancestors, also where parents form a cycle; the early
  stop at an id already collected loses none of them.\<close>

theorem span_highlight_exact:
  assumes "ids_ok spans"
  shows "(\<forall>ids. matchingSpanIds spans f = Some ids \<longrightarrow>
      ids = {sp_spanId t | t s n. s \<in> set spans \<and>
        span_matches (toLowerCase (trim (sf_query f))) (sf_errorsOnly f) s \<and>
        ancestor spans n s = Some t}) \<and>
    (\<forall>s \<in> set spans. spanPath spans (Some (sp_spanId s)) =
      {sp_spanId t | t n. ancestor spans n s = Some t}) \<and>
    (\<forall>i. i \<notin> sp_spanId ` set spans \<longrightarrow> spanPath spans (Some i) = {})"
proof (intro conjI allI impI ballI)
  fix ids assume "matchingSpanIds spans f = Some ids"
  then have "ids = (\<Union>s \<in> {s \<in> set spans. span_matches (toLowerCase (trim (sf_query f))) (sf_errorsOnly f) s}.
      up_ids spans (Some s))"
    using matching_fold [OF assms subset_refl, of "{}"] by (simp add: matchingSpanIds_def Let_def split: if_splits)
  then show "ids = {sp_spanId t | t s n. s \<in> set spans \<and>
        span_matches (toLowerCase (trim (sf_query f))) (sf_errorsOnly f) s \<and>
        ancestor spans n s = Some t}"
    unfolding up_ids_def by auto
next
  fix s assume s: "s \<in> set spans"
  have "sp_spanId s \<noteq> []" using s assms unfolding ids_ok_def by (metis image_eqI)
  moreover have "by_id spans (sp_spanId s) = Some s" using s assms by (simp add: by_id_Some)
  moreover note s
  ultimately
  show "spanPath spans (Some (sp_spanId s)) = {sp_spanId t | t n. ancestor spans n s = Some t}"
    using climb_spec [OF assms, of "Some s" "{}"] by (auto simp: spanPath_def up_ids_def)
next
  fix i assume "i \<notin> sp_spanId ` set spans"
  then have "by_id spans i = None" by (simp add: by_id_None)
  then show "spanPath spans (Some i) = {}" by (simp add: spanPath_def)
qed

theorem span_highlight_exact_witness:
  "spanPath [mk_span ''b'' ''a'' 5, mk_span ''a'' ''b'' 3] (Some ''q'') = {}"
proof -
  have "ids_ok [mk_span ''b'' ''a'' 5, mk_span ''a'' ''b'' 3]" by (simp add: ids_ok_def)
  from span_highlight_exact [OF this, THEN conjunct2, THEN conjunct2] show ?thesis by simp
qed

text \<open>A span whose id and parent are both empty is its own child: the recursion never ends,
  whatever the depth of the stack.\<close>

theorem empty_ids_overflow:
  assumes "s \<in> set spans" and "sp_spanId s = []" and "sp_parentSpanId s = []"
  shows "buildTree fuel spans = None"
proof -
  have "walk n spans [] d = None" for n d
  proof (induction n arbitrary: d)
    case (Suc n)
    have "s \<in> set (kids spans [])" using assms by simp
    moreover have "walk n spans (sp_spanId s) (Suc d) = None" using Suc.IH assms(2) by simp
    ultimately have "\<not> (\<forall>k \<in> set (kids spans []). walk n spans (sp_spanId k) (Suc d) \<noteq> None)"
      by blast
    then show ?case using walk_Suc_iff [of n spans "[]" d] by (metis not_None_eq)
  qed simp
  then have "walk fuel spans (sp_spanId s) 1 = None" using assms(2) by simp
  moreover have "s \<in> set (root_spans spans)" using assms by (simp add: is_root_def)
  ultimately have "\<not> (\<forall>r \<in> set (root_spans spans). walk fuel spans (sp_spanId r) 1 \<noteq> None)"
    by blast
  then show ?thesis using buildTree_iff by (metis not_None_eq)
qed

theorem empty_ids_overflow_witness:
  "buildTree 100 [mk_span [] [] 1] = None"
  by (rule empty_ids_overflow [of "mk_span [] [] 1"]) simp_all

section \<open>The timeline\<close>

lemma foldl_min_key:
  "foldl (\<lambda>mn s. if f s < mn then f s else mn) a ss = Min (insert (a::int) (f ` set ss))"
proof (induction ss arbitrary: a)
  case (Cons x ss)
  have "Min (insert a (insert (f x) (f ` set ss))) = Min (insert (min (f x) a) (f ` set ss))"
    by (cases "ss = []") (simp_all add: min.commute min.left_commute)
  then show ?case by (simp add: Cons.IH min_def)
qed simp

lemma foldl_max_key:
  "foldl (\<lambda>mx s. if f s > mx then f s else mx) a ss = Max (insert (a::int) (f ` set ss))"
proof (induction ss arbitrary: a)
  case (Cons x ss)
  have "Max (insert a (insert (f x) (f ` set ss))) = Max (insert (max a (f x)) (f ` set ss))"
    by (cases "ss = []") (simp_all add: max.commute max.left_commute)
  then show ?case by (auto simp: Cons.IH max_def)
qed simp

text \<open>The timeline of a trace is at least one nanosecond long; a trace that reports no duration
  gets one from its spans, which then all lie inside the timeline as long as the extent is a safe
  integer.\<close>

theorem traceTimeline_covers:
  assumes "traceTimeline t = (start, duration)"
  shows "1 \<le> duration \<and>
    (0 < tr_duration t \<longrightarrow> start = tr_startEpochNs t \<and> duration = max 1 (tr_duration t)) \<and>
    (tr_duration t \<le> 0 \<and> s \<in> set (tr_spans t) \<and> sp_startEpochNs s \<le> sp_endEpochNs s \<and>
       (\<forall>x \<in> set (tr_spans t). safe_int (sp_endEpochNs x - start)) \<longrightarrow>
       start \<le> sp_startEpochNs s \<and> of_int (sp_endEpochNs s) \<le> of_int start + duration)"
proof -
  have "start \<le> sp_startEpochNs s \<and> of_int (sp_endEpochNs s) \<le> of_int start + duration"
    if d: "tr_duration t \<le> 0" and s: "s \<in> set (tr_spans t)" "sp_startEpochNs s \<le> sp_endEpochNs s"
      and safe: "\<forall>x \<in> set (tr_spans t). safe_int (sp_endEpochNs x - start)"
  proof -
    let ?S = "sp_startEpochNs ` set (tr_spans t)" and ?E = "sp_endEpochNs ` set (tr_spans t)"
    have ne: "tr_spans t \<noteq> []" using s by auto
    then have "tr_spans t ! 0 \<in> set (tr_spans t)" by simp
    then have "insert (sp_startEpochNs (tr_spans t ! 0)) ?S = ?S" by blast
    with assms d ne have start: "start = Min ?S" and
      dur: "duration = max 1 (num_of_bigint (Max (insert start ?E) - start))"
      by (auto simp: traceTimeline_def foldl_min_key foldl_max_key Let_def)
    have "Max (insert start ?E) \<in> insert start ?E" by (rule Max_in) auto
    then have "safe_int (Max (insert start ?E) - start)" using safe by (auto simp: safe_int_def)
    then have "of_int (Max (insert start ?E) - start) \<le> duration" by (simp add: dur)
    moreover have "sp_endEpochNs s \<le> Max (insert start ?E)" using s by simp
    moreover have "start \<le> sp_startEpochNs s" using s start by simp
    ultimately show ?thesis
      by (simp add: algebra_simps)
  qed
  moreover have "1 \<le> duration" "0 < tr_duration t \<longrightarrow> start = tr_startEpochNs t \<and> duration = max 1 (tr_duration t)"
    using assms by (auto simp: traceTimeline_def Let_def split: if_splits)
  ultimately show ?thesis by blast
qed

theorem traceTimeline_covers_witness:
  "traceTimeline \<lparr>tr_linkCount = 0, tr_traceId = ''t'', tr_rootSpan = None, tr_serviceName = ''svc'',
       tr_searchValues = None, tr_spanCount = 2, tr_startTime = ''s'', tr_duration = 0,
       tr_spans = [mk_span ''a'' [] 5, mk_span ''b'' ''a'' 3], tr_startEpochNs = 9\<rparr> = (3, 3) \<and>
   (of_int (sp_endEpochNs (mk_span ''a'' [] 5)) :: number) \<le> of_int 3 + 3"
proof -
  let ?t = "\<lparr>tr_linkCount = 0, tr_traceId = ''t'', tr_rootSpan = None, tr_serviceName = ''svc'',
       tr_searchValues = None, tr_spanCount = 2, tr_startTime = ''s'', tr_duration = 0,
       tr_spans = [mk_span ''a'' [] 5, mk_span ''b'' ''a'' 3], tr_startEpochNs = 9\<rparr>"
  have t: "traceTimeline ?t = (3, 3)" by (simp add: traceTimeline_def safe_int_def)
  from traceTimeline_covers [OF t, of "mk_span ''a'' [] 5"] show ?thesis
    by (simp add: t safe_int_def)
qed

lemma map_fst_serviceColors: "map fst (traceServiceColors spans) = uniq (map sp_serviceName spans)"
  by (simp add: traceServiceColors_def Let_def map_fst_zip comp_def case_prod_beta)

text \<open>Every service of the trace has one colour, and services that are first seen fewer than six
  services apart have different colours.\<close>

theorem traceServiceColors_spread:
  assumes "i < length (traceServiceColors spans)" and "j < length (traceServiceColors spans)"
    and "i < j" and "j < i + 6"
  shows "map fst (traceServiceColors spans) = uniq (map sp_serviceName spans) \<and>
    distinct (map fst (traceServiceColors spans)) \<and>
    snd (traceServiceColors spans ! i) \<noteq> snd (traceServiceColors spans ! j)"
proof -
  have d: "distinct SERVICE_COLORS" "length SERVICE_COLORS = 6" by (simp_all add: SERVICE_COLORS_def)
  have "snd (traceServiceColors spans ! k) = SERVICE_COLORS ! (k mod 6)"
    if "k < length (traceServiceColors spans)" for k
    using that by (simp add: traceServiceColors_def Let_def d(2))
  moreover have "i mod 6 \<noteq> j mod 6"
  proof
    assume "i mod 6 = j mod 6"
    then have "6 dvd j - i" using assms(3) by (metis less_imp_le mod_eq_dvd_iff_nat)
    with assms(3,4) show False by (auto dest: dvd_imp_le)
  qed
  ultimately show ?thesis
    using assms(1,2) d by (simp add: map_fst_serviceColors nth_eq_iff_index_eq)
qed

theorem traceServiceColors_spread_witness:
  "snd (traceServiceColors [mk_span ''a'' [] 5, (mk_span ''b'' [] 5)\<lparr>sp_serviceName := ''db''\<rparr>] ! 0) \<noteq>
   snd (traceServiceColors [mk_span ''a'' [] 5, (mk_span ''b'' [] 5)\<lparr>sp_serviceName := ''db''\<rparr>] ! 1)"
proof -
  have "length (traceServiceColors [mk_span ''a'' [] 5, (mk_span ''b'' [] 5)\<lparr>sp_serviceName := ''db''\<rparr>]) = 2"
    by (simp add: traceServiceColors_def uniq_def mk_span_def)
  with traceServiceColors_spread [of 0 "[mk_span ''a'' [] 5, (mk_span ''b'' [] 5)\<lparr>sp_serviceName := ''db''\<rparr>]" 1]
  show ?thesis by simp
qed

end
