(* ===== verification/Waterfall.thy ===== *)
theory Waterfall
  imports SpanTree Formatting
begin

text \<open>
  The waterfall of a trace: the collapsed rows and the geometry of the bars of
  \<^verbatim>\<open>components/traces/span-waterfall.tsx\<close>, the selection of a time range by dragging
  of \<^verbatim>\<open>use-trace-range-selection.ts\<close> and the bars of
  \<^verbatim>\<open>trace-overview.tsx\<close>. A render is a function of the component's state and its
  properties; a handler is an update of the state that closes over the render it belongs to.
\<close>

section \<open>Collapsed rows\<close>

record collapse_state =
  cl_selectedId :: "string option"
  cl_collapsed :: "string set"

record waterfall_state =
  wf_collapse :: collapse_state
  wf_search :: string
  wf_errorsOnly :: bool
  wf_hovered :: "string option"

definition new_waterfall :: "string option \<Rightarrow> waterfall_state" where
  "new_waterfall selectedId =
     \<lparr>wf_collapse = \<lparr>cl_selectedId = selectedId, cl_collapsed = {}\<rparr>, wf_search = [],
      wf_errorsOnly = False, wf_hovered = None\<rparr>"

text \<open>A render that sees another selection opens the rows above it.\<close>

definition sync_collapse :: "span list \<Rightarrow> string option \<Rightarrow> collapse_state \<Rightarrow> collapse_state" where
  "sync_collapse spans selectedId c =
     (if cl_selectedId c \<noteq> selectedId
      then \<lparr>cl_selectedId = selectedId,
            cl_collapsed = cl_collapsed c - {i \<in> spanPath spans selectedId. Some i \<noteq> selectedId}\<rparr>
      else c)"

definition render_waterfall :: "span list \<Rightarrow> string option \<Rightarrow> waterfall_state \<Rightarrow> waterfall_state" where
  "render_waterfall spans selectedId w =
     w\<lparr>wf_collapse := sync_collapse spans selectedId (wf_collapse w)\<rparr>"

definition wf_matching :: "span list \<Rightarrow> waterfall_state \<Rightarrow> string set option" where
  "wf_matching spans w =
     matchingSpanIds spans \<lparr>sf_query = wf_search w, sf_errorsOnly = wf_errorsOnly w\<rparr>"

text \<open>The rows a rendered state shows, of the rows of the tree.\<close>

definition shown_rows :: "span list \<Rightarrow> flat_span list \<Rightarrow> waterfall_state \<Rightarrow> flat_span list" where
  "shown_rows spans flatSpans w =
     visibleSpans flatSpans (cl_collapsed (wf_collapse w)) (wf_matching spans w)"

definition parent_rows :: "flat_span list \<Rightarrow> flat_span list" where
  "parent_rows flatSpans = filter fl_hasChildren flatSpans"

definition allCollapsed :: "flat_span list \<Rightarrow> string set \<Rightarrow> bool" where
  "allCollapsed flatSpans collapsed =
     list_all (\<lambda>row. sp_spanId (fl_span row) \<in> collapsed) (parent_rows flatSpans)"

definition toggle_row :: "string \<Rightarrow> string set \<Rightarrow> string set" where
  "toggle_row i collapsed = (if i \<in> collapsed then collapsed - {i} else insert i collapsed)"

definition toggle_all :: "flat_span list \<Rightarrow> string set \<Rightarrow> string set" where
  "toggle_all flatSpans collapsed =
     (if allCollapsed flatSpans collapsed then {}
      else set (map (\<lambda>row. sp_spanId (fl_span row)) (parent_rows flatSpans)))"

definition setCollapsedSet :: "string option \<Rightarrow> string set \<Rightarrow> waterfall_state \<Rightarrow> waterfall_state" where
  "setCollapsedSet selectedId collapsed w =
     w\<lparr>wf_collapse := \<lparr>cl_selectedId = selectedId, cl_collapsed = collapsed\<rparr>\<rparr>"

datatype waterfall_event =
    Find_span string
  | Errors_only bool
  | Toggle_all
  | Toggle_row string
  | Hover "string option"

text \<open>An event of the rendered waterfall; the collapse buttons are disabled while a filter is set.\<close>

fun waterfall_step ::
    "span list \<Rightarrow> flat_span list \<Rightarrow> string option \<Rightarrow> waterfall_event \<Rightarrow> waterfall_state \<Rightarrow> waterfall_state" where
  "waterfall_step spans flatSpans selectedId (Find_span q) w = w\<lparr>wf_search := q\<rparr>"
| "waterfall_step spans flatSpans selectedId (Errors_only b) w = w\<lparr>wf_errorsOnly := b\<rparr>"
| "waterfall_step spans flatSpans selectedId Toggle_all w =
     (if wf_matching spans w \<noteq> None then w
      else setCollapsedSet selectedId (toggle_all flatSpans (cl_collapsed (wf_collapse w))) w)"
| "waterfall_step spans flatSpans selectedId (Toggle_row i) w =
     (if wf_matching spans w \<noteq> None then w
      else setCollapsedSet selectedId (toggle_row i (cl_collapsed (wf_collapse w))) w)"
| "waterfall_step spans flatSpans selectedId (Hover i) w = w\<lparr>wf_hovered := i\<rparr>"

section \<open>Geometry\<close>

type_synonym timeline_range = "number \<times> number"

record waterfall_view =
  vw_start :: number
  vw_end :: number
  vw_duration :: number

definition waterfall_view :: "number \<Rightarrow> timeline_range \<Rightarrow> waterfall_view" where
  "waterfall_view totalNs rng =
     (let viewStart = num_div (num_mul totalNs (fst rng)) 100;
          viewEnd = num_div (num_mul totalNs (snd rng)) 100
      in \<lparr>vw_start = viewStart, vw_end = viewEnd, vw_duration = max 1 (num_sub viewEnd viewStart)\<rparr>)"

definition labelWidth :: "number \<Rightarrow> number" where
  "labelWidth width = min 260 (max 150 (num_mul width (fl (27 / 100))))"

definition serviceWidth :: "number \<Rightarrow> number" where
  "serviceWidth width = (if width < 650 then 100 else 140)"

definition timelineWidth :: "number \<Rightarrow> number" where
  "timelineWidth width =
     max 0 (num_sub (num_sub (num_sub width (labelWidth width)) (serviceWidth width)) 24)"

definition tickCount :: "number \<Rightarrow> int" where
  "tickCount tlWidth = min 5 (max 1 \<lfloor>num_div tlWidth 100\<rfloor>)"

text \<open>The places of the marks, in percent, and the texts of the labelled ones.\<close>

definition tick_left :: "int \<Rightarrow> number \<Rightarrow> number" where
  "tick_left ticks i = num_mul (num_div i (of_int ticks)) 100"

definition tick_label :: "(number \<Rightarrow> string) \<Rightarrow> number \<Rightarrow> waterfall_view \<Rightarrow> int \<Rightarrow> int \<Rightarrow> string" where
  "tick_label num_text totalNs v ticks i =
     createDurationFormatter num_text (min (vw_duration v) totalNs)
       (num_add (vw_start v) (num_div (num_mul (vw_duration v) (of_int i)) (of_int ticks)))"

definition ticks_shown :: "(number \<Rightarrow> string) \<Rightarrow> number \<Rightarrow> waterfall_view \<Rightarrow> int \<Rightarrow> (number \<times> string) list" where
  "ticks_shown num_text totalNs v ticks =
     map (\<lambda>i. (tick_left ticks (of_int i), tick_label num_text totalNs v ticks i)) [0..ticks]"

definition minor_ticks :: "int \<Rightarrow> number list" where
  "minor_ticks ticks = map (\<lambda>i. tick_left ticks (num_add (of_int i) (1 / 2))) [0..ticks - 1]"

record span_bar =
  br_intersects :: bool
  br_start :: number
  br_duration :: number
  br_label :: string
  br_labelInside :: bool
  br_labelOnLeft :: bool
  br_durationLeft :: number

definition bar_start :: "waterfall_view \<Rightarrow> number \<Rightarrow> number" where
  "bar_start v offset =
     max 0 (min 100 (num_mul (num_div (num_sub offset (vw_start v)) (vw_duration v)) 100))"

definition bar_duration :: "waterfall_view \<Rightarrow> number \<Rightarrow> number \<Rightarrow> number" where
  "bar_duration v offset spanEnd =
     max 0 (min (num_sub 100 (bar_start v offset))
       (num_mul (num_div (num_sub (min spanEnd (vw_end v)) (max offset (vw_start v))) (vw_duration v)) 100))"

definition span_end :: "number \<Rightarrow> span \<Rightarrow> number" where
  "span_end offset s = num_add offset (max 0 (sp_duration s))"

definition span_bar :: "(number \<Rightarrow> string) \<Rightarrow> int \<Rightarrow> waterfall_view \<Rightarrow> number \<Rightarrow> span \<Rightarrow> span_bar" where
  "span_bar num_text baseNs v tlWidth s =
     (let offset = toNsOffset (sp_startEpochNs s) baseNs;
          spanEnd = span_end offset s;
          start = bar_start v offset;
          duration = bar_duration v offset spanEnd;
          barWidth = max 3 (num_div (num_mul tlWidth duration) 100);
          barStart = min (num_sub tlWidth 3) (num_div (num_mul tlWidth start) 100);
          labelInside = barWidth > 50;
          labelOnLeft = (\<not> labelInside \<and> num_add barStart (num_div barWidth 2) > num_div tlWidth 2)
      in \<lparr>br_intersects = (spanEnd \<ge> vw_start v \<and> offset \<le> vw_end v),
          br_start = start, br_duration = duration,
          br_label = formatDuration num_text (sp_duration s),
          br_labelInside = labelInside, br_labelOnLeft = labelOnLeft,
          br_durationLeft =
            (if labelInside then num_add barStart (num_div barWidth 2)
             else if labelOnLeft then num_sub barStart 4
             else num_add (num_add barStart barWidth) 4)\<rparr>)"

text \<open>The colour of a row and of its bar.\<close>

definition ERROR_COLOR :: string where
  "ERROR_COLOR = ''var(--destructive)''"

definition row_color :: "(string \<times> string) list \<Rightarrow> span \<Rightarrow> string option" where
  "row_color serviceColorMap s =
     (if sp_statusCode s = Error then Some ERROR_COLOR else map_of serviceColorMap (sp_serviceName s))"

section \<open>Overview\<close>

record overview_bar =
  ov_left :: number
  ov_width :: number
  ov_top :: number
  ov_height :: number
  ov_background :: "string option"

definition overview_bars :: "trace \<Rightarrow> overview_bar list" where
  "overview_bars t =
     (let (start, duration) = traceTimeline t;
          serviceColors = traceServiceColors (tr_spans t);
          n = of_nat (length (tr_spans t))
      in map (\<lambda>(s, index).
           \<lparr>ov_left = max 0 (num_mul (num_div (num_of_bigint (sp_startEpochNs s - start)) duration) 100),
            ov_width = num_mul (num_div (max 0 (sp_duration s)) duration) 100,
            ov_top = num_add 5 (num_div (num_mul (of_nat index) 28) n),
            ov_height = min 4 (num_div 28 n),
            ov_background =
              (if sp_statusCode s = Error then Some ''var(--destructive)''
               else map_of serviceColors (sp_serviceName s))\<rparr>)
         (zip (tr_spans t) [0..<length (tr_spans t)]))"

definition thumb_text :: "(number \<Rightarrow> string) \<Rightarrow> number \<Rightarrow> number \<Rightarrow> string" where
  "thumb_text num_text duration v = formatDuration num_text (num_div (num_mul duration v) 100)"

section \<open>Range selection\<close>

record selection_drag =
  sd_pointerId :: int
  sd_startX :: number
  sd_left :: number
  sd_width :: number
  sd_started :: bool

record pointer_event =
  pe_pointerId :: int
  pe_clientX :: number
  pe_button :: int
  pe_on_thumb :: bool
  pe_rect :: "number \<times> number"

datatype pointer_handler = Pointer_down | Pointer_move | Pointer_up | Pointer_cancel | Lost_capture

definition to_step :: "selection_drag \<Rightarrow> number \<Rightarrow> int" where
  "to_step d x =
     max 0 (min 1000 (math_round (num_mul (num_div (num_sub x (sd_left d)) (sd_width d)) 1000)))"

definition drag_range :: "selection_drag \<Rightarrow> number \<Rightarrow> timeline_range" where
  "drag_range d x =
     (let anchor = to_step d (sd_startX d); current = to_step d x;
          lower = min 999 (min anchor current)
      in (num_div (of_int lower) 10, num_div (of_int (max (lower + 1) (max anchor current))) 10))"

definition updateSelection ::
    "pointer_event \<Rightarrow> selection_drag option \<Rightarrow> selection_drag option \<times> timeline_range option" where
  "updateSelection ev sel =
     (case sel of
        None \<Rightarrow> (sel, None)
      | Some d \<Rightarrow>
          if sd_pointerId d \<noteq> pe_pointerId ev then (sel, None)
          else if \<not> sd_started d \<and> \<bar>num_sub (pe_clientX ev) (sd_startX d)\<bar> < 3 then (sel, None)
          else (Some (d\<lparr>sd_started := True\<rparr>), Some (drag_range d (pe_clientX ev))))"

definition clearSelection :: "pointer_event \<Rightarrow> selection_drag option \<Rightarrow> selection_drag option" where
  "clearSelection ev sel =
     (if map_option sd_pointerId sel = Some (pe_pointerId ev) then None else sel)"

definition onPointerDownCapture :: "pointer_event \<Rightarrow> selection_drag option \<Rightarrow> selection_drag option" where
  "onPointerDownCapture ev sel =
     (if sel \<noteq> None \<or> pe_button ev \<noteq> 0 \<or> pe_on_thumb ev then sel
      else if snd (pe_rect ev) \<le> 0 then sel
      else Some \<lparr>sd_pointerId = pe_pointerId ev, sd_startX = pe_clientX ev, sd_left = fst (pe_rect ev),
                 sd_width = snd (pe_rect ev), sd_started = False\<rparr>)"

text \<open>The handlers by event, with the range the event reports.\<close>

fun selection_step ::
    "pointer_handler \<Rightarrow> pointer_event \<Rightarrow> selection_drag option \<Rightarrow> selection_drag option \<times> timeline_range option" where
  "selection_step Pointer_down ev sel = (onPointerDownCapture ev sel, None)"
| "selection_step Pointer_move ev sel = updateSelection ev sel"
| "selection_step Pointer_up ev sel =
     (let (sel', r) = updateSelection ev sel in (clearSelection ev sel', r))"
| "selection_step Pointer_cancel ev sel = (clearSelection ev sel, None)"
| "selection_step Lost_capture ev sel = (clearSelection ev sel, None)"

fun selection_run ::
    "(pointer_handler \<times> pointer_event) list \<Rightarrow> selection_drag option \<Rightarrow> selection_drag option \<times> timeline_range list" where
  "selection_run [] sel = (sel, [])"
| "selection_run ((h, ev) # es) sel =
     (let (sel', r) = selection_step h ev sel; (sel'', rs) = selection_run es sel'
      in (sel'', (case r of None \<Rightarrow> rs | Some x \<Rightarrow> x # rs)))"

section \<open>Which rows show\<close>

text \<open>No collapsed row strictly above a span.\<close>

definition open_above :: "span list \<Rightarrow> string set \<Rightarrow> span \<Rightarrow> bool" where
  "open_above spans c s \<longleftrightarrow>
     (\<forall>n t. 0 < n \<longrightarrow> ancestor spans n s = Some t \<longrightarrow> sp_spanId t \<notin> c)"

lemma open_above_kid:
  assumes "by_id spans (sp_parentSpanId s) = Some p"
  shows "open_above spans c s \<longleftrightarrow> sp_spanId p \<notin> c \<and> open_above spans c p"
proof -
  have up: "ancestor spans (Suc n) s = ancestor spans n p" for n
    using assms by (simp add: ancestor_Suc_bottom)
  show ?thesis
  proof
    assume a: "open_above spans c s"
    have "sp_spanId t \<notin> c" if "ancestor spans n p = Some t" for n t
      using a that up unfolding open_above_def by (metis zero_less_Suc)
    moreover from this [of 0 p] have "sp_spanId p \<notin> c" by simp
    ultimately show "sp_spanId p \<notin> c \<and> open_above spans c p" unfolding open_above_def by blast
  next
    assume a: "sp_spanId p \<notin> c \<and> open_above spans c p"
    have "sp_spanId t \<notin> c" if "0 < n" "ancestor spans n s = Some t" for n t
    proof -
      obtain k where k: "n = Suc k" using \<open>0 < n\<close> by (cases n) simp_all
      with that(2) have "ancestor spans k p = Some t" by (simp only: up)
      with a show ?thesis unfolding open_above_def by (cases k) auto
    qed
    then show "open_above spans c s" unfolding open_above_def by blast
  qed
qed

lemma open_above_root: "is_root spans s \<Longrightarrow> ids_ok spans \<Longrightarrow> open_above spans c s"
  unfolding open_above_def
proof (intro allI impI)
  fix n t assume r: "is_root spans s" "ids_ok spans" and "0 < n" "ancestor spans n s = Some t"
  moreover from r have "by_id spans (sp_parentSpanId s) = None" by (simp add: is_root_iff by_id_None)
  ultimately show "sp_spanId t \<notin> c" by (cases n) (simp_all add: ancestor_Suc_bottom)
qed

lemma pruned_head: "flat spans s d \<in> set (pruned fuel spans c d s)"
  by (cases fuel) simp_all

lemma flat_inject: "flat spans a d = flat spans b e \<longleftrightarrow> a = b \<and> d = e"
  by (auto simp: flat_def)

lemma walk_kids:
  "walk (Suc fuel) spans (sp_spanId s) d \<noteq> None \<Longrightarrow> k \<in> set (kids spans (sp_spanId s)) \<Longrightarrow>
     walk fuel spans (sp_spanId k) (Suc d) \<noteq> None"
  using walk_Suc_iff [of fuel spans "sp_spanId s" d] by fastforce

lemma pruned_kid:
  assumes "flat spans p e \<in> set (pruned fuel spans c d s)" and "sp_spanId p \<notin> c"
    and "k \<in> set (kids spans (sp_spanId p))" and "walk fuel spans (sp_spanId s) (Suc d) \<noteq> None"
  shows "flat spans k (Suc e) \<in> set (pruned fuel spans c d s)"
  using assms(1,4)
proof (induction fuel arbitrary: d s)
  case (Suc fuel)
  show ?case
  proof (cases "p = s \<and> e = d")
    case True
    then show ?thesis using assms(2,3) pruned_head by fastforce
  next
    case False
    then obtain j where j: "sp_spanId s \<notin> c" "j \<in> set (kids spans (sp_spanId s))"
        "flat spans p e \<in> set (pruned fuel spans c (Suc d) j)"
      using Suc.prems(1) by (auto simp: flat_inject split: if_splits)
    have "walk fuel spans (sp_spanId j) (Suc (Suc d)) \<noteq> None"
      using walk_kids [OF Suc.prems(2) j(2)] .
    with Suc.IH [OF j(3)] have "flat spans k (Suc e) \<in> set (pruned fuel spans c (Suc d) j)" by blast
    with j(1,2) show ?thesis by auto
  qed
qed simp

lemma pruned_open:
  assumes ids: "ids_ok spans"
  shows "f \<in> set (pruned fuel spans c d s) \<Longrightarrow> s \<in> set spans \<Longrightarrow> open_above spans c s \<Longrightarrow>
    open_above spans c (fl_span f)"
proof (induction fuel arbitrary: d s)
  case (Suc fuel)
  show ?case
  proof (cases "f = flat spans s d")
    case False
    then obtain j where j: "sp_spanId s \<notin> c" "j \<in> set (kids spans (sp_spanId s))"
        "f \<in> set (pruned fuel spans c (Suc d) j)"
      using Suc.prems(1) by (auto split: if_splits)
    have "by_id spans (sp_parentSpanId j) = Some s" using j(2) Suc.prems(2) ids by (simp add: by_id_Some)
    then have "open_above spans c j" using open_above_kid j(1) Suc.prems(3) by blast
    with Suc.IH [OF j(3)] j(2) show ?thesis by simp
  qed (use Suc.prems in \<open>simp add: flat_def\<close>)
qed (simp add: flat_def)

lemma visible_open:
  assumes ids: "ids_ok spans" and tree: "buildTree fuel spans = Some fs" and "tree_at spans s d"
    and "open_above spans c s"
  shows "flat spans s d \<in> set (visibleSpans fs c None)"
proof -
  have w: "\<forall>r \<in> set (root_spans spans). walk fuel spans (sp_spanId r) (Suc 0) \<noteq> None"
    using tree unfolding buildTree_iff by simp
  have "\<exists>r \<in> set (root_spans spans). flat spans s d \<in> set (pruned fuel spans c 0 r)"
    using assms(3,4)
  proof (induction rule: tree_at.induct)
    case (root r)
    then show ?case using pruned_head by fastforce
  next
    case (kid p d s)
    have p: "p \<in> set spans" using kid.hyps(1) by (rule tree_at_in)
    then have "by_id spans (sp_parentSpanId s) = Some p" using kid.hyps ids by (simp add: by_id_Some)
    then have o: "sp_spanId p \<notin> c" "open_above spans c p" using open_above_kid kid.prems by blast+
    then obtain r where r: "r \<in> set (root_spans spans)" "flat spans p d \<in> set (pruned fuel spans c 0 r)"
      using kid.IH by blast
    have "s \<in> set (kids spans (sp_spanId p))" using kid.hyps by simp
    from pruned_kid [OF r(2) o(1) this w [rule_format, OF r(1)]] r(1) show ?case by blast
  qed
  then show ?thesis by (auto simp: visible_pruned [OF tree])
qed

lemma visible_only_open:
  assumes ids: "ids_ok spans" and tree: "buildTree fuel spans = Some fs"
    and "f \<in> set (visibleSpans fs c None)"
  shows "open_above spans c (fl_span f)"
proof -
  obtain r where r: "r \<in> set (root_spans spans)" "f \<in> set (pruned fuel spans c 0 r)"
    using assms(3) by (auto simp: visible_pruned [OF tree])
  then have "open_above spans c r" using open_above_root ids by simp
  with pruned_open [OF ids r(2)] r(1) show ?thesis by simp
qed

lemma in_tree_iff: "ids_ok spans \<Longrightarrow> (\<exists>d. tree_at spans s d) \<longleftrightarrow> s \<in> set spans \<and> (\<exists>n. ancestor spans n s = None)"
  using tree_at_in tree_at_ancestor ancestor_tree_at by blast

lemma visible_from_subset: "set (visible_from c m k fs) \<subseteq> set fs"
  by (induction c m k fs rule: visible_from.induct) auto

lemma visible_set:
  assumes "ids_ok spans" and "buildTree fuel spans = Some fs"
  shows "fl_span ` set (visibleSpans fs c None) =
    {s \<in> set spans. (\<exists>n. ancestor spans n s = None) \<and> open_above spans c s}"
proof -
  have sub: "set (visibleSpans fs c None) \<subseteq> set fs"
    unfolding visibleSpans_def by (rule visible_from_subset)
  show ?thesis
  proof (intro equalityI subsetI)
    fix s assume "s \<in> fl_span ` set (visibleSpans fs c None)"
    then obtain f where f: "f \<in> set (visibleSpans fs c None)" "s = fl_span f" by blast
    then have "f \<in> set fs" using sub by blast
    then have "\<exists>d. tree_at spans s d" using f(2) by (auto simp: buildTree_rows [OF assms(2)] flat_def)
    then show "s \<in> {s \<in> set spans. (\<exists>n. ancestor spans n s = None) \<and> open_above spans c s}"
      using in_tree_iff [OF assms(1)] visible_only_open [OF assms f(1)] f(2) by blast
  next
    fix s assume s: "s \<in> {s \<in> set spans. (\<exists>n. ancestor spans n s = None) \<and> open_above spans c s}"
    then obtain d where "tree_at spans s d" using in_tree_iff [OF assms(1)] by blast
    from visible_open [OF assms this] s have "flat spans s d \<in> set (visibleSpans fs c None)" by blast
    then show "s \<in> fl_span ` set (visibleSpans fs c None)" by (force simp: flat_def)
  qed
qed

lemma open_above_mono: "c' \<subseteq> c \<Longrightarrow> open_above spans c s \<Longrightarrow> open_above spans c' s"
  unfolding open_above_def by blast

lemma ancestor_add:
  "ancestor spans (m + n) s = Option.bind (ancestor spans n s) (ancestor spans m)"
proof (induction m)
  case 0
  then show ?case by (cases "ancestor spans n s") simp_all
next
  case (Suc m)
  then show ?case by (cases "ancestor spans n s") (simp_all add: ancestor_Suc)
qed

lemma ancestor_in: "s \<in> set spans \<Longrightarrow> ancestor spans n s = Some t \<Longrightarrow> t \<in> set spans"
proof (induction n arbitrary: t)
  case (Suc n)
  then show ?case by (auto simp: ancestor_Suc bind_eq_Some_conv dest: by_id_in)
qed simp

lemma spanPath_ids:
  assumes ids: "ids_ok spans" and "s \<in> set spans"
  shows "spanPath spans (Some (sp_spanId s)) = up_ids spans (Some s)"
proof -
  have "sp_spanId s \<noteq> []" using assms unfolding ids_ok_def by (metis image_eqI)
  moreover have "by_id spans (sp_spanId s) = Some s" using assms by (simp add: by_id_Some)
  ultimately show ?thesis using climb_spec [OF ids, of "Some s" "{}"] assms(2) by (simp add: spanPath_def)
qed

section \<open>Properties\<close>



text \<open>Without a filter, \<open>Collapse all\<close> leaves exactly the roots, in their order, and pressing the
  button again shows the whole tree.\<close>

theorem collapse_all_and_back:
  assumes "ids_ok spans" and "buildTree fuel spans = Some fs" and "wf_matching spans w = None"
    and "\<not> allCollapsed fs (cl_collapsed (wf_collapse w))"
  shows "let w1 = waterfall_step spans fs selectedId Toggle_all w;
             w2 = waterfall_step spans fs selectedId Toggle_all w1
    in shown_rows spans fs w1 = map (\<lambda>r. flat spans r 0) (root_spans spans) \<and>
       shown_rows spans fs w2 = fs"
proof -
  define c1 where "c1 = set (map (\<lambda>row. sp_spanId (fl_span row)) (parent_rows fs))"
  define w1 where "w1 = waterfall_step spans fs selectedId Toggle_all w"
  define w2 where "w2 = waterfall_step spans fs selectedId Toggle_all w1"
  have w1: "cl_collapsed (wf_collapse w1) = c1" "wf_matching spans w1 = None"
    using assms(3,4) by (simp_all add: w1_def c1_def setCollapsedSet_def toggle_all_def wf_matching_def)
  have "allCollapsed fs c1" by (simp add: allCollapsed_def c1_def list_all_iff)
  then have w2: "cl_collapsed (wf_collapse w2) = {}" "wf_matching spans w2 = None"
    using w1 by (simp_all add: w2_def setCollapsedSet_def toggle_all_def wf_matching_def)
  have "pruned fuel spans c1 0 r = [flat spans r 0]" if "r \<in> set (root_spans spans)" for r
  proof (cases "kids spans (sp_spanId r) = []")
    case False
    have "flat spans r 0 \<in> set fs"
      using that unfolding buildTree_rows [OF assms(2)] by (auto intro: tree_at.root)
    moreover have "fl_hasChildren (flat spans r 0)"
      using False by (simp add: flat_def kids_def)
        (metis length_0_conv length_sort_by)
    ultimately have "sp_spanId r \<in> c1" by (force simp: c1_def parent_rows_def flat_def)
    then show ?thesis by (cases fuel) simp_all
  qed (cases fuel; simp)
  then have "map (pruned fuel spans c1 0) (root_spans spans) = map (\<lambda>r. [flat spans r 0]) (root_spans spans)"
    by (intro map_cong refl)
  then have "concat (map (pruned fuel spans c1 0) (root_spans spans)) = map (\<lambda>r. flat spans r 0) (root_spans spans)"
    by (simp only: concat_map_singleton)
  then have "shown_rows spans fs w1 = map (\<lambda>r. flat spans r 0) (root_spans spans)"
    by (simp add: shown_rows_def w1 visible_pruned [OF assms(2)])
  moreover have "visible_from {} None None xs = xs" for xs by (induction xs) simp_all
  then have "shown_rows spans fs w2 = fs" by (simp add: shown_rows_def w2 visibleSpans_def)
  ultimately show ?thesis unfolding w2_def w1_def Let_def by blast
qed

theorem collapse_all_and_back_witness:
  "\<exists>fs. buildTree 3 [mk_span ''b'' ''a'' 5, mk_span ''a'' [] 3] = Some fs \<and>
     shown_rows [mk_span ''b'' ''a'' 5, mk_span ''a'' [] 3] fs
       (waterfall_step [mk_span ''b'' ''a'' 5, mk_span ''a'' [] 3] fs None Toggle_all (new_waterfall None)) =
     map (\<lambda>r. flat [mk_span ''b'' ''a'' 5, mk_span ''a'' [] 3] r 0)
       (root_spans [mk_span ''b'' ''a'' 5, mk_span ''a'' [] 3])"
proof -
  let ?s = "[mk_span ''b'' ''a'' 5, mk_span ''a'' [] 3]"
  have ids: "ids_ok ?s" by (simp add: ids_ok_def)
  then obtain fs where fs: "buildTree 3 ?s = Some fs" using buildTree_total [of ?s 3] by fastforce
  have m: "wf_matching ?s (new_waterfall None) = None"
    by (simp add: wf_matching_def new_waterfall_def matchingSpanIds_def)
  have "buildTree 3 ?s = Some [flat ?s (mk_span ''a'' [] 3) 0, flat ?s (mk_span ''b'' ''a'' 5) 1]" by code_simp
  then have "flat ?s (mk_span ''a'' [] 3) 0 \<in> set fs" using fs by simp
  moreover have "fl_hasChildren (flat ?s (mk_span ''a'' [] 3) 0)" by (simp add: flat_def children_of_def)
  ultimately have "\<not> allCollapsed fs (cl_collapsed (wf_collapse (new_waterfall None)))"
    by (auto simp: allCollapsed_def parent_rows_def list_all_iff new_waterfall_def)
  from collapse_all_and_back [OF ids fs m this, of None] fs show ?thesis by (auto simp: Let_def)
qed

text \<open>Pressing the button of a row that shows hides exactly the rows below it, and pressing it again
  brings back the rows that showed before.\<close>

lemma open_above_insert:
  "open_above spans (insert i c) s \<longleftrightarrow>
     open_above spans c s \<and> (\<forall>n t. 0 < n \<longrightarrow> ancestor spans n s = Some t \<longrightarrow> sp_spanId t \<noteq> i)"
  unfolding open_above_def by blast

theorem toggle_row_hides_below:
  assumes "ids_ok spans" and "buildTree fuel spans = Some fs" and "wf_matching spans w = None"
    and "i \<notin> cl_collapsed (wf_collapse w)"
  shows "let w1 = waterfall_step spans fs selectedId (Toggle_row i) w;
             w2 = waterfall_step spans fs selectedId (Toggle_row i) w1
    in fl_span ` set (shown_rows spans fs w1) =
         {s \<in> fl_span ` set (shown_rows spans fs w).
            \<forall>n t. 0 < n \<longrightarrow> ancestor spans n s = Some t \<longrightarrow> sp_spanId t \<noteq> i} \<and>
       shown_rows spans fs w2 = shown_rows spans fs w"
proof -
  let ?c = "cl_collapsed (wf_collapse w)"
  define w1 where "w1 = waterfall_step spans fs selectedId (Toggle_row i) w"
  define w2 where "w2 = waterfall_step spans fs selectedId (Toggle_row i) w1"
  have w1: "cl_collapsed (wf_collapse w1) = insert i ?c" "wf_matching spans w1 = None"
    using assms(3,4) by (simp_all add: w1_def setCollapsedSet_def toggle_row_def wf_matching_def)
  then have w2: "cl_collapsed (wf_collapse w2) = ?c" "wf_matching spans w2 = None"
    using assms(4) by (simp_all add: w2_def setCollapsedSet_def toggle_row_def wf_matching_def)
  have rows: "fl_span ` set (shown_rows spans fs v) =
      {s \<in> set spans. (\<exists>n. ancestor spans n s = None) \<and> open_above spans (cl_collapsed (wf_collapse v)) s}"
    if "wf_matching spans v = None" for v
    using visible_set [OF assms(1,2)] that by (simp add: shown_rows_def)
  have "fl_span ` set (shown_rows spans fs w1) =
      {s \<in> fl_span ` set (shown_rows spans fs w).
        \<forall>n t. 0 < n \<longrightarrow> ancestor spans n s = Some t \<longrightarrow> sp_spanId t \<noteq> i}"
    unfolding rows [OF w1(2)] rows [OF assms(3)] w1(1) open_above_insert by blast
  moreover have "shown_rows spans fs w2 = shown_rows spans fs w"
    by (simp add: shown_rows_def w2 assms(3))
  ultimately show ?thesis unfolding w2_def w1_def Let_def by blast
qed

theorem toggle_row_hides_below_witness:
  "\<exists>fs. buildTree 3 [mk_span ''b'' ''a'' 5, mk_span ''a'' [] 3] = Some fs \<and>
     mk_span ''b'' ''a'' 5 \<notin> fl_span ` set (shown_rows [mk_span ''b'' ''a'' 5, mk_span ''a'' [] 3] fs
       (waterfall_step [mk_span ''b'' ''a'' 5, mk_span ''a'' [] 3] fs None (Toggle_row ''a'') (new_waterfall None)))"
proof -
  let ?s = "[mk_span ''b'' ''a'' 5, mk_span ''a'' [] 3]"
  have ids: "ids_ok ?s" by (simp add: ids_ok_def)
  then obtain fs where fs: "buildTree 3 ?s = Some fs" using buildTree_total [of ?s 3] by fastforce
  have m: "wf_matching ?s (new_waterfall None) = None" "''a'' \<notin> cl_collapsed (wf_collapse (new_waterfall None))"
    by (simp_all add: wf_matching_def new_waterfall_def matchingSpanIds_def)
  have "ancestor ?s 1 (mk_span ''b'' ''a'' 5) = Some (mk_span ''a'' [] 3)"
    by (simp add: ancestor_Suc by_id_def)
  moreover have "sp_spanId (mk_span ''a'' [] 3) = ''a''" by simp
  ultimately have "\<not> (\<forall>n t. 0 < n \<longrightarrow> ancestor ?s n (mk_span ''b'' ''a'' 5) = Some t \<longrightarrow> sp_spanId t \<noteq> ''a'')"
    by (metis zero_less_one)
  with toggle_row_hides_below [OF ids fs m, of None] fs show ?thesis unfolding Let_def by blast
qed

text \<open>The bar of a span lies on the track of the view, and a span that starts no later than another has
  its bar no further to the right.\<close>

lemma bar_start_mono:
  assumes "a \<le> b" and "0 \<le> vw_duration v"
  shows "bar_start v a \<le> bar_start v b"
proof -
  have "num_sub a (vw_start v) \<le> num_sub b (vw_start v)" using assms(1) by (simp add: num_sub_def fl_mono)
  then have "num_div (num_sub a (vw_start v)) (vw_duration v) \<le> num_div (num_sub b (vw_start v)) (vw_duration v)"
    using assms(2) unfolding num_div_def by (intro fl_mono divide_right_mono)
  then have "num_mul (num_div (num_sub a (vw_start v)) (vw_duration v)) 100 \<le>
      num_mul (num_div (num_sub b (vw_start v)) (vw_duration v)) 100"
    by (simp add: num_mul_def fl_mono)
  then show ?thesis unfolding bar_start_def by (intro max.mono min.mono order_refl)
qed

theorem span_bar_on_track:
  assumes "sp_startEpochNs s \<le> sp_startEpochNs s'"
  shows "let v = waterfall_view totalNs rng; b = span_bar num_text baseNs v tlWidth s;
             b' = span_bar num_text baseNs v tlWidth s'
    in 0 \<le> br_start b \<and> br_start b \<le> 100 \<and> 0 \<le> br_duration b \<and>
       br_duration b \<le> num_sub 100 (br_start b) \<and> br_start b \<le> br_start b'"
proof -
  let ?v = "waterfall_view totalNs rng"
  let ?o = "\<lambda>s. toNsOffset (sp_startEpochNs s) baseNs"
  have v: "0 \<le> vw_duration ?v" by (simp add: waterfall_view_def Let_def)
  have "?o s \<le> ?o s'" using assms by (simp add: toNsOffset_def num_of_bigint_def fl_mono)
  then have mono: "bar_start ?v (?o s) \<le> bar_start ?v (?o s')" using v by (rule bar_start_mono)
  have b: "0 \<le> bar_start ?v (?o s)" "bar_start ?v (?o s) \<le> 100" by (simp_all add: bar_start_def)
  then have "0 \<le> num_sub 100 (bar_start ?v (?o s))" by (simp add: num_sub_def fl_nonneg)
  then have "0 \<le> bar_duration ?v (?o s) e \<and> bar_duration ?v (?o s) e \<le> num_sub 100 (bar_start ?v (?o s))" for e
    by (simp add: bar_duration_def)
  with b mono show ?thesis by (simp add: span_bar_def Let_def)
qed

theorem span_bar_on_track_witness:
  "br_start (span_bar (\<lambda>_. []) 3 (waterfall_view 8 (0, 100)) 400 (mk_span ''a'' [] 3)) \<le>
   br_start (span_bar (\<lambda>_. []) 3 (waterfall_view 8 (0, 100)) 400 (mk_span ''b'' ''a'' 5))"
  using span_bar_on_track [of "mk_span ''a'' [] 3" "mk_span ''b'' ''a'' 5" 8 "(0, 100)" "\<lambda>_. []" 3 400]
  by (simp only: Let_def mk_span_simps)

text \<open>With the whole timeline in view, every span that starts inside it is drawn, for timelines of whole
  nanoseconds up to a day.\<close>

theorem full_range_draws_all:
  assumes "traceTimeline t = (baseNs, of_int k)" and "safe_int (100 * k)"
    and "baseNs \<le> sp_startEpochNs s" and "sp_startEpochNs s \<le> baseNs + k"
  shows "br_intersects (span_bar num_text baseNs (waterfall_view (of_int k) (0, 100)) tlWidth s)"
proof -
  let ?d = "sp_startEpochNs s - baseNs"
  have k: "safe_int k" and d: "safe_int ?d" using assms by (auto simp: safe_int_def)
  have "num_mul (of_int k) 100 = of_int (100 * k)"
    using fl_of_int [OF assms(2)] by (simp add: num_mul_def mult.commute)
  then have e: "vw_end (waterfall_view (of_int k) (0, 100)) = of_int k" "vw_start (waterfall_view (of_int k) (0, 100)) = 0"
    using fl_of_int [OF k] by (simp_all add: waterfall_view_def Let_def num_div_def num_mul_def)
  have o: "toNsOffset (sp_startEpochNs s) baseNs = of_int ?d" using d by (simp add: toNsOffset_def)
  have "0 \<le> span_end (of_int ?d) s" using assms(3) by (simp add: span_end_def num_add_def fl_nonneg)
  moreover have "(of_int ?d :: number) \<le> of_int k" using assms(4) by linarith
  ultimately show ?thesis by (simp add: span_bar_def Let_def o e del: of_int_diff)
qed

theorem full_range_draws_all_witness:
  "br_intersects (span_bar (\<lambda>_. []) 3 (waterfall_view (of_int 3) (0, 100)) 400 (mk_span ''b'' ''a'' 5))"
proof -
  let ?t = "\<lparr>tr_linkCount = 0, tr_traceId = ''t'', tr_rootSpan = None, tr_serviceName = ''svc'',
       tr_searchValues = None, tr_spanCount = 2, tr_startTime = ''s'', tr_duration = 0,
       tr_spans = [mk_span ''a'' [] 5, mk_span ''b'' ''a'' 3], tr_startEpochNs = 9\<rparr>"
  have "traceTimeline ?t = (3, of_int 3)" by (simp add: traceTimeline_def safe_int_def)
  from full_range_draws_all [OF this, of "mk_span ''b'' ''a'' 5"] show ?thesis by (simp add: safe_int_def)
qed

section \<open>The selected range\<close>

text \<open>Two rationals between which two neighbouring 64ths lie are still apart when rounded.\<close>

lemma fl_tenth_less:
  assumes "0 \<le> a" and "a < b" and "b \<le> 1000"
  shows "num_div (of_int a) 10 < num_div (of_int b) 10"
proof -
  define n where "n = \<lceil>(of_int a * 64 / 10 :: rat)\<rceil>"
  have n: "of_int a * 64 / 10 \<le> (of_int n :: rat)" "of_int n < (of_int a * 64 / 10 :: rat) + 1"
    unfolding n_def by linarith+
  have "of_int a + 1 \<le> (of_int b :: rat)" using assms(2) by linarith
  with n have gap: "of_int (n + 1) \<le> (of_int b * 64 / 10 :: rat)" by simp
  have "of_int n \<le> (of_int b * 64 / 10 :: rat)" using gap by simp
  moreover have "(of_int b :: rat) \<le> 1000" using assms(3) by simp
  ultimately have "of_int n \<le> (of_int 6400 :: rat)" by simp
  moreover have "0 \<le> (of_int a :: rat)" using assms(1) by simp
  with n(1) have "of_int 0 \<le> (of_int n :: rat)" by simp
  ultimately have "0 \<le> n" "n \<le> 6400" by (simp_all only: of_int_le_iff)
  then have safe: "safe_int n" "safe_int (n + 1)" by (simp_all add: safe_int_def)
  have p: "pow2 (- 6) = 1 / 64" by (simp add: pow2_def)
  have "fl (of_int a / 10) \<le> of_int n * pow2 (- 6)"
    using fl_mono [of "of_int a / 10" "of_int n * pow2 (- 6)"] fl_dyadic [OF safe(1), of "- 6"] n(1) by (simp add: p)
  also have "\<dots> < of_int (n + 1) * pow2 (- 6)" by (simp add: p)
  also have "\<dots> \<le> fl (of_int b / 10)"
    using fl_mono [of "of_int (n + 1) * pow2 (- 6)" "of_int b / 10"] fl_dyadic [OF safe(2), of "- 6"] gap by (simp add: p)
  finally show ?thesis by (simp add: num_div_def)
qed

definition range_ok :: "timeline_range \<Rightarrow> bool" where
  "range_ok r \<longleftrightarrow>
     (\<exists>a b :: int. 0 \<le> a \<and> a < b \<and> b \<le> 1000 \<and> r = (num_div (of_int a) 10, num_div (of_int b) 10)) \<and>
     0 \<le> fst r \<and> fst r < snd r \<and> snd r \<le> 100"

lemma to_step_bounds: "0 \<le> to_step d x" "to_step d x \<le> 1000"
  by (simp_all add: to_step_def)

lemma drag_range_ok: "range_ok (drag_range d x)"
proof -
  define a where "a = min 999 (min (to_step d (sd_startX d)) (to_step d x))"
  define b where "b = max (a + 1) (max (to_step d (sd_startX d)) (to_step d x))"
  have ab: "0 \<le> a" "a < b" "b \<le> 1000" using to_step_bounds [of d] by (auto simp: a_def b_def)
  have r: "drag_range d x = (num_div (of_int a) 10, num_div (of_int b) 10)"
    by (simp add: drag_range_def a_def b_def Let_def)
  have "0 \<le> num_div (of_int a) 10" using ab by (simp add: num_div_def fl_nonneg)
  moreover have "num_div (of_int b) 10 \<le> of_int 100"
    unfolding num_div_def using ab(3) by (intro fl_le_int) (simp_all add: safe_int_def)
  moreover have "num_div (of_int a) 10 < num_div (of_int b) 10" using ab by (rule fl_tenth_less)
  ultimately show ?thesis using ab unfolding range_ok_def r by auto
qed

lemma selection_step_ok: "selection_step h ev sel = (sel', r) \<Longrightarrow> pred_option range_ok r"
  by (cases h) (auto simp: updateSelection_def drag_range_ok split: option.splits if_splits prod.splits)

text \<open>Whatever the pointers do, every range a drag reports is one of the steps of the slider, at least one
  step wide and inside the timeline, it holds the place the drag began at and the pointer's; the events of another
  pointer change nothing.\<close>

theorem range_selection_bounds:
  shows "list_all range_ok (snd (selection_run es sel)) \<and>
    (\<forall>d h ev. sel = Some d \<longrightarrow> pe_pointerId ev \<noteq> sd_pointerId d \<longrightarrow> selection_step h ev sel = (sel, None)) \<and>
    (\<forall>d x y. y = sd_startX d \<or> y = x \<longrightarrow>
       fst (drag_range d x) \<le> num_div (of_int (to_step d y)) 10 \<and>
       num_div (of_int (to_step d y)) 10 \<le> snd (drag_range d x))"
proof (intro conjI allI impI)
  show "list_all range_ok (snd (selection_run es sel))"
  proof (induction es sel rule: selection_run.induct)
    case (2 h ev es sel)
    obtain sel' r where r: "selection_step h ev sel = (sel', r)" by fastforce
    have "list_all range_ok (snd (selection_run es sel'))" using "2.IH" [OF r [symmetric] refl] .
    with selection_step_ok [OF r] r show ?case by (auto split: prod.splits option.splits)
  qed simp
next
  fix d :: selection_drag and h and ev :: pointer_event
  assume "sel = Some d" "pe_pointerId ev \<noteq> sd_pointerId d"
  then show "selection_step h ev sel = (sel, None)"
    by (cases h) (simp_all add: onPointerDownCapture_def updateSelection_def clearSelection_def)
next
  fix d :: selection_drag and x y assume y: "y = sd_startX d \<or> y = x"
  have m: "num_div (of_int i) 10 \<le> num_div (of_int j) 10" if "i \<le> j" for i j
    using that by (simp add: num_div_def fl_mono)
  show "fst (drag_range d x) \<le> num_div (of_int (to_step d y)) 10"
    "num_div (of_int (to_step d y)) 10 \<le> snd (drag_range d x)"
    using y unfolding drag_range_def Let_def fst_conv snd_conv by (auto intro!: m)
qed

theorem range_selection_bounds_witness:
  "list_all range_ok (snd (selection_run
     [(Pointer_down, \<lparr>pe_pointerId = 1, pe_clientX = 900, pe_button = 0, pe_on_thumb = False, pe_rect = (100, 800)\<rparr>),
      (Pointer_move, \<lparr>pe_pointerId = 1, pe_clientX = 905, pe_button = 0, pe_on_thumb = False, pe_rect = (100, 800)\<rparr>)]
     None)) \<and>
   snd (selection_run
     [(Pointer_down, \<lparr>pe_pointerId = 1, pe_clientX = 900, pe_button = 0, pe_on_thumb = False, pe_rect = (100, 800)\<rparr>),
      (Pointer_move, \<lparr>pe_pointerId = 1, pe_clientX = 905, pe_button = 0, pe_on_thumb = False, pe_rect = (100, 800)\<rparr>)]
     None) = [(num_div 999 10, 100)]"
proof
  show "list_all range_ok (snd (selection_run
     [(Pointer_down, \<lparr>pe_pointerId = 1, pe_clientX = 900, pe_button = 0, pe_on_thumb = False, pe_rect = (100, 800)\<rparr>),
      (Pointer_move, \<lparr>pe_pointerId = 1, pe_clientX = 905, pe_button = 0, pe_on_thumb = False, pe_rect = (100, 800)\<rparr>)]
     None))"
    by (rule range_selection_bounds [THEN conjunct1])
qed code_simp

end
