(* ===== verification/WaterfallView.thy ===== *)
theory WaterfallView
  imports Waterfall
begin

text \<open>
  What \<^verbatim>\<open>components/traces/span-waterfall.tsx\<close> and
  \<^verbatim>\<open>components/traces/trace-overview.tsx\<close> render: the head, and for every row its cell
  in the tree, in the services and on the timeline, with what a click on each does. The names of style
  classes are left out; places and colours are kept.
\<close>

section \<open>Head\<close>

record waterfall_head =
  hd_toggleAll :: string
  hd_toggleDisabled :: bool
  hd_counter :: "(nat \<times> nat) option"
  hd_ticks :: "(number \<times> string) list"
  hd_minor :: "number list"
  hd_noMatch :: bool

definition range_view :: "trace \<Rightarrow> timeline_range \<Rightarrow> waterfall_view" where
  "range_view t rng = waterfall_view (snd (traceTimeline t)) rng"

definition waterfall_head ::
    "(number \<Rightarrow> string) \<Rightarrow> trace \<Rightarrow> flat_span list \<Rightarrow> timeline_range \<Rightarrow> number \<Rightarrow> waterfall_state \<Rightarrow> waterfall_head" where
  "waterfall_head num_text t flatSpans rng width w =
     (let matching = wf_matching (tr_spans t) w;
          shown = shown_rows (tr_spans t) flatSpans w;
          ticks = tickCount (timelineWidth width)
      in \<lparr>hd_toggleAll =
            (if allCollapsed flatSpans (cl_collapsed (wf_collapse w)) then ''Expand all'' else ''Collapse all''),
          hd_toggleDisabled = (matching \<noteq> None),
          hd_counter = map_option (\<lambda>_. (length shown, length flatSpans)) matching,
          hd_ticks = ticks_shown num_text (snd (traceTimeline t)) (range_view t rng) ticks,
          hd_minor = minor_ticks ticks,
          hd_noMatch = (length shown = 0)\<rparr>)"

section \<open>Rows\<close>

record tree_cell =
  tc_key :: string
  tc_guide :: "(nat \<times> string option) option"
  tc_text :: string
  tc_pressed :: bool
  tc_hovered :: bool
  tc_reserveLinks :: bool
  tc_paddingLeft :: nat
  tc_error :: bool
  tc_links :: "int option"
  tc_toggle :: "(nat \<times> string \<times> bool \<times> bool) option"

definition is_selected :: "span option \<Rightarrow> span \<Rightarrow> bool" where
  "is_selected selectedSpan s \<longleftrightarrow> map_option sp_spanId selectedSpan = Some (sp_spanId s)"

text \<open>The place of the button that collapses a row, its text, whether the row is expanded and whether
  the button is disabled.\<close>

definition row_toggle :: "string set option \<Rightarrow> string set \<Rightarrow> flat_span \<Rightarrow> nat \<times> string \<times> bool \<times> bool" where
  "row_toggle matchingIds collapsed row =
     (let s = fl_span row; folded = sp_spanId s \<in> collapsed
      in (8 + fl_depth row * 16,
          (if matchingIds = None \<and> folded then ''Expand'' else ''Collapse'') @ '' '' @ sp_name s,
          matchingIds \<noteq> None \<or> \<not> folded, matchingIds \<noteq> None))"

definition tree_cell ::
    "(number \<Rightarrow> string) \<Rightarrow> (string \<times> string) list \<Rightarrow> string set option \<Rightarrow> span option \<Rightarrow> waterfall_state \<Rightarrow>
     flat_span \<Rightarrow> tree_cell" where
  "tree_cell num_text serviceColorMap matchingIds selectedSpan w row =
     (let s = fl_span row; depth = fl_depth row; isError = (sp_statusCode s = Error)
      in \<lparr>tc_key = sp_spanId s,
          tc_guide = (if depth > 0 then Some (20 + (depth - 1) * 16, row_color serviceColorMap s) else None),
          tc_text =
            sp_name s @ '', '' @ sp_serviceName s @ '', '' @ formatDuration num_text (sp_duration s) @
            (if isError then '', Error'' else []),
          tc_pressed = is_selected selectedSpan s,
          tc_hovered = (wf_hovered w = Some (sp_spanId s)),
          tc_reserveLinks = (sp_linkCount s > 0),
          tc_paddingLeft = 36 + depth * 16,
          tc_error = isError,
          tc_links = (if sp_linkCount s > 0 then Some (sp_linkCount s) else None),
          tc_toggle =
            (if fl_hasChildren row then Some (row_toggle matchingIds (cl_collapsed (wf_collapse w)) row)
             else None)\<rparr>)"

record service_cell =
  sc_key :: string
  sc_text :: string
  sc_selected :: bool
  sc_hovered :: bool
  sc_dot :: "string option"
  sc_service :: string

definition service_cell ::
    "(string \<times> string) list \<Rightarrow> span option \<Rightarrow> waterfall_state \<Rightarrow> span \<Rightarrow> service_cell" where
  "service_cell serviceColorMap selectedSpan w s =
     \<lparr>sc_key = sp_spanId s,
      sc_text = sp_name s @ '' service '' @ sp_serviceName s,
      sc_selected = is_selected selectedSpan s,
      sc_hovered = (wf_hovered w = Some (sp_spanId s)),
      sc_dot = map_of serviceColorMap (sp_serviceName s),
      sc_service = (if sp_serviceName s = [] then ''unknown'' else sp_serviceName s)\<rparr>"

record timeline_cell =
  tl_key :: string
  tl_text :: string
  tl_pressed :: bool
  tl_hovered :: bool
  tl_bar :: "(span_bar \<times> string option) option"

definition timeline_cell ::
    "(number \<Rightarrow> string) \<Rightarrow> (string \<times> string) list \<Rightarrow> int \<Rightarrow> waterfall_view \<Rightarrow> number \<Rightarrow> span option \<Rightarrow>
     waterfall_state \<Rightarrow> span \<Rightarrow> timeline_cell" where
  "timeline_cell num_text serviceColorMap baseNs v tlWidth selectedSpan w s =
     (let bar = span_bar num_text baseNs v tlWidth s
      in \<lparr>tl_key = sp_spanId s, tl_text = sp_name s @ '' timeline'',
          tl_pressed = is_selected selectedSpan s,
          tl_hovered = (wf_hovered w = Some (sp_spanId s)),
          tl_bar = (if br_intersects bar then Some (bar, row_color serviceColorMap s) else None)\<rparr>)"

record waterfall_shown =
  ws_head :: waterfall_head
  ws_tree :: "tree_cell list"
  ws_services :: "service_cell list"
  ws_timeline :: "timeline_cell list"

text \<open>The state is that after \<open>render_waterfall\<close>. Nothing is rendered before the width is
  measured.\<close>

definition WaterfallInner ::
    "(number \<Rightarrow> string) \<Rightarrow> trace \<Rightarrow> flat_span list \<Rightarrow> span option \<Rightarrow> timeline_range \<Rightarrow> number \<Rightarrow>
     waterfall_state \<Rightarrow> waterfall_shown" where
  "WaterfallInner num_text t flatSpans selectedSpan rng width w =
     (let shown = shown_rows (tr_spans t) flatSpans w;
          matchingIds = wf_matching (tr_spans t) w;
          colors = traceServiceColors (tr_spans t);
          baseNs = fst (traceTimeline t)
      in \<lparr>ws_head = waterfall_head num_text t flatSpans rng width w,
          ws_tree = map (tree_cell num_text colors matchingIds selectedSpan w) shown,
          ws_services = map (service_cell colors selectedSpan w \<circ> fl_span) shown,
          ws_timeline =
            map (timeline_cell num_text colors baseNs (range_view t rng) (timelineWidth width) selectedSpan w \<circ> fl_span)
              shown\<rparr>)"

definition SpanWaterfall ::
    "(number \<Rightarrow> string) \<Rightarrow> trace \<Rightarrow> flat_span list \<Rightarrow> span option \<Rightarrow> timeline_range \<Rightarrow> number \<Rightarrow>
     waterfall_state \<Rightarrow> waterfall_shown option" where
  "SpanWaterfall num_text t flatSpans selectedSpan rng width w =
     (if width > 0
      then Some (WaterfallInner num_text t flatSpans (selectedSpan) rng width
        (render_waterfall (tr_spans t) (map_option sp_spanId selectedSpan) w))
      else None)"

text \<open>The row scrolled into view when another span is selected.\<close>

definition scrolled_row :: "span option \<Rightarrow> span option \<Rightarrow> waterfall_shown \<Rightarrow> timeline_cell option" where
  "scrolled_row before selectedSpan v =
     (if map_option sp_spanId before = map_option sp_spanId selectedSpan then None
      else List.find tl_pressed (ws_timeline v))"

section \<open>Clicks\<close>

datatype row_click = Row_name | Row_links | Row_service | Row_timeline

datatype row_action = Select_span span | Open_links span

text \<open>Opening the links selects the span where no handler for links is given.\<close>

definition row_clicked :: "bool \<Rightarrow> row_click \<Rightarrow> span \<Rightarrow> row_action" where
  "row_clicked has_onOpenLinks click s =
     (case click of Row_links \<Rightarrow> if has_onOpenLinks then Open_links s else Select_span s | _ \<Rightarrow> Select_span s)"

section \<open>Overview\<close>

datatype overview_event =
    Overview_double_click
  | Slider_moved timeline_range
  | Overview_pointer pointer_handler pointer_event

text \<open>The range the overview reports, if any, beside the drag of its selection handlers.\<close>

fun overview_step :: "overview_event \<Rightarrow> selection_drag option \<Rightarrow> selection_drag option \<times> timeline_range option" where
  "overview_step Overview_double_click sel = (sel, Some (0, 100))"
| "overview_step (Slider_moved r) sel = (sel, Some r)"
| "overview_step (Overview_pointer h ev) sel = selection_step h ev sel"

definition thumb_open :: "bool \<Rightarrow> bool \<Rightarrow> nat option \<Rightarrow> nat \<Rightarrow> bool" where
  "thumb_open open_set dragging activeThumb index \<longleftrightarrow> open_set \<or> dragging \<and> activeThumb = Some index"

definition thumb_label :: "nat \<Rightarrow> string" where
  "thumb_label index = (if index = 0 then ''Range start'' else ''Range end'')"

section \<open>Lemmas\<close>

text \<open>The three columns show the same spans in the same order and mark the same one.\<close>

lemma columns_aligned:
  assumes "v = WaterfallInner num_text t flatSpans selectedSpan rng width w"
  shows "map tc_key (ws_tree v) = map sc_key (ws_services v)"
    and "map tc_key (ws_tree v) = map tl_key (ws_timeline v)"
    and "map tc_pressed (ws_tree v) = map sc_selected (ws_services v)"
    and "map tc_pressed (ws_tree v) = map tl_pressed (ws_timeline v)"
    and "map tc_hovered (ws_tree v) = map sc_hovered (ws_services v)"
  by (simp_all add: assms WaterfallInner_def tree_cell_def service_cell_def timeline_cell_def Let_def comp_def)

text \<open>A selected span that is among the rows is the row scrolled to.\<close>

lemma shown_selection_scrolled:
  assumes "v = WaterfallInner num_text t flatSpans (Some s) rng width w"
    and "s \<in> fl_span ` set (shown_rows (tr_spans t) flatSpans w)"
    and "map_option sp_spanId before \<noteq> Some (sp_spanId s)"
  shows "\<exists>row. scrolled_row before (Some s) v = Some row \<and> tl_key row = sp_spanId s \<and> tl_pressed row"
proof -
  obtain row where row: "row \<in> set (ws_timeline v)" "tl_pressed row"
    using assms(2) by (force simp: assms(1) WaterfallInner_def timeline_cell_def is_selected_def Let_def)
  have keys: "tl_key r = sp_spanId s" if "r \<in> set (ws_timeline v)" "tl_pressed r" for r
    using that by (auto simp: assms(1) WaterfallInner_def timeline_cell_def is_selected_def Let_def)
  obtain found where found: "List.find tl_pressed (ws_timeline v) = Some found"
    using row by (metis find_None_iff not_Some_eq)
  then have "found \<in> set (ws_timeline v)" "tl_pressed found"
    by (metis find_Some_iff nth_mem)+
  with keys found assms(3) show ?thesis by (simp add: scrolled_row_def)
qed

text \<open>Without a filter, a click on the button of a row turns its text and its state over; with one the
  button is disabled and every parent is shown expanded.\<close>

lemma row_toggle_flips:
  assumes "wf_matching spans w = None" and "sp_spanId (fl_span row) = i"
  shows "fst (snd (snd (row_toggle None
      (cl_collapsed (wf_collapse (waterfall_step spans flatSpans sel (Toggle_row i) w))) row))) \<longleftrightarrow>
    \<not> fst (snd (snd (row_toggle None (cl_collapsed (wf_collapse w)) row)))"
  using assms by (auto simp: row_toggle_def toggle_row_def setCollapsedSet_def Let_def)

lemma filtered_toggles_disabled:
  "snd (snd (row_toggle (Some ids) collapsed row)) = (True, True)"
  "wf_matching (tr_spans t) w \<noteq> None \<Longrightarrow> hd_toggleDisabled (waterfall_head num_text t flatSpans rng width w)"
  by (simp_all add: row_toggle_def waterfall_head_def Let_def)

lemma toggle_all_text:
  assumes "wf_matching (tr_spans t) w = None"
    and "w' = waterfall_step (tr_spans t) flatSpans sel Toggle_all w" and "parent_rows flatSpans \<noteq> []"
  shows "hd_toggleAll (waterfall_head num_text t flatSpans rng width w') \<noteq>
    hd_toggleAll (waterfall_head num_text t flatSpans rng width w)"
proof -
  let ?c = "cl_collapsed (wf_collapse w)"
  have c': "cl_collapsed (wf_collapse w') = toggle_all flatSpans ?c"
    using assms(1,2) by (simp add: setCollapsedSet_def)
  have "allCollapsed flatSpans (toggle_all flatSpans ?c) \<longleftrightarrow> \<not> allCollapsed flatSpans ?c"
    using assms(3) by (auto simp: toggle_all_def allCollapsed_def list_all_iff)
  then show ?thesis by (simp add: waterfall_head_def c' Let_def)
qed

text \<open>The range the overview asks for by a drag or a double click lies in the bounds of its slider.\<close>

lemma overview_range_ok:
  assumes "overview_step e sel = (sel', Some r)" and "\<forall>q. e \<noteq> Slider_moved q"
  shows "range_ok r"
proof (cases e)
  case Overview_double_click
  moreover have "range_ok (0, 100)" unfolding range_ok_def
  proof (intro conjI exI)
    show "(0, 100) = (num_div (of_int 0) 10, num_div (of_int 1000) 10)" by code_simp
  qed simp_all
  ultimately show ?thesis using assms(1) by simp
next
  case (Overview_pointer h ev)
  then show ?thesis using assms(1) selection_step_ok [of h ev sel sel' "Some r"] by simp
qed (use assms in auto)

end
