(* ===== verification/RouteSearch.thy ===== *)
theory RouteSearch
  imports LogFilter TimeWindow
begin

text \<open>
  The search part of the address: \<^verbatim>\<open>lib/route-search.ts\<close>. \<open>URLSearchParams\<close> is a
  parameter: the entries of a query text and the query text of a list of entries. A record of
  unknown values is an association list; \<open>None\<close> is \<open>undefined\<close>.
\<close>

section \<open>Search records\<close>

record signal_search =
  ss_q :: "string option"
  ss_range :: "chart_range option"
  ss_from :: "string option"
  ss_to :: "string option"
  ss_filter :: "string list option"
  ss_disabled_filter :: "string list option"

type_synonym raw_search = "(string \<times> json option) list"

record url_params =
  params_of :: "string \<Rightarrow> (string \<times> string) list"
  params_text :: "(string \<times> string) list \<Rightarrow> string"

text \<open>\<open>String(v)\<close>\<close>

fun js_String :: "(number \<Rightarrow> string) \<Rightarrow> json \<Rightarrow> string" where
  "js_String num_text JNull = ''null''"
| "js_String num_text (JBool b) = (if b then ''true'' else ''false'')"
| "js_String num_text (JNum n) = num_text n"
| "js_String num_text (JStr s) = s"
| "js_String num_text (JArr js) = join '','' (map (\<lambda>j. if j = JNull then [] else js_String num_text j) js)"
| "js_String num_text (JObj _) = ''[object Object]''"

definition parseSearch :: "url_params \<Rightarrow> string \<Rightarrow> raw_search" where
  "parseSearch P search =
     (let params = params_of P search
      in map (\<lambda>key.
           (key,
            if key = ''filter'' \<or> key = ''disabled_filter''
            then Some (JArr (map (JStr \<circ> snd) (filter (\<lambda>p. fst p = key) params)))
            else map_option JStr (map_of params key)))
         (uniq (map fst params)))"

definition entry_params :: "(number \<Rightarrow> string) \<Rightarrow> string \<times> json option \<Rightarrow> (string \<times> string) list" where
  "entry_params num_text e =
     (case snd e of
        None \<Rightarrow> []
      | Some JNull \<Rightarrow> []
      | Some (JArr js) \<Rightarrow> map (\<lambda>j. (fst e, js_String num_text j)) js
      | Some v \<Rightarrow> [(fst e, js_String num_text v)])"

definition stringifySearch :: "url_params \<Rightarrow> (number \<Rightarrow> string) \<Rightarrow> raw_search \<Rightarrow> string" where
  "stringifySearch P num_text search =
     (let result = params_text P (concat (map (entry_params num_text) search))
      in if result \<noteq> [] then ''?'' @ result else [])"

definition search_text :: "raw_search \<Rightarrow> string \<Rightarrow> string option" where
  "search_text search key = (case map_of search key of Some (Some (JStr s)) \<Rightarrow> Some s | _ \<Rightarrow> None)"

definition search_filters :: "raw_search \<Rightarrow> string \<Rightarrow> string list option" where
  "search_filters search key =
     (case map_of search key of
        Some (Some (JArr js)) \<Rightarrow> Some (List.map_filter (\<lambda>j. case j of JStr s \<Rightarrow> Some s | _ \<Rightarrow> None) js)
      | Some (Some (JStr s)) \<Rightarrow> Some [s]
      | _ \<Rightarrow> None)"

definition validateSearch :: "raw_search \<Rightarrow> signal_search" where
  "validateSearch search =
     \<lparr>ss_q = search_text search ''q'',
      ss_range = Option.bind (search_text search ''range'') range_of_value,
      ss_from = search_text search ''from'',
      ss_to = search_text search ''to'',
      ss_filter = search_filters search ''filter'',
      ss_disabled_filter = search_filters search ''disabled_filter''\<rparr>"

section \<open>Windows\<close>

definition truthy :: "string option \<Rightarrow> bool" where
  "truthy s \<longleftrightarrow> s \<noteq> None \<and> s \<noteq> Some []"

definition eventWindowFromSearch :: "temporal \<Rightarrow> signal_search \<Rightarrow> event_window" where
  "eventWindowFromSearch T s =
     (let live = Live (case ss_range s of Some r \<Rightarrow> r | None \<Rightarrow> DEFAULT_CHART_TIME_RANGE)
      in if truthy (ss_from s) \<and> truthy (ss_to s)
         then case (inst_parse T (the (ss_from s)), inst_parse T (the (ss_to s))) of
                (Some fromInstant, Some toInstant) \<Rightarrow>
                  if fromInstant < toInstant then Fixed (inst_show T fromInstant) (inst_show T toInstant) else live
              | _ \<Rightarrow> live
         else live)"

text \<open>The fields the caller spreads over the current search.\<close>

definition eventWindowSearch :: "event_window \<Rightarrow> signal_search \<Rightarrow> signal_search" where
  "eventWindowSearch window s =
     (case window of
        Fixed f t \<Rightarrow> s\<lparr>ss_from := Some f, ss_to := Some t, ss_range := None\<rparr>
      | Live r \<Rightarrow>
          s\<lparr>ss_from := None, ss_to := None,
            ss_range := (if r = DEFAULT_CHART_TIME_RANGE then None else Some r)\<rparr>)"

section \<open>Round trips\<close>

text \<open>A search record as the router hands it to \<open>stringifySearch\<close>.\<close>

definition search_entries :: "signal_search \<Rightarrow> raw_search" where
  "search_entries s =
     [(''q'', map_option JStr (ss_q s)),
      (''range'', map_option (JStr \<circ> range_value) (ss_range s)),
      (''from'', map_option JStr (ss_from s)),
      (''to'', map_option JStr (ss_to s)),
      (''filter'', map_option (JArr \<circ> map JStr) (ss_filter s)),
      (''disabled_filter'', map_option (JArr \<circ> map JStr) (ss_disabled_filter s))]"

definition entry_list :: "string \<Rightarrow> string list option \<Rightarrow> (string \<times> string) list" where
  "entry_list key vs = (case vs of None \<Rightarrow> [] | Some vs \<Rightarrow> map (\<lambda>v. (key, v)) vs)"

definition search_params :: "signal_search \<Rightarrow> (string \<times> string) list" where
  "search_params s =
     entry_list ''q'' (map_option (\<lambda>v. [v]) (ss_q s)) @
     entry_list ''range'' (map_option (\<lambda>r. [range_value r]) (ss_range s)) @
     entry_list ''from'' (map_option (\<lambda>v. [v]) (ss_from s)) @
     entry_list ''to'' (map_option (\<lambda>v. [v]) (ss_to s)) @
     entry_list ''filter'' (ss_filter s) @ entry_list ''disabled_filter'' (ss_disabled_filter s)"

text \<open>
  What the code relies on: the text of a list of entries, behind a question mark, reads back as
  that list; only the empty list has the empty text.
\<close>

definition params_law :: "url_params \<Rightarrow> (string \<times> string) list \<Rightarrow> bool" where
  "params_law P ps \<longleftrightarrow>
     params_of P (''?'' @ params_text P ps) = ps \<and> (params_text P ps = [] \<longleftrightarrow> ps = []) \<and> params_of P [] = []"

lemma entry_params_Cons:
  "entry_params num_text (key, map_option JStr v) = entry_list key (map_option (\<lambda>v. [v]) v)"
  "entry_params num_text (key, map_option (JStr \<circ> range_value) r) = entry_list key (map_option (\<lambda>r. [range_value r]) r)"
  "entry_params num_text (key, map_option (JArr \<circ> map JStr) vs) = entry_list key vs"
  by (simp_all add: entry_params_def entry_list_def comp_def split: option.split)

lemma stringify_entries:
  "concat (map (entry_params num_text) (search_entries s)) = search_params s"
  by (simp add: search_entries_def search_params_def entry_params_Cons)

lemma search_text_parse:
  assumes "key \<noteq> ''filter''" and "key \<noteq> ''disabled_filter''"
  shows "search_text (parseSearch P q) key = map_of (params_of P q) key"
proof (cases "map_of (params_of P q) key")
  case None
  then have "key \<notin> fst ` set (params_of P q)" by (simp add: map_of_eq_None_iff)
  with None show ?thesis
    by (simp add: search_text_def parseSearch_def Let_def map_of_map_restrict restrict_map_def)
next
  case (Some v)
  then have "key \<in> fst ` set (params_of P q)" by (metis map_of_eq_None_iff option.distinct(1))
  with Some assms show ?thesis
    by (simp add: search_text_def parseSearch_def Let_def map_of_map_restrict restrict_map_def)
qed

lemma map_filter_JStr: "List.map_filter (\<lambda>j. case j of JStr s \<Rightarrow> Some s | _ \<Rightarrow> None) (map (JStr \<circ> f) xs) = map f xs"
  by (induction xs) (simp_all add: List.map_filter_simps)

text \<open>An empty list of filters leaves no trace in the address.\<close>

definition drop_empty :: "string list option \<Rightarrow> string list option" where
  "drop_empty vs = (if vs = Some [] then None else vs)"

lemma search_filters_parse:
  assumes "key = ''filter'' \<or> key = ''disabled_filter''"
  shows "search_filters (parseSearch P q) key =
    drop_empty (Some (map snd (filter (\<lambda>p. fst p = key) (params_of P q))))"
proof (cases "key \<in> fst ` set (params_of P q)")
  case True
  then have "filter (\<lambda>p. fst p = key) (params_of P q) \<noteq> []" by (auto simp: filter_empty_conv)
  with True assms show ?thesis
    by (simp add: search_filters_def parseSearch_def Let_def map_of_map_restrict restrict_map_def
        map_filter_JStr drop_empty_def)
next
  case False
  then have "filter (\<lambda>p. fst p = key) (params_of P q) = []" by (auto simp: filter_empty_conv)
  with False show ?thesis
    by (simp add: search_filters_def parseSearch_def Let_def map_of_map_restrict restrict_map_def
        drop_empty_def)
qed

lemma map_of_entry_list: "map_of (entry_list k vs) key =
    (if key = k then (case vs of Some (v # _) \<Rightarrow> Some v | _ \<Rightarrow> None) else None)"
  by (cases vs; cases "the vs") (auto simp: entry_list_def map_of_eq_None_iff split: list.split)

lemma filter_entry_list: "filter (\<lambda>p. fst p = key) (entry_list k vs) = (if key = k then entry_list k vs else [])"
  by (auto simp: entry_list_def split: option.split)

lemma range_of_value_value [simp]: "range_of_value (range_value r) = Some r"
  by (cases r) (simp_all add: range_of_value_def CHART_TIME_RANGES_def)

lemma snd_entry_list: "map snd (entry_list k vs) = (case vs of None \<Rightarrow> [] | Some v \<Rightarrow> v)"
  by (simp add: entry_list_def comp_def split: option.split)

lemma params_lookup:
  "map_of (search_params s) ''q'' = ss_q s"
  "map_of (search_params s) ''range'' = map_option range_value (ss_range s)"
  "map_of (search_params s) ''from'' = ss_from s"
  "map_of (search_params s) ''to'' = ss_to s"
  by (simp_all add: search_params_def map_of_entry_list map_add_def split: option.split)

lemma params_filters:
  "drop_empty (Some (map snd (filter (\<lambda>p. fst p = ''filter'') (search_params s)))) = drop_empty (ss_filter s)"
  "drop_empty (Some (map snd (filter (\<lambda>p. fst p = ''disabled_filter'') (search_params s)))) =
    drop_empty (ss_disabled_filter s)"
  by (simp_all add: search_params_def filter_entry_list snd_entry_list drop_empty_def split: option.split)

section \<open>Properties\<close>

text \<open>C33: writing a search record into the address and reading it back gives the record: texts, range,
  bounds and repeated filters in their order; an empty filter list comes back as absent.\<close>

theorem route_search_round_trip:
  assumes "params_law P (search_params s)"
  shows "validateSearch (parseSearch P (stringifySearch P num_text (search_entries s))) =
    s\<lparr>ss_filter := drop_empty (ss_filter s), ss_disabled_filter := drop_empty (ss_disabled_filter s)\<rparr>"
proof -
  have q: "params_of P (stringifySearch P num_text (search_entries s)) = search_params s"
    using assms by (auto simp: stringifySearch_def stringify_entries params_law_def Let_def)
  show ?thesis
    unfolding validateSearch_def
    by (simp add: search_text_parse search_filters_parse q params_lookup params_filters)
      (cases "ss_range s"; simp)
qed

theorem route_search_round_trip_witness:
  "let s = \<lparr>ss_q = Some ''x'', ss_range = Some R5m, ss_from = None, ss_to = None, ss_filter = Some [''a:1'', ''b:2''],
             ss_disabled_filter = Some []\<rparr>;
       P = \<lparr>params_of = (\<lambda>t. if t = ''?!'' then search_params s else []), params_text = (\<lambda>_. ''!'')\<rparr>
   in validateSearch (parseSearch P (stringifySearch P (\<lambda>_. []) (search_entries s))) =
      s\<lparr>ss_disabled_filter := None\<rparr>"
proof -
  let ?s = "\<lparr>ss_q = Some ''x'', ss_range = Some R5m, ss_from = None, ss_to = None, ss_filter = Some [''a:1'', ''b:2''],
             ss_disabled_filter = Some []\<rparr>"
  let ?P = "\<lparr>params_of = (\<lambda>t. if t = ''?!'' then search_params ?s else []), params_text = (\<lambda>_. ''!'')\<rparr>"
  have "params_law ?P (search_params ?s)"
    by (simp add: params_law_def search_params_def entry_list_def)
  from route_search_round_trip [OF this, of "\<lambda>_. []"] show ?thesis
    by (simp add: Let_def drop_empty_def)
qed

text \<open>A window chosen in the interface is the window the address gives back: a live range exactly,
  a fixed window with the same two instants; bounds that do not parse, that are missing or that are
  not in order fall back to the live window of the search's range.\<close>

theorem window_url_round_trip:
  assumes "temporal_laws T"
  shows "eventWindowFromSearch T (eventWindowSearch (Live r) s) = Live r \<and>
    (f \<noteq> [] \<and> t \<noteq> [] \<and> inst_parse T f = Some m \<and> inst_parse T t = Some n \<and> m < n \<longrightarrow>
      eventWindowFromSearch T (eventWindowSearch (Fixed f t) s) = Fixed (inst_show T m) (inst_show T n) \<and>
      eventWindowBounds T now (eventWindowFromSearch T (eventWindowSearch (Fixed f t) s)) =
        Some (Some (inst_show T m), inst_show T n) \<and>
      inst_parse T (inst_show T m) = Some m \<and> inst_parse T (inst_show T n) = Some n) \<and>
    (\<not> (\<exists>a b m n. ss_from s = Some a \<and> ss_to s = Some b \<and> a \<noteq> [] \<and> b \<noteq> [] \<and>
         inst_parse T a = Some m \<and> inst_parse T b = Some n \<and> m < n) \<longrightarrow>
      eventWindowFromSearch T s = Live (case ss_range s of Some r \<Rightarrow> r | None \<Rightarrow> DEFAULT_CHART_TIME_RANGE))"
proof (intro conjI impI)
  show "eventWindowFromSearch T (eventWindowSearch (Live r) s) = Live r"
    by (simp add: eventWindowFromSearch_def eventWindowSearch_def truthy_def)
next
  assume a: "f \<noteq> [] \<and> t \<noteq> [] \<and> inst_parse T f = Some m \<and> inst_parse T t = Some n \<and> m < n"
  then show w: "eventWindowFromSearch T (eventWindowSearch (Fixed f t) s) = Fixed (inst_show T m) (inst_show T n)"
    by (simp add: eventWindowFromSearch_def eventWindowSearch_def truthy_def)
  show "eventWindowBounds T now (eventWindowFromSearch T (eventWindowSearch (Fixed f t) s)) =
      Some (Some (inst_show T m), inst_show T n)" by (simp add: w)
  from a assms show "inst_parse T (inst_show T m) = Some m" "inst_parse T (inst_show T n) = Some n"
    by (auto intro!: parse_show intro: parse_valid)
next
  assume "\<not> (\<exists>a b m n. ss_from s = Some a \<and> ss_to s = Some b \<and> a \<noteq> [] \<and> b \<noteq> [] \<and>
      inst_parse T a = Some m \<and> inst_parse T b = Some n \<and> m < n)"
  then show "eventWindowFromSearch T s = Live (case ss_range s of Some r \<Rightarrow> r | None \<Rightarrow> DEFAULT_CHART_TIME_RANGE)"
    by (cases "ss_from s"; cases "ss_to s")
      (auto simp: eventWindowFromSearch_def truthy_def Let_def split: option.splits)
qed

theorem window_url_round_trip_witness:
  "eventWindowFromSearch decimal_temporal
     (eventWindowSearch (Fixed ''007'' ''9'') (validateSearch [])) = Fixed ''7'' ''9''"
proof -
  let ?T = decimal_temporal
  have "inst_parse ?T ''007'' = Some 7" "inst_parse ?T ''9'' = Some 9" "inst_show ?T 7 = ''7''" "inst_show ?T 9 = ''9''"
    by code_simp+
  then show ?thesis
    using window_url_round_trip [OF decimal_temporal_laws, of R1h "validateSearch []" "''007''" "''9''" 7 9] by simp
qed

end
