(* ===== verification/QueryState.thy ===== *)
theory QueryState
  imports RouteSearch TraceSearch
begin

text \<open>
  The filters of a list as the address holds them: \<^verbatim>\<open>lib/log-query-state.ts\<close> and the
  query actions of \<^verbatim>\<open>hooks/use-signal-route.ts\<close>. The ids \<open>crypto.randomUUID\<close> draws
  are arguments. An action of the hook is the update of the search record it navigates to.
\<close>

section \<open>State\<close>

record log_filter = search_term +
  lf_id :: string
  lf_enabled :: bool

record query_state =
  qs_text :: string
  qs_filters :: "log_filter list"

abbreviation filter_term :: "log_filter \<Rightarrow> search_term" where
  "filter_term f \<equiv> search_term.truncate f"

definition newLogFilter :: "string \<Rightarrow> search_term \<Rightarrow> log_filter" where
  "newLogFilter uuid term = search_term.extend term (log_filter.fields uuid True)"

definition filter_id :: "string \<Rightarrow> nat \<Rightarrow> string" where
  "filter_id val occurrence = ''['' @ json_quote val @ '','' @ nat_text occurrence @ '']''"

definition read_value ::
    "string list \<Rightarrow> bool \<Rightarrow> (string \<times> nat) list \<times> log_filter list \<Rightarrow> string \<Rightarrow>
     (string \<times> nat) list \<times> log_filter list" where
  "read_value flds enabled acc val =
     (case acc of (occurrences, filters) \<Rightarrow>
        let parsed = parseLogSearch val flds
        in if ps_plain parsed \<noteq> [] \<or> length (ps_terms parsed) \<noteq> 1 then (occurrences, filters)
           else
             let occurrence = (case map_of occurrences val of None \<Rightarrow> 0 | Some n \<Rightarrow> n)
             in (AList.update val (occurrence + 1) occurrences,
                 filters @ [search_term.extend (ps_terms parsed ! 0)
                              (log_filter.fields (filter_id val occurrence) enabled)]))"

definition readFilterQuery :: "signal_search \<Rightarrow> string list \<Rightarrow> query_state" where
  "readFilterQuery search flds =
     (let vals = (\<lambda>vs. case vs of None \<Rightarrow> [] | Some vs \<Rightarrow> vs);
          acc = foldl (read_value flds True) ([], []) (vals (ss_filter search));
          acc = foldl (read_value flds False) acc (vals (ss_disabled_filter search))
      in \<lparr>qs_text = (case ss_q search of None \<Rightarrow> [] | Some q \<Rightarrow> q), qs_filters = snd acc\<rparr>)"

definition filterQuerySearch :: "query_state \<Rightarrow> signal_search \<Rightarrow> signal_search" where
  "filterQuerySearch state search =
     search\<lparr>ss_q := (if qs_text state = [] then None else Some (qs_text state)),
            ss_filter := Some (map (serializeLogTerm \<circ> filter_term) (filter lf_enabled (qs_filters state))),
            ss_disabled_filter :=
              Some (map (serializeLogTerm \<circ> filter_term) (filter (\<lambda>f. \<not> lf_enabled f) (qs_filters state)))\<rparr>"

section \<open>Actions\<close>

datatype signal = Logs | Traces | Metrics

fun queryFields :: "signal \<Rightarrow> string list option" where
  "queryFields Traces = Some traceFields"
| "queryFields Metrics = Some metricFields"
| "queryFields Logs = None"

text \<open>The default of the parser's second argument.\<close>

definition fields_or_default :: "string list option \<Rightarrow> string list" where
  "fields_or_default flds = (case flds of None \<Rightarrow> map fst logFields | Some f \<Rightarrow> f)"

definition signal_query_search :: "query_state \<Rightarrow> string" where
  "signal_query_search state =
     join '' '' (filter (\<lambda>s. s \<noteq> [])
       (qs_text state # map (serializeLogTerm \<circ> filter_term) (filter lf_enabled (qs_filters state))))"

definition setState :: "signal \<Rightarrow> (query_state \<Rightarrow> query_state) \<Rightarrow> signal_search \<Rightarrow> signal_search" where
  "setState sig upd previous =
     filterQuerySearch (upd (readFilterQuery previous (fields_or_default (queryFields sig)))) previous"

definition addQueryFilter :: "string \<Rightarrow> query_state \<Rightarrow> search_term \<Rightarrow> query_state" where
  "addQueryFilter uuid state term =
     (let query = serializeLogTerm term
      in case find (\<lambda>f. serializeLogTerm (filter_term f) = query) (qs_filters state) of
           Some existing \<Rightarrow>
             state\<lparr>qs_filters := map (\<lambda>f. if lf_id f = lf_id existing then f\<lparr>lf_enabled := True\<rparr> else f)
                      (qs_filters state)\<rparr>
         | None \<Rightarrow> state\<lparr>qs_filters := qs_filters state @ [newLogFilter uuid term]\<rparr>)"

definition addFilter :: "signal \<Rightarrow> string \<Rightarrow> search_term \<Rightarrow> signal_search \<Rightarrow> signal_search" where
  "addFilter sig uuid term = setState sig (\<lambda>previous. addQueryFilter uuid previous term)"

definition parse_signal :: "signal \<Rightarrow> string \<Rightarrow> parsed_search" where
  "parse_signal sig txt =
     (case sig of Traces \<Rightarrow> parseTraceSearch txt | Metrics \<Rightarrow> parseMetricSearch txt
      | Logs \<Rightarrow> parseLogSearch txt (map fst logFields))"

definition setText :: "signal \<Rightarrow> string list \<Rightarrow> string \<Rightarrow> signal_search \<Rightarrow> string \<times> signal_search" where
  "setText sig uuids txt search =
     (let parsed = parse_signal sig txt
      in (ps_plain parsed,
          setState sig (\<lambda>previous.
            \<lparr>qs_text = ps_plain parsed,
             qs_filters = qs_filters previous @ map2 newLogFilter uuids (ps_terms parsed)\<rparr>) search))"

text \<open>The search record \<open>navigateToLogs\<close> leads to.\<close>

definition logs_of_trace :: "temporal \<Rightarrow> string \<Rightarrow> string \<Rightarrow> signal_search \<Rightarrow> signal_search \<Rightarrow> signal_search" where
  "logs_of_trace T uuid traceId previous current =
     (let query = addQueryFilter uuid (readFilterQuery previous (map fst logFields))
            (draftTerm \<lparr>df_key = ''trace_id'', df_operator = Is, df_value = traceId\<rparr> (map fst logFields))
      in eventWindowSearch (eventWindowFromSearch T current) (filterQuerySearch query previous))"

section \<open>Lemmas\<close>

lemma truncate_extend [simp]: "filter_term (search_term.extend t (log_filter.fields i e)) = t"
  "lf_enabled (search_term.extend t (log_filter.fields i e)) = e"
  "lf_id (search_term.extend t (log_filter.fields i e)) = i"
  by (simp_all add: search_term.defs log_filter.defs)

lemma filter_id_inj [simp]: "filter_id v m = filter_id w n \<longleftrightarrow> v = w \<and> m = n"
  by (auto simp: filter_id_def json_string.enc_append_inj)

definition readable :: "string list \<Rightarrow> log_filter \<Rightarrow> bool" where
  "readable flds f \<longleftrightarrow> term_ok flds (filter_term f)"

lemma parse_one: "field_names_ok flds \<Longrightarrow> readable flds f \<Longrightarrow>
    parseLogSearch (serializeLogTerm (filter_term f)) flds = \<lparr>ps_plain = [], ps_terms = [filter_term f]\<rparr>"
  using parse_serialized [of flds "[filter_term f]"] by (simp add: readable_def)

lemma read_values:
  assumes "field_names_ok flds" and "list_all (readable flds) fs"
  shows "map (\<lambda>f. (filter_term f, lf_enabled f))
      (snd (foldl (read_value flds e) acc (map (serializeLogTerm \<circ> filter_term) fs))) =
    map (\<lambda>f. (filter_term f, lf_enabled f)) (snd acc) @ map (\<lambda>f. (filter_term f, e)) fs"
  using assms(2)
  by (induction fs arbitrary: acc)
    (auto simp: read_value_def parse_one [OF assms(1)] Let_def split: prod.splits)

text \<open>Every id read so far carries an occurrence number below the counter of its text.\<close>

definition ids_counted :: "(string \<times> nat) list \<times> log_filter list \<Rightarrow> bool" where
  "ids_counted acc \<longleftrightarrow>
     distinct (map lf_id (snd acc)) \<and>
     (\<forall>f \<in> set (snd acc). \<exists>v n m. lf_id f = filter_id v n \<and> map_of (fst acc) v = Some m \<and> n < m)"

lemma read_value_ids: "ids_counted acc \<Longrightarrow> ids_counted (read_value flds e acc val)"
proof -
  assume ok: "ids_counted acc"
  obtain occ fs where acc: "acc = (occ, fs)" by (cases acc)
  let ?n = "case map_of occ val of None \<Rightarrow> 0 | Some n \<Rightarrow> n"
  have fresh: "filter_id val ?n \<notin> lf_id ` set fs"
    using ok by (auto simp: ids_counted_def acc)
  have old: "\<exists>v n m. lf_id f = filter_id v n \<and> map_of (AList.update val (?n + 1) occ) v = Some m \<and> n < m"
    if "f \<in> set fs" for f
  proof -
    from ok that obtain v n m where f: "lf_id f = filter_id v n" "map_of occ v = Some m" "n < m"
      by (auto simp: ids_counted_def acc)
    show ?thesis
    proof (cases "v = val")
      case True
      with f show ?thesis by (intro exI [of _ v] exI [of _ n] exI [of _ "?n + 1"]) (simp add: update_conv')
    next
      case False
      with f show ?thesis by (intro exI [of _ v] exI [of _ n] exI [of _ m]) (simp add: update_conv')
    qed
  qed
  have new: "\<exists>v n m. filter_id val ?n = filter_id v n \<and> map_of (AList.update val (?n + 1) occ) v = Some m \<and> n < m"
    by (intro exI [of _ val] exI [of _ ?n] exI [of _ "?n + 1"]) (simp add: update_conv')
  show ?thesis
  proof (cases "ps_plain (parseLogSearch val flds) \<noteq> [] \<or> length (ps_terms (parseLogSearch val flds)) \<noteq> 1")
    case True
    with ok show ?thesis by (simp add: read_value_def acc)
  next
    case False
    then have "read_value flds e acc val =
        (AList.update val (?n + 1) occ,
         fs @ [search_term.extend (ps_terms (parseLogSearch val flds) ! 0) (log_filter.fields (filter_id val ?n) e)])"
      by (simp add: read_value_def acc Let_def)
    then show ?thesis
      using ok fresh old new unfolding ids_counted_def acc by (auto simp del: filter_id_inj)
  qed
qed

lemma read_values_ids: "ids_counted acc \<Longrightarrow> ids_counted (foldl (read_value flds e) acc vs)"
  by (induction vs arbitrary: acc) (simp_all add: read_value_ids)

text \<open>Free words: no white space, quote or colon.\<close>

definition free_word :: "string \<Rightarrow> bool" where
  "free_word w \<longleftrightarrow> w \<noteq> [] \<and> list_all key_char w \<and> w \<noteq> ''AND''"

definition scannable :: "string \<Rightarrow> bool" where
  "scannable w \<longleftrightarrow>
     w \<noteq> [] \<and> (\<forall>cur r. scan_tokens cur False False (w @ r) = scan_tokens (cur @ w) False False r)"

lemma scan_words: "list_all scannable ws \<Longrightarrow> scan_tokens [] False False (join '' '' ws) = (ws, False)"
proof (induction ws rule: induct_list012)
  case (2 w)
  then have w: "scannable w" by simp
  from w have "scan_tokens [] False False (w @ []) = scan_tokens ([] @ w) False False []"
    unfolding scannable_def by blast
  with w show ?case by (simp add: scannable_def)
next
  case (3 w v ws)
  then have "scannable w" by simp
  then have "scan_tokens [] False False (w @ '' '' @ join '' '' (v # ws)) =
      scan_tokens ([] @ w) False False ('' '' @ join '' '' (v # ws))"
    unfolding scannable_def by blast
  with 3 show ?case by (simp add: scannable_def token_space_def)
qed simp

lemma free_word_scannable: "free_word w \<Longrightarrow> scannable w"
  using scan_plain [of w] by (auto simp: free_word_def scannable_def list_all_iff key_char_def)

lemma term_scannable: "field_names_ok flds \<Longrightarrow> term_ok flds t \<Longrightarrow> scannable (serializeLogTerm t)"
  by (simp add: scannable_def scan_term serialize_nonempty)

lemma free_word_plain: "free_word w \<Longrightarrow> classify_token flds w = PlainToken"
proof -
  assume "free_word w"
  then have "index_of CHR '':'' w = None"
    by (auto simp: free_word_def index_of_def find_index_None list_all_iff key_char_def)
  then show ?thesis by (simp add: classify_token_def)
qed

lemma collect_words_terms:
  assumes "field_names_ok flds" and "list_all free_word ws" and "list_all (term_ok flds) ts"
  shows "collect_tokens flds (ws @ map serializeLogTerm ts) = Some (ws, ts)"
  using assms(2)
  by (induction ws) (simp_all add: collect_serialized [OF assms(1,3)] free_word_plain)

lemma parse_words_terms:
  assumes "field_names_ok flds" and "list_all free_word ws" and "list_all (term_ok flds) ts" and "ts \<noteq> []"
  shows "parseLogSearch (join '' '' (ws @ map serializeLogTerm ts)) flds = \<lparr>ps_plain = join '' '' ws, ps_terms = ts\<rparr>"
proof -
  have "list_all scannable (ws @ map serializeLogTerm ts)"
    using assms free_word_scannable term_scannable by (auto simp: list_all_iff)
  moreover have "filter (\<lambda>token. token \<noteq> ''AND'') ws = ws"
    using assms(2) by (auto simp: list_all_iff free_word_def intro!: filter_True)
  ultimately show ?thesis
    using assms by (simp add: parseLogSearch_def scan_words collect_words_terms)
qed

lemma join_append: "a \<noteq> [] \<Longrightarrow> b \<noteq> [] \<Longrightarrow> join sep (a @ b) = join sep a @ sep @ join sep b"
proof (induction sep a rule: join.induct)
  case (2 sep w)
  then show ?case by (cases b) simp_all
qed simp_all

lemma search_text_words:
  assumes "list_all free_word ws"
  shows "join '' '' (filter (\<lambda>s. s \<noteq> []) (join '' '' ws # map serializeLogTerm ts)) =
    join '' '' (ws @ map serializeLogTerm ts)"
proof -
  have ts: "filter (\<lambda>s. s \<noteq> []) (map serializeLogTerm ts) = map serializeLogTerm ts"
    by (auto simp: serialize_nonempty intro!: filter_True)
  show ?thesis
  proof (cases ws)
    case (Cons w ws')
    then have "join '' '' ws \<noteq> []" using assms by (cases ws') (auto simp: free_word_def)
    then show ?thesis using Cons ts join_append [of ws "map serializeLogTerm ts" "'' ''"]
      join_append [of "[join '' '' ws]" "map serializeLogTerm ts" "'' ''"] by (cases "ts = []") simp_all
  qed (simp add: ts)
qed

lemma find_snoc: "find P xs = None \<Longrightarrow> find P (xs @ [x]) = (if P x then Some x else None)"
  by (induction xs) (auto split: if_splits)

lemma find_after_enable:
  assumes "find (\<lambda>f. serializeLogTerm (filter_term f) = q) fs = Some e"
  shows "\<exists>e'. find (\<lambda>f. serializeLogTerm (filter_term f) = q)
      (map (\<lambda>f. if lf_id f = lf_id e then f\<lparr>lf_enabled := True\<rparr> else f) fs) = Some e' \<and> lf_id e' = lf_id e"
  using assms
proof (induction fs)
  case (Cons f fs)
  then show ?case by (auto simp: search_term.defs split: if_splits)
qed simp

section \<open>Reading what was written\<close>

lemma read_distinct: "distinct (map lf_id (qs_filters (readFilterQuery search flds)))"
proof -
  have "ids_counted ([], [])" by (simp add: ids_counted_def)
  then show ?thesis
    by (simp add: readFilterQuery_def Let_def) (metis ids_counted_def read_values_ids)
qed

text \<open>The filters an address holds after a state was written to it, as terms with their switch.\<close>

abbreviation filter_pairs :: "log_filter list \<Rightarrow> (search_term \<times> bool) list" where
  "filter_pairs fs \<equiv> map (\<lambda>f. (filter_term f, lf_enabled f)) fs"

lemma read_written:
  assumes "field_names_ok flds" and "list_all (readable flds) (qs_filters state)"
  shows "qs_text (readFilterQuery (filterQuerySearch state search) flds) = qs_text state \<and>
    filter_pairs (qs_filters (readFilterQuery (filterQuerySearch state search) flds)) =
      map (\<lambda>f. (filter_term f, True)) (filter lf_enabled (qs_filters state)) @
      map (\<lambda>f. (filter_term f, False)) (filter (\<lambda>f. \<not> lf_enabled f) (qs_filters state))"
proof -
  have e: "list_all (readable flds) (filter lf_enabled (qs_filters state))"
    and d: "list_all (readable flds) (filter (\<lambda>f. \<not> lf_enabled f) (qs_filters state))"
    using assms(2) by (auto simp: list_all_iff)
  show ?thesis
    by (simp add: Let_def readFilterQuery_def filterQuerySearch_def read_values [OF assms(1) e]
        read_values [OF assms(1) d])
qed

lemma read_written_mset:
  assumes "field_names_ok flds" and "list_all (readable flds) (qs_filters state)"
  shows "mset (filter_pairs (qs_filters (readFilterQuery (filterQuerySearch state search) flds))) =
    mset (filter_pairs (qs_filters state))"
proof -
  have "mset (map (\<lambda>f. (filter_term f, True)) (filter lf_enabled fs)) +
      mset (map (\<lambda>f. (filter_term f, False)) (filter (\<lambda>f. \<not> lf_enabled f) fs)) = mset (filter_pairs fs)" for fs
    by (induction fs) simp_all
  then show ?thesis unfolding read_written [OF assms, THEN conjunct2] mset_append .
qed

text \<open>What the search string of a state parses to.\<close>

lemma parse_words:
  assumes "list_all free_word ws"
  shows "parseLogSearch (join '' '' ws) flds = \<lparr>ps_plain = join '' '' ws, ps_terms = []\<rparr>"
proof -
  have "list_all scannable ws" using assms free_word_scannable by (auto simp: list_all_iff)
  moreover have "collect_tokens flds ws = Some (ws, [])"
    using assms by (induction ws) (simp_all add: free_word_plain)
  ultimately show ?thesis by (simp add: parseLogSearch_def scan_words)
qed

lemma parsed_state:
  assumes "field_names_ok flds" and "list_all (readable flds) (qs_filters state)"
    and "list_all free_word ws" and "qs_text state = join '' '' ws"
  shows "parseLogSearch (signal_query_search state) flds =
    \<lparr>ps_plain = qs_text state, ps_terms = map filter_term (filter lf_enabled (qs_filters state))\<rparr>"
proof -
  let ?ts = "map filter_term (filter lf_enabled (qs_filters state))"
  have ts: "list_all (term_ok flds) ?ts" using assms(2) by (auto simp: list_all_iff readable_def)
  have s: "signal_query_search state = join '' '' (ws @ map serializeLogTerm ?ts)"
    using search_text_words [OF assms(3), of ?ts] by (simp add: signal_query_search_def assms(4))
  show ?thesis
  proof (cases "?ts = []")
    case True
    then have "filter lf_enabled (qs_filters state) = []" by simp
    with s show ?thesis using parse_words [OF assms(3)] assms(4) by simp
  next
    case False
    with s ts show ?thesis using parse_words_terms [OF assms(1,3), of ?ts] assms(4) by simp
  qed
qed

section \<open>Properties\<close>

text \<open>Reading back the address a query state was written to gives the same text and the same
  filters, each with its term and its switch, the enabled ones before the disabled ones; whatever the
  address holds, no two filters read from it share an id.\<close>

theorem query_state_round_trip:
  assumes "field_names_ok flds" and "list_all (readable flds) (qs_filters state)"
  shows "let read = readFilterQuery (filterQuerySearch state search) flds
    in qs_text read = qs_text state \<and>
       map (\<lambda>f. (filter_term f, lf_enabled f)) (qs_filters read) =
         map (\<lambda>f. (filter_term f, True)) (filter lf_enabled (qs_filters state)) @
         map (\<lambda>f. (filter_term f, False)) (filter (\<lambda>f. \<not> lf_enabled f) (qs_filters state)) \<and>
       distinct (map lf_id (qs_filters (readFilterQuery anything flds)))"
  using read_written [OF assms] by (simp add: Let_def read_distinct)

theorem query_state_round_trip_witness:
  "qs_text (readFilterQuery (filterQuerySearch
      \<lparr>qs_text = ''x'', qs_filters = [newLogFilter ''u''
         \<lparr>te_field = Some ''body'', te_resource = False, te_key = ''body'', te_value = ''a b'',
          te_quoted = True, te_negated = False\<rparr>]\<rparr> (validateSearch [])) (map fst logFields)) = ''x''"
proof -
  let ?st = "\<lparr>qs_text = ''x'', qs_filters = [newLogFilter ''u''
         \<lparr>te_field = Some ''body'', te_resource = False, te_key = ''body'', te_value = ''a b'',
          te_quoted = True, te_negated = False\<rparr>]\<rparr>"
  have "field_names_ok (map fst logFields)" by code_simp
  moreover have "list_all (readable (map fst logFields)) (qs_filters ?st)"
    by (simp add: readable_def newLogFilter_def term_ok_def logFields_def)
  ultimately show ?thesis
    using query_state_round_trip [of "map fst logFields" ?st "validateSearch []"] by (simp add: Let_def)
qed



text \<open>Adding a filter switches it on and never duplicates it: an equal filter that is already there
  is enabled in place and nothing else changes, a new one is appended, the list keeps every other
  filter, and adding the same filter again changes nothing. The drawn id is one no filter has.\<close>

theorem addQueryFilter_idempotent:
  assumes "uuid \<notin> set (map lf_id (qs_filters state))"
  shows "let added = addQueryFilter uuid state term in
    (\<exists>f \<in> set (qs_filters added). lf_enabled f \<and> serializeLogTerm (filter_term f) = serializeLogTerm term) \<and>
    map filter_term (qs_filters added) =
      (if serializeLogTerm term \<in> set (map (serializeLogTerm \<circ> filter_term) (qs_filters state))
       then map filter_term (qs_filters state) else map filter_term (qs_filters state) @ [term]) \<and>
    qs_text added = qs_text state \<and>
    addQueryFilter uuid2 added term = added"
proof (cases "find (\<lambda>f. serializeLogTerm (filter_term f) = serializeLogTerm term) (qs_filters state)")
  case None
  then have "serializeLogTerm term \<notin> set (map (serializeLogTerm \<circ> filter_term) (qs_filters state))"
    by (auto simp: find_None_iff)
  moreover have "addQueryFilter uuid state term = state\<lparr>qs_filters := qs_filters state @ [newLogFilter uuid term]\<rparr>"
    using None by (simp add: addQueryFilter_def)
  moreover have "find (\<lambda>f. serializeLogTerm (filter_term f) = serializeLogTerm term)
      (qs_filters state @ [newLogFilter uuid term]) = Some (newLogFilter uuid term)"
    using None by (simp add: find_snoc newLogFilter_def)
  moreover have "map (\<lambda>f. if lf_id f = uuid then f\<lparr>lf_enabled := True\<rparr> else f)
      (qs_filters state @ [newLogFilter uuid term]) = qs_filters state @ [newLogFilter uuid term]"
  proof -
    have "(newLogFilter uuid term)\<lparr>lf_enabled := True\<rparr> = newLogFilter uuid term"
      by (simp add: newLogFilter_def search_term.defs log_filter.defs)
    then show ?thesis using assms by (auto intro!: map_idI)
  qed
  moreover have "lf_id (newLogFilter uuid term) = uuid" "lf_enabled (newLogFilter uuid term)"
    "filter_term (newLogFilter uuid term) = term"
    by (simp_all add: newLogFilter_def)
  ultimately show ?thesis using None by (simp add: addQueryFilter_def Let_def)
next
  case (Some e)
  let ?on = "map (\<lambda>f. if lf_id f = lf_id e then f\<lparr>lf_enabled := True\<rparr> else f) (qs_filters state)"
  have a: "addQueryFilter uuid state term = state\<lparr>qs_filters := ?on\<rparr>" using Some by (simp add: addQueryFilter_def)
  have e: "e \<in> set (qs_filters state)" "serializeLogTerm (filter_term e) = serializeLogTerm term"
    using Some by (auto simp: find_Some_iff)
  have terms: "map filter_term ?on = map filter_term (qs_filters state)"
    by (simp add: search_term.defs)
  obtain e' where e': "find (\<lambda>f. serializeLogTerm (filter_term f) = serializeLogTerm term) ?on = Some e'"
      "lf_id e' = lf_id e"
    using find_after_enable [OF Some] by blast
  have idem: "map (\<lambda>f. if lf_id f = lf_id e' then f\<lparr>lf_enabled := True\<rparr> else f) ?on = ?on" using e'(2) by simp
  have "addQueryFilter uuid2 (state\<lparr>qs_filters := ?on\<rparr>) term = state\<lparr>qs_filters := ?on\<rparr>"
    using e'(1) idem by (simp add: addQueryFilter_def)
  moreover have "\<exists>f \<in> set ?on. lf_enabled f \<and> serializeLogTerm (filter_term f) = serializeLogTerm term"
    using e by (intro bexI [of _ "e\<lparr>lf_enabled := True\<rparr>"]) (auto simp: search_term.defs)
  moreover have "serializeLogTerm term \<in> set (map (serializeLogTerm \<circ> filter_term) (qs_filters state))"
    using e by (auto intro: rev_image_eqI)
  ultimately show ?thesis unfolding a Let_def using terms by simp
qed

theorem addQueryFilter_idempotent_witness:
  "addQueryFilter ''v'' (addQueryFilter ''u'' \<lparr>qs_text = [], qs_filters = []\<rparr> t) t =
     addQueryFilter ''u'' \<lparr>qs_text = [], qs_filters = []\<rparr> t"
  using addQueryFilter_idempotent [of "''u''" "\<lparr>qs_text = [], qs_filters = []\<rparr>" t "''v''"] by (simp add: Let_def)

end
