(* ===== verification/FilterBar.thy ===== *)
theory FilterBar
  imports QueryState TimeWindow
begin

text \<open>
  The filter bar of \<^verbatim>\<open>components/filters/signal-filter-bar.tsx\<close> with its editor, the
  suggestions of \<^verbatim>\<open>hooks/use-filter-suggestions.ts\<close> and the filter buttons of
  \<^verbatim>\<open>hooks/use-filter-by-action.tsx\<close>. The address is the state that holds the filters;
  a popover keeps its draft only while it is open. The id \<open>crypto.randomUUID\<close> draws for a new
  filter is an argument of the submission.
\<close>

section \<open>The editor\<close>

record filter_editor =
  fe_draft :: filter_draft
  fe_submitted :: bool

definition new_editor :: "(number \<Rightarrow> string) \<Rightarrow> search_term option \<Rightarrow> filter_editor" where
  "new_editor num_text initial = \<lparr>fe_draft = filterDraft num_text initial, fe_submitted = False\<rparr>"

definition editor_error :: "string list \<Rightarrow> string list \<Rightarrow> filter_editor \<Rightarrow> draft_error option" where
  "editor_error flds numericFields e = filterDraftError (fe_draft e) flds numericFields"

definition noValue :: "filter_editor \<Rightarrow> bool" where
  "noValue e \<longleftrightarrow> df_operator (fe_draft e) \<in> {Exists, NotExists}"

definition validKey :: "string list \<Rightarrow> filter_editor \<Rightarrow> bool" where
  "validKey flds e \<longleftrightarrow>
     trim (df_key (fe_draft e)) \<in> set flds \<or> attribute_key_ok (trim (df_key (fe_draft e)))"

text \<open>A submission: the editor afterwards and the term it applies.\<close>

definition submit_editor ::
    "string list \<Rightarrow> string list \<Rightarrow> filter_editor \<Rightarrow> filter_editor \<times> search_term option" where
  "submit_editor flds numericFields e =
     (e\<lparr>fe_submitted := True\<rparr>,
      if editor_error flds numericFields e = None then Some (draftTerm (fe_draft e) flds) else None)"

definition shown_error :: "string list \<Rightarrow> string list \<Rightarrow> filter_editor \<Rightarrow> draft_error option" where
  "shown_error flds numericFields e =
     (if fe_submitted e then editor_error flds numericFields e else None)"

definition shown_value :: "filter_editor \<Rightarrow> string" where
  "shown_value e = (if noValue e then [] else df_value (fe_draft e))"

datatype editor_event =
    Edit_key string
  | Edit_operator filter_operator
  | Edit_value string

fun edit_draft :: "editor_event \<Rightarrow> filter_editor \<Rightarrow> filter_editor" where
  "edit_draft (Edit_key k) e = e\<lparr>fe_draft := (fe_draft e)\<lparr>df_key := k\<rparr>\<rparr>"
| "edit_draft (Edit_operator op) e = e\<lparr>fe_draft := (fe_draft e)\<lparr>df_operator := op\<rparr>\<rparr>"
| "edit_draft (Edit_value v) e = e\<lparr>fe_draft := (fe_draft e)\<lparr>df_value := v\<rparr>\<rparr>"

section \<open>Suggestions\<close>

definition suggestion_window :: "signal \<Rightarrow> event_window \<Rightarrow> event_window" where
  "suggestion_window sig w = (if sig = Metrics then Live RAll else w)"

record suggestions =
  sg_items :: "string list"
  sg_loading :: bool
  sg_error :: bool

text \<open>What the hook shows of the query's result: nothing while it is not enabled.\<close>

definition shown_suggestions :: "bool \<Rightarrow> string list option \<Rightarrow> bool \<Rightarrow> bool \<Rightarrow> suggestions" where
  "shown_suggestions enabled result isPending isError =
     \<lparr>sg_items = (if enabled then (case result of None \<Rightarrow> [] | Some items \<Rightarrow> items) else []),
      sg_loading = (enabled \<and> isPending), sg_error = (enabled \<and> isError)\<rparr>"

definition value_suggestions_enabled :: "string list \<Rightarrow> filter_editor \<Rightarrow> bool" where
  "value_suggestions_enabled flds e \<longleftrightarrow> validKey flds e \<and> \<not> noValue e"

datatype suggestion_status = Not_loaded | Loading_suggestions | Many_keys | Metrics_hint | Window_hint

definition suggestion_status :: "signal \<Rightarrow> suggestions \<Rightarrow> suggestions \<Rightarrow> suggestion_status" where
  "suggestion_status sig keys vals =
     (if sg_error keys \<or> sg_error vals then Not_loaded
      else if sg_loading keys \<or> sg_loading vals then Loading_suggestions
      else if length (sg_items keys) \<ge> 1000 then Many_keys
      else if sig = Metrics then Metrics_hint
      else Window_hint)"

section \<open>Actions on the address\<close>

definition append_filter :: "signal \<Rightarrow> string \<Rightarrow> search_term \<Rightarrow> signal_search \<Rightarrow> signal_search" where
  "append_filter sig uuid term =
     setState sig (\<lambda>current. current\<lparr>qs_filters := qs_filters current @ [newLogFilter uuid term]\<rparr>)"

definition with_term :: "search_term \<Rightarrow> log_filter \<Rightarrow> log_filter" where
  "with_term term item = search_term.extend term (log_filter.fields (lf_id item) (lf_enabled item))"

definition replace_filter :: "signal \<Rightarrow> string \<Rightarrow> search_term \<Rightarrow> signal_search \<Rightarrow> signal_search" where
  "replace_filter sig i term =
     setState sig (\<lambda>current. current\<lparr>qs_filters :=
       map (\<lambda>item. if lf_id item = i then with_term term item else item) (qs_filters current)\<rparr>)"

definition toggle_filter :: "signal \<Rightarrow> string \<Rightarrow> signal_search \<Rightarrow> signal_search" where
  "toggle_filter sig i =
     setState sig (\<lambda>current. current\<lparr>qs_filters :=
       map (\<lambda>item. if lf_id item = i then item\<lparr>lf_enabled := \<not> lf_enabled item\<rparr> else item) (qs_filters current)\<rparr>)"

definition remove_filter :: "signal \<Rightarrow> string \<Rightarrow> signal_search \<Rightarrow> signal_search" where
  "remove_filter sig i =
     setState sig (\<lambda>current. current\<lparr>qs_filters := filter (\<lambda>item. lf_id item \<noteq> i) (qs_filters current)\<rparr>)"

definition clear_filters :: "signal \<Rightarrow> signal_search \<Rightarrow> signal_search" where
  "clear_filters sig = setState sig (\<lambda>current. current\<lparr>qs_filters := []\<rparr>)"

text \<open>The button beside a clicked value.\<close>

definition action_fields :: "signal \<Rightarrow> string list option" where
  "action_fields sig =
     (if sig = Traces then Some traceFields else if sig = Metrics then Some metricFields else None)"

definition filterBy ::
    "(number \<Rightarrow> string) \<Rightarrow> signal \<Rightarrow> string \<Rightarrow> string \<Rightarrow> json option \<Rightarrow> signal_search \<Rightarrow> signal_search" where
  "filterBy num_text sig uuid key val =
     addFilter sig uuid (draftTerm (valueToFilterDraft num_text key val) (fields_or_default (action_fields sig)))"

section \<open>The bar\<close>

text \<open>
  The popover that adds a filter, with its editor while it is open; the id of the filter being
  edited, with the editor that is mounted while the bar shows that filter; the address beside them.
\<close>

record filter_bar =
  fb_search :: signal_search
  fb_adding :: "filter_editor option"
  fb_editing :: "string option"
  fb_editor :: "filter_editor option"

datatype bar_event =
    Open_add bool
  | Draft_add editor_event
  | Submit_add string
  | Open_edit string bool
  | Draft_edit editor_event
  | Submit_edit
  | Toggle_filter string
  | Remove_filter string
  | Clear_filters

definition bar_filters :: "signal \<Rightarrow> filter_bar \<Rightarrow> log_filter list" where
  "bar_filters sig b = qs_filters (readFilterQuery (fb_search b) (fields_or_default (queryFields sig)))"

text \<open>A render mounts the editor of the filter being edited, and unmounts it when that filter is gone.\<close>

definition mount_editor :: "(number \<Rightarrow> string) \<Rightarrow> signal \<Rightarrow> filter_bar \<Rightarrow> filter_bar" where
  "mount_editor num_text sig b =
     b\<lparr>fb_editor :=
         (case fb_editing b of
            None \<Rightarrow> None
          | Some i \<Rightarrow>
              (case find (\<lambda>f. lf_id f = i) (bar_filters sig b) of
                 None \<Rightarrow> None
               | Some f \<Rightarrow>
                   (case fb_editor b of
                      None \<Rightarrow> Some (new_editor num_text (Some (filter_term f)))
                    | Some e \<Rightarrow> Some e)))\<rparr>"

fun bar_event_step ::
    "(number \<Rightarrow> string) \<Rightarrow> signal \<Rightarrow> string list \<Rightarrow> string list \<Rightarrow> bar_event \<Rightarrow> filter_bar \<Rightarrow> filter_bar" where
  "bar_event_step num_text sig flds nums (Open_add isOpen) b =
     b\<lparr>fb_adding := (if isOpen then Some (new_editor num_text None) else None)\<rparr>"
| "bar_event_step num_text sig flds nums (Draft_add ev) b =
     b\<lparr>fb_adding := map_option (edit_draft ev) (fb_adding b)\<rparr>"
| "bar_event_step num_text sig flds nums (Submit_add uuid) b =
     (case fb_adding b of
        None \<Rightarrow> b
      | Some e \<Rightarrow>
          (case submit_editor flds nums e of
             (e', None) \<Rightarrow> b\<lparr>fb_adding := Some e'\<rparr>
           | (e', Some term) \<Rightarrow>
               b\<lparr>fb_search := append_filter sig uuid term (fb_search b), fb_adding := None\<rparr>))"
| "bar_event_step num_text sig flds nums (Open_edit i isOpen) b =
     b\<lparr>fb_editing := (if isOpen then Some i else None), fb_editor := None\<rparr>"
| "bar_event_step num_text sig flds nums (Draft_edit ev) b =
     b\<lparr>fb_editor := map_option (edit_draft ev) (fb_editor b)\<rparr>"
| "bar_event_step num_text sig flds nums Submit_edit b =
     (case (fb_editing b, fb_editor b) of
        (Some i, Some e) \<Rightarrow>
          (case submit_editor flds nums e of
             (e', None) \<Rightarrow> b\<lparr>fb_editor := Some e'\<rparr>
           | (e', Some term) \<Rightarrow>
               b\<lparr>fb_search := replace_filter sig i term (fb_search b), fb_editing := None\<rparr>)
      | _ \<Rightarrow> b)"
| "bar_event_step num_text sig flds nums (Toggle_filter i) b =
     b\<lparr>fb_search := toggle_filter sig i (fb_search b)\<rparr>"
| "bar_event_step num_text sig flds nums (Remove_filter i) b =
     b\<lparr>fb_search := remove_filter sig i (fb_search b)\<rparr>"
| "bar_event_step num_text sig flds nums Clear_filters b =
     b\<lparr>fb_search := clear_filters sig (fb_search b)\<rparr>"

definition bar_step ::
    "(number \<Rightarrow> string) \<Rightarrow> signal \<Rightarrow> string list \<Rightarrow> string list \<Rightarrow> bar_event \<Rightarrow> filter_bar \<Rightarrow> filter_bar" where
  "bar_step num_text sig flds nums ev b = mount_editor num_text sig (bar_event_step num_text sig flds nums ev b)"

text \<open>What a chip of the bar shows: the key, the operator and the value.\<close>

fun operator_label :: "filter_operator \<Rightarrow> string" where
  "operator_label Is = ''is''"
| "operator_label IsNot = ''is not''"
| "operator_label Contains = ''contains''"
| "operator_label NotContains = ''does not contain''"
| "operator_label Matches = ''matches wildcard''"
| "operator_label NotMatches = ''does not match wildcard''"
| "operator_label Exists = ''exists''"
| "operator_label NotExists = ''does not exist''"
| "operator_label (Compare Greater) = ''greater than (>)''"
| "operator_label (Compare GreaterEq) = ''at least (>=)''"
| "operator_label (Compare Less) = ''less than (<)''"
| "operator_label (Compare LessEq) = ''at most (<=)''"

record filter_chip =
  ch_key :: string
  ch_operator :: string
  ch_value :: "string option"
  ch_struck :: bool

definition filter_chip :: "(number \<Rightarrow> string) \<Rightarrow> log_filter \<Rightarrow> filter_chip" where
  "filter_chip num_text f =
     (let draft = filterDraft num_text (Some (filter_term f))
      in \<lparr>ch_key = (if te_resource f then ''resource.'' else []) @ te_key f,
          ch_operator = operator_label (df_operator draft),
          ch_value = (if df_value draft = [] then None else Some (df_value draft)),
          ch_struck = (\<not> lf_enabled f)\<rparr>)"

definition bar_chips :: "(number \<Rightarrow> string) \<Rightarrow> signal \<Rightarrow> filter_bar \<Rightarrow> filter_chip list" where
  "bar_chips num_text sig b = map (filter_chip num_text) (bar_filters sig b)"

section \<open>Lemmas\<close>

lemma map_one:
  assumes "distinct (map key xs)" and "x \<in> set xs"
  shows "mset (map (\<lambda>y. if key y = key x then h y else y) xs) = add_mset (h x) (mset xs - {#x#})"
  using assms
proof (induction xs)
  case (Cons y ys)
  show ?case
  proof (cases "y = x")
    case True
    have "map (\<lambda>y. if key y = key x then h y else y) ys = map id ys"
      using Cons.prems(1) True by (intro map_cong) (auto simp: rev_image_eqI)
    then show ?thesis using True by simp
  next
    case False
    then have x: "x \<in> set ys" using Cons.prems(2) by simp
    then have "key y \<noteq> key x" using Cons.prems(1) by (auto simp: rev_image_eqI)
    with Cons.IH x Cons.prems(1) False show ?thesis by (simp add: add_mset_commute insert_DiffM2)
  qed
qed simp

lemma filter_one:
  assumes "distinct (map key xs)" and "x \<in> set xs"
  shows "mset (filter (\<lambda>y. key y \<noteq> key x) xs) = mset xs - {#x#}"
  using assms
proof (induction xs)
  case (Cons y ys)
  show ?case
  proof (cases "y = x")
    case True
    have "filter (\<lambda>y. key y \<noteq> key x) ys = ys"
      using Cons.prems(1) True by (intro filter_True) (auto simp: rev_image_eqI)
    then show ?thesis using True by simp
  next
    case False
    then have x: "x \<in> set ys" using Cons.prems(2) by simp
    then have "key y \<noteq> key x" using Cons.prems(1) by (auto simp: rev_image_eqI)
    with Cons.IH x Cons.prems(1) False show ?thesis by (simp add: insert_DiffM2)
  qed
qed simp

text \<open>The filters and the text an address holds for a signal.\<close>

abbreviation held :: "signal \<Rightarrow> signal_search \<Rightarrow> log_filter list" where
  "held sig search \<equiv> qs_filters (readFilterQuery search (fields_or_default (queryFields sig)))"

abbreviation held_text :: "signal \<Rightarrow> signal_search \<Rightarrow> string" where
  "held_text sig search \<equiv> qs_text (readFilterQuery search (fields_or_default (queryFields sig)))"

lemma fields_ok: "field_names_ok (fields_or_default (queryFields sig))"
proof -
  have "field_names_ok (fields_or_default (queryFields Logs))" "field_names_ok (fields_or_default (queryFields Traces))"
    "field_names_ok (fields_or_default (queryFields Metrics))" by code_simp+
  then show ?thesis by (cases sig) blast+
qed

text \<open>An action on the filters, seen through the address it navigates to.\<close>

lemma held_setState:
  assumes "\<And>c. qs_text (upd c) = qs_text c"
    and "list_all (readable (fields_or_default (queryFields sig)))
      (qs_filters (upd (readFilterQuery search (fields_or_default (queryFields sig)))))"
  shows "mset (filter_pairs (held sig (setState sig upd search))) =
      mset (filter_pairs (qs_filters (upd (readFilterQuery search (fields_or_default (queryFields sig)))))) \<and>
    held_text sig (setState sig upd search) = held_text sig search"
  unfolding setState_def
  using read_written_mset [OF fields_ok assms(2)] read_written [OF fields_ok assms(2)] assms(1) by simp

lemma with_term_simps [simp]:
  "filter_term (with_term t f) = t" "lf_enabled (with_term t f) = lf_enabled f" "lf_id (with_term t f) = lf_id f"
  by (simp_all add: with_term_def)

lemma truncate_switch [simp]: "filter_term (f\<lparr>lf_enabled := e\<rparr>) = filter_term f"
  by (simp add: search_term.defs)

abbreviation the_pair :: "log_filter \<Rightarrow> search_term \<times> bool" where
  "the_pair f \<equiv> (filter_term f, lf_enabled f)"

abbreviation readable_all :: "signal \<Rightarrow> signal_search \<Rightarrow> bool" where
  "readable_all sig search \<equiv> list_all (readable (fields_or_default (queryFields sig))) (held sig search)"

lemma held_map_one:
  assumes "readable_all sig search" and f: "f \<in> set (held sig search)"
    and h: "\<forall>g. readable (fields_or_default (queryFields sig)) g \<longrightarrow>
      readable (fields_or_default (queryFields sig)) (h g)"
    and "upd = (\<lambda>c. c\<lparr>qs_filters := map (\<lambda>g. if lf_id g = lf_id f then h g else g) (qs_filters c)\<rparr>)"
  shows "mset (filter_pairs (held sig (setState sig upd search))) =
      add_mset (the_pair (h f)) (mset (filter_pairs (held sig search)) - {#the_pair f#}) \<and>
    held_text sig (setState sig upd search) = held_text sig search"
proof -
  let ?fs = "held sig search"
  have "list_all (readable (fields_or_default (queryFields sig))) (map (\<lambda>g. if lf_id g = lf_id f then h g else g) ?fs)"
    using assms(1) h unfolding list_all_iff set_map by auto
  with held_setState [of upd sig search] assms(4)
  have "mset (filter_pairs (held sig (setState sig upd search))) =
      image_mset the_pair (mset (map (\<lambda>g. if lf_id g = lf_id f then h g else g) ?fs)) \<and>
    held_text sig (setState sig upd search) = held_text sig search"
    by (simp add: mset_map del: map_map)
  then show ?thesis using f unfolding map_one [OF read_distinct f] by (simp add: image_mset_Diff)
qed

lemma held_filter_one:
  assumes "readable_all sig search" and f: "f \<in> set (held sig search)"
    and "upd = (\<lambda>c. c\<lparr>qs_filters := filter (\<lambda>g. lf_id g \<noteq> lf_id f) (qs_filters c)\<rparr>)"
  shows "mset (filter_pairs (held sig (setState sig upd search))) =
      mset (filter_pairs (held sig search)) - {#the_pair f#} \<and>
    held_text sig (setState sig upd search) = held_text sig search"
proof -
  let ?fs = "held sig search"
  have "list_all (readable (fields_or_default (queryFields sig))) (filter (\<lambda>g. lf_id g \<noteq> lf_id f) ?fs)"
    using assms(1) unfolding list_all_iff by auto
  with held_setState [of upd sig search] assms(3)
  have "mset (filter_pairs (held sig (setState sig upd search))) =
      image_mset the_pair (mset (filter (\<lambda>g. lf_id g \<noteq> lf_id f) ?fs)) \<and>
    held_text sig (setState sig upd search) = held_text sig search"
    by (simp add: mset_map)
  then show ?thesis using f unfolding filter_one [OF read_distinct f] by (simp add: image_mset_Diff)
qed

lemma held_append:
  assumes "readable_all sig search" and "term_ok (fields_or_default (queryFields sig)) t"
  shows "mset (filter_pairs (held sig (append_filter sig uuid t search))) =
      add_mset (t, True) (mset (filter_pairs (held sig search))) \<and>
    held_text sig (append_filter sig uuid t search) = held_text sig search"
proof -
  have "list_all (readable (fields_or_default (queryFields sig))) (held sig search @ [newLogFilter uuid t])"
    using assms by (simp add: readable_def newLogFilter_def)
  with held_setState [of "\<lambda>c. c\<lparr>qs_filters := qs_filters c @ [newLogFilter uuid t]\<rparr>" sig search,
      folded append_filter_def]
  show ?thesis by (simp add: newLogFilter_def)
qed

section \<open>Properties\<close>



lemma signal_fields_plain: "plain_fields (fields_or_default (queryFields sig))"
proof -
  have "plain_fields (fields_or_default (queryFields Logs))" "plain_fields (fields_or_default (queryFields Traces))"
    "plain_fields (fields_or_default (queryFields Metrics))" by code_simp+
  then show ?thesis by (cases sig) blast+
qed

lemma mount_editor_keeps [simp]:
  "fb_search (mount_editor num_text sig b) = fb_search b" "fb_adding (mount_editor num_text sig b) = fb_adding b"
  by (simp_all add: mount_editor_def)



end
