(* ===== verification/Interaction.thy ===== *)
theory Interaction
  imports FilterBar
begin

text \<open>
  The small machines behind the controls: the search box of
  \<^verbatim>\<open>components/filters/search-filter.tsx\<close>, the page shortcuts of
  \<^verbatim>\<open>hooks/use-keyboard-shortcut.ts\<close>, the copy buttons of \<^verbatim>\<open>hooks/use-copy.ts\<close> and
  one request of \<^verbatim>\<open>lib/graphql.ts\<close>. The browser's events and the answers of the client
  library are the events of the machines.
\<close>

section \<open>Search box\<close>

record search_box =
  sx_input :: string
  sx_synced :: string

definition new_search_box :: "string \<Rightarrow> search_box" where
  "new_search_box val = \<lparr>sx_input = val, sx_synced = val\<rparr>"

text \<open>A render with the text the address holds.\<close>

definition sync_search :: "string \<Rightarrow> search_box \<Rightarrow> search_box" where
  "sync_search val b = (if val \<noteq> sx_synced b then \<lparr>sx_input = val, sx_synced = val\<rparr> else b)"

datatype box_event = Type_text string | Press_key string bool | Clear_text

text \<open>\<open>submit\<close> is \<open>onSubmit\<close>: the text it gives back and the address it leads to.\<close>

definition box_step ::
    "(string \<Rightarrow> 'a \<Rightarrow> string \<times> 'a) \<Rightarrow> box_event \<Rightarrow> search_box \<times> 'a \<Rightarrow> search_box \<times> 'a" where
  "box_step submit ev state =
     (case state of (b, search) \<Rightarrow>
        case ev of
          Type_text t \<Rightarrow> (b\<lparr>sx_input := t\<rparr>, search)
        | Press_key key composing \<Rightarrow>
            if composing then (b, search)
            else if key = ''Escape'' then (b, search)
            else if key \<noteq> ''Enter'' then (b, search)
            else (case submit (sx_input b) search of (shown, search') \<Rightarrow> (b\<lparr>sx_input := shown\<rparr>, search'))
        | Clear_text \<Rightarrow> (b\<lparr>sx_input := []\<rparr>, snd (submit [] search)))"

section \<open>Page shortcuts\<close>

record key_press =
  ky_key :: string
  ky_prevented :: bool
  ky_composing :: bool
  ky_repeat :: bool
  ky_meta :: bool
  ky_ctrl :: bool
  ky_alt :: bool
  ky_shift :: bool
  ky_editable :: bool

record shortcut =
  sh_key :: string
  sh_capture :: bool
  sh_action :: nat

text \<open>\<open>popups\<close> are the open dialogs, menus and lists: whether each is inside a hidden element.\<close>

definition shortcut_runs :: "bool list \<Rightarrow> key_press \<Rightarrow> string \<Rightarrow> bool" where
  "shortcut_runs popups ev key \<longleftrightarrow>
     \<not> (ky_key ev \<noteq> key \<or> ky_prevented ev \<or> ky_composing ev \<or> ky_repeat ev \<or> ky_meta ev \<or> ky_ctrl ev \<or> ky_alt ev \<or>
        (ky_shift ev \<and> length key \<noteq> 1)) \<and>
     \<not> ky_editable ev \<and> \<not> list_ex (\<lambda>hidden. \<not> hidden) popups"

definition handle_key :: "bool list \<Rightarrow> key_press \<times> nat list \<Rightarrow> shortcut \<Rightarrow> key_press \<times> nat list" where
  "handle_key popups acc s =
     (case acc of (ev, acts) \<Rightarrow>
        if shortcut_runs popups ev (sh_key s) then (ev\<lparr>ky_prevented := True\<rparr>, acts @ [sh_action s]) else (ev, acts))"

text \<open>The listeners of the window: those of the capture phase run before the others.\<close>

definition dispatch_key :: "bool list \<Rightarrow> shortcut list \<Rightarrow> key_press \<Rightarrow> nat list" where
  "dispatch_key popups listeners ev =
     snd (foldl (handle_key popups) (ev, []) (filter sh_capture listeners @ filter (\<lambda>s. \<not> sh_capture s) listeners))"

section \<open>Copy buttons\<close>

datatype copy_status = Idle_copy | Copied | Failed

text \<open>The timers that are pending, and the one the button remembers.\<close>

record copy_state =
  cy_status :: copy_status
  cy_timer :: "nat option"
  cy_mounted :: bool
  cy_pending :: "nat list"
  cy_next :: nat

definition new_copy :: copy_state where
  "new_copy = \<lparr>cy_status = Idle_copy, cy_timer = None, cy_mounted = True, cy_pending = [], cy_next = 0\<rparr>"

definition clear_timer :: "copy_state \<Rightarrow> copy_state" where
  "clear_timer s = s\<lparr>cy_pending := filter (\<lambda>t. cy_timer s \<noteq> Some t) (cy_pending s)\<rparr>"

definition write_done :: "bool \<Rightarrow> copy_state \<Rightarrow> copy_state" where
  "write_done ok s =
     (if \<not> cy_mounted s then s
      else
        let s = clear_timer (s\<lparr>cy_status := (if ok then Copied else Failed)\<rparr>)
        in s\<lparr>cy_timer := Some (cy_next s), cy_pending := cy_pending s @ [cy_next s], cy_next := cy_next s + 1\<rparr>)"

datatype copy_event = Write_done bool | Timer_fires nat | Unmount_copy

fun copy_step :: "copy_state \<Rightarrow> copy_event \<Rightarrow> copy_state" where
  "copy_step s (Write_done ok) = write_done ok s"
| "copy_step s (Timer_fires t) =
     (if t \<in> set (cy_pending s)
      then s\<lparr>cy_status := Idle_copy, cy_pending := filter (\<lambda>u. u \<noteq> t) (cy_pending s)\<rparr> else s)"
| "copy_step s Unmount_copy = clear_timer (s\<lparr>cy_mounted := False\<rparr>)"

section \<open>Requests\<close>

datatype ('d, 'e) outcome = Resolved 'd | Rejected 'e | Aborted | No_data

record ('d, 'e) request =
  rq_outcome :: "('d, 'e) outcome option"
  rq_subscribed :: bool
  rq_listening :: bool
  rq_cleanups :: nat

record ('d, 'e) query_result =
  qr_stale :: bool
  qr_hasNext :: bool
  qr_error :: "'e option"
  qr_data :: "'d option"

text \<open>Settling a promise a second time has no effect.\<close>

definition settle_with :: "('d, 'e) outcome \<Rightarrow> ('d, 'e) request \<Rightarrow> ('d, 'e) request" where
  "settle_with out r = (if rq_outcome r = None then r\<lparr>rq_outcome := Some out\<rparr> else r)"

definition rq_cleanup :: "('d, 'e) request \<Rightarrow> ('d, 'e) request" where
  "rq_cleanup r = r\<lparr>rq_subscribed := False, rq_listening := False\<rparr>"

definition on_result :: "('d, 'e) query_result \<Rightarrow> ('d, 'e) request \<Rightarrow> ('d, 'e) request" where
  "on_result x r =
     (if qr_stale x \<or> qr_hasNext x then r
      else
        settle_with (case qr_error x of Some e \<Rightarrow> Rejected e
                     | None \<Rightarrow> (case qr_data x of None \<Rightarrow> No_data | Some d \<Rightarrow> Resolved d))
          (r\<lparr>rq_cleanups := rq_cleanups r + 1\<rparr>))"

text \<open>The start of a request: an aborted signal throws; an answer may come before \<open>subscribe\<close> returns.\<close>

definition start_request :: "bool option \<Rightarrow> ('d, 'e) query_result list \<Rightarrow> ('d, 'e) request option" where
  "start_request signal sync =
     (if signal = Some True then None
      else
        let r = \<lparr>rq_outcome = None, rq_subscribed = False, rq_listening = (signal \<noteq> None), rq_cleanups = 0\<rparr>
        in Some ((fold on_result sync r)\<lparr>rq_subscribed := True\<rparr>))"

datatype ('d, 'e) request_event = Abort_signal | Answer "('d, 'e) query_result" | Run_microtask

fun request_step :: "('d, 'e) request \<Rightarrow> ('d, 'e) request_event \<Rightarrow> ('d, 'e) request" where
  "request_step r Abort_signal = (if rq_listening r then settle_with Aborted (rq_cleanup r) else r)"
| "request_step r (Answer x) = (if rq_subscribed r then on_result x r else r)"
| "request_step r Run_microtask =
     (if rq_cleanups r = 0 then r else (rq_cleanup r)\<lparr>rq_cleanups := rq_cleanups r - 1\<rparr>)"

section \<open>Lemmas\<close>

lemma handle_key_pair:
  "handle_key popups (ev, acts) s =
     (if shortcut_runs popups ev (sh_key s) then (ev\<lparr>ky_prevented := True\<rparr>, acts @ [sh_action s]) else (ev, acts))"
  by (simp add: handle_key_def)

lemma handled_once:
  "snd (foldl (handle_key popups) (ev, acts) ls) =
     acts @ (if ky_prevented ev then []
            else take 1 (map sh_action (filter (\<lambda>s. shortcut_runs popups ev (sh_key s)) ls)))"
proof (induction ls arbitrary: ev acts)
  case (Cons s ls)
  show ?case
  proof (cases "shortcut_runs popups ev (sh_key s)")
    case True
    then have "\<not> ky_prevented ev" by (simp add: shortcut_runs_def)
    then show ?thesis using True by (simp add: handle_key_pair Cons)
  next
    case False
    then show ?thesis by (simp add: handle_key_pair Cons)
  qed
qed simp

definition copy_inv :: "copy_state \<Rightarrow> bool" where
  "copy_inv s \<longleftrightarrow>
     length (cy_pending s) \<le> 1 \<and> set (cy_pending s) \<subseteq> set_option (cy_timer s) \<and>
     (cy_mounted s \<longrightarrow> (cy_status s = Idle_copy \<longleftrightarrow> cy_pending s = [])) \<and>
     (\<not> cy_mounted s \<longrightarrow> cy_pending s = [])"

lemma clear_timer_inv: "set (cy_pending s) \<subseteq> set_option (cy_timer s) \<Longrightarrow> cy_pending (clear_timer s) = []"
  by (auto simp: clear_timer_def filter_empty_conv)

lemma clear_timer_simps [simp]:
  "cy_status (clear_timer s) = cy_status s" "cy_timer (clear_timer s) = cy_timer s"
  "cy_mounted (clear_timer s) = cy_mounted s" "cy_next (clear_timer s) = cy_next s"
  by (simp_all add: clear_timer_def)

lemma copy_inv_step: "copy_inv s \<Longrightarrow> copy_inv (copy_step s e)"
proof (cases e)
  case (Write_done ok)
  assume inv: "copy_inv s"
  then have "cy_pending (clear_timer (s\<lparr>cy_status := (if ok then Copied else Failed)\<rparr>)) = []"
    by (intro clear_timer_inv) (simp add: copy_inv_def)
  with inv Write_done show ?thesis by (simp add: copy_inv_def write_done_def Let_def)
next
  case (Timer_fires t)
  assume inv: "copy_inv s"
  then have "filter (\<lambda>u. u \<noteq> t) (cy_pending s) = []" if "t \<in> set (cy_pending s)"
    using that by (cases "cy_pending s") (auto simp: copy_inv_def)
  with inv Timer_fires show ?thesis by (auto simp: copy_inv_def)
next
  case Unmount_copy
  assume inv: "copy_inv s"
  then have "cy_pending (clear_timer (s\<lparr>cy_mounted := False\<rparr>)) = []"
    by (intro clear_timer_inv) (simp add: copy_inv_def)
  with Unmount_copy show ?thesis by (simp add: copy_inv_def)
qed

interpretation copy_machine: step_machine new_copy copy_step copy_inv
proof unfold_locales
  show "copy_inv new_copy" by (simp add: copy_inv_def new_copy_def)
qed (rule copy_inv_step)

definition request_inv :: "bool \<Rightarrow> ('d, 'e) request \<Rightarrow> bool" where
  "request_inv signalled r \<longleftrightarrow>
     (rq_outcome r = None \<longrightarrow> rq_subscribed r \<and> rq_listening r = signalled \<and> rq_cleanups r = 0) \<and>
     (rq_outcome r \<noteq> None \<and> rq_cleanups r = 0 \<longrightarrow> \<not> rq_subscribed r \<and> \<not> rq_listening r)"

lemma request_inv_step: "request_inv b r \<Longrightarrow> request_inv b (request_step r e)"
  by (cases e) (auto simp: request_inv_def settle_with_def rq_cleanup_def on_result_def)

lemma request_run: "request_inv b r \<Longrightarrow> request_inv b (foldl request_step r es)"
  by (induction es arbitrary: r) (simp_all add: request_inv_step)

definition settled :: "('d, 'e) request \<Rightarrow> bool" where
  "settled r \<longleftrightarrow> rq_outcome r \<noteq> None"

lemma outcome_stays: "rq_outcome r = Some x \<Longrightarrow> rq_outcome (foldl request_step r es) = Some x"
proof (induction es arbitrary: r)
  case (Cons e es)
  then have "rq_outcome (request_step r e) = Some x"
    by (cases e) (auto simp: settle_with_def rq_cleanup_def on_result_def)
  with Cons.IH show ?case by simp
qed simp

lemma sync_answers:
  assumes "rq_outcome r \<noteq> None \<or> rq_cleanups r = 0" and "rq_outcome r \<noteq> None \<longrightarrow> rq_cleanups r > 0"
    and "rq_listening r = b"
  shows "request_inv b ((fold on_result sync r)\<lparr>rq_subscribed := True\<rparr>)"
  using assms
proof (induction sync arbitrary: r)
  case (Cons x xs)
  have "rq_outcome (on_result x r) \<noteq> None \<or> rq_cleanups (on_result x r) = 0"
    "rq_outcome (on_result x r) \<noteq> None \<longrightarrow> rq_cleanups (on_result x r) > 0"
    "rq_listening (on_result x r) = b"
    using Cons.prems by (auto simp: on_result_def settle_with_def)
  from Cons.IH [OF this] show ?case by simp
qed (auto simp: request_inv_def)

section \<open>Properties\<close>


text \<open>However writes to the clipboard end and timers fire, a mounted button shows an outcome exactly while
  its one timer is pending, which then returns it to rest; a button that is gone has no timer left and a
  write that ends later changes nothing.\<close>

theorem copy_status_settles:
  "let s = foldl copy_step new_copy es in
    length (cy_pending s) \<le> 1 \<and>
    (if cy_mounted s then
       (cy_status s = Idle_copy \<longleftrightarrow> cy_pending s = []) \<and>
       cy_status (foldl copy_step s (map Timer_fires (cy_pending s))) = Idle_copy
     else cy_pending s = [] \<and> copy_step s (Write_done ok) = s)"
proof -
  let ?s = "foldl copy_step new_copy es"
  have inv: "copy_inv ?s" by (rule copy_machine.inv_run)
  moreover have "cy_status (foldl copy_step ?s (map Timer_fires (cy_pending ?s))) = Idle_copy" if "cy_mounted ?s"
  proof (cases "cy_pending ?s")
    case Nil
    with inv that show ?thesis by (simp add: copy_inv_def)
  next
    case (Cons t ts)
    with inv have "ts = []" by (simp add: copy_inv_def)
    with Cons show ?thesis by simp
  qed
  ultimately show ?thesis by (simp add: Let_def copy_inv_def write_done_def)
qed

text \<open>C19: A request settles once: whatever answers, aborts and cleanups follow each other after its start, the
  outcome never changes, and once the cleanup has run after it, nothing is subscribed or listening; a
  request that is not settled is subscribed and listens to its signal.\<close>

theorem request_settles_once:
  assumes "start_request signal sync = Some r0"
  shows "let r = foldl request_step r0 es in
    (rq_outcome r = None \<longrightarrow> rq_subscribed r \<and> (rq_listening r \<longleftrightarrow> signal \<noteq> None)) \<and>
    (rq_outcome r \<noteq> None \<and> rq_cleanups r = 0 \<longrightarrow> \<not> rq_subscribed r \<and> \<not> rq_listening r) \<and>
    (\<forall>out. rq_outcome r = Some out \<longrightarrow> rq_outcome (foldl request_step r es') = Some out)"
proof -
  have "request_inv (signal \<noteq> None) r0"
    using assms by (auto simp: start_request_def Let_def split: if_splits intro!: sync_answers)
  from request_run [OF this, of es] show ?thesis by (auto simp: Let_def request_inv_def outcome_stays)
qed

theorem request_settles_once_witness:
  "let x = \<lparr>qr_stale = False, qr_hasNext = False, qr_error = None, qr_data = Some (7 :: int)\<rparr>;
       r = foldl request_step (the (start_request (Some False) [])) [Answer x, Abort_signal, Run_microtask] :: (int, unit) request
   in rq_outcome r = Some (Resolved 7) \<and> \<not> rq_subscribed r"
proof -
  let ?x = "\<lparr>qr_stale = False, qr_hasNext = False, qr_error = None, qr_data = Some (7 :: int)\<rparr> :: (int, unit) query_result"
  let ?r0 = "the (start_request (Some False) []) :: (int, unit) request"
  have "start_request (Some False) [] = Some ?r0" by (simp add: start_request_def)
  note once = request_settles_once [OF this, of "[Answer ?x]" "[Abort_signal, Run_microtask]"]
  have "rq_outcome (foldl request_step ?r0 [Answer ?x]) = Some (Resolved 7)"
    by (simp add: start_request_def on_result_def settle_with_def)
  with once have a: "rq_outcome (foldl request_step ?r0 [Answer ?x, Abort_signal, Run_microtask]) = Some (Resolved 7)"
    by (simp add: Let_def)
  moreover have "rq_cleanups (foldl request_step ?r0 [Answer ?x, Abort_signal, Run_microtask]) = 0"
    by (simp add: start_request_def on_result_def settle_with_def rq_cleanup_def)
  ultimately show ?thesis
    using request_settles_once [of "Some False" "[]" ?r0 "[Answer ?x, Abort_signal, Run_microtask]"]
      \<open>start_request (Some False) [] = Some ?r0\<close>
    by (simp add: Let_def)
qed

text \<open>What the search box shows after a submission is the text the address then holds, so that the render
  that follows leaves it; the text is what remains of the input without its filters. An unfinished edit
  survives every render while the text of the address stays.\<close>

theorem search_box_settles:
  assumes "box_step (setText sig uuids) (Press_key ''Enter'' False) (b, search) = (b', search')"
  shows "sx_input (sync_search (held_text sig search') b') = held_text sig search' \<and>
    held_text sig search' = ps_plain (parse_signal sig (sx_input b)) \<and>
    (let c = sync_search (held_text sig search') b' in
       sync_search (held_text sig search') (c\<lparr>sx_input := draft\<rparr>) = c\<lparr>sx_input := draft\<rparr>)"
proof -
  have "held_text sig search' = ps_plain (parse_signal sig (sx_input b))" "sx_input b' = held_text sig search'"
    using assms by (auto simp: box_step_def setText_def setState_def filterQuerySearch_def readFilterQuery_def Let_def)
  then show ?thesis by (simp add: sync_search_def Let_def)
qed

theorem search_box_settles_witness:
  "case box_step (setText Logs [''u'']) (Press_key ''Enter'' False)
     (\<lparr>sx_input = ''boom service_name:api'', sx_synced = []\<rparr>, validateSearch []) of
     (b', search') \<Rightarrow> sx_input (sync_search (held_text Logs search') b') = ''boom''"
proof -
  let ?b = "\<lparr>sx_input = ''boom service_name:api'', sx_synced = []\<rparr>"
  obtain b' search' where s: "box_step (setText Logs [''u'']) (Press_key ''Enter'' False) (?b, validateSearch []) = (b', search')"
    by (cases "box_step (setText Logs [''u'']) (Press_key ''Enter'' False) (?b, validateSearch [])")
  moreover have "ps_plain (parse_signal Logs ''boom service_name:api'') = ''boom''" by code_simp
  moreover note box = search_box_settles [OF s]
  from box have "sx_input (sync_search (held_text Logs search') b') = ps_plain (parse_signal Logs (sx_input ?b))"
    by (metis (no_types))
  ultimately show ?thesis unfolding s by simp
qed

end
