(* ===== verification/Navigation.thy ===== *)
theory Navigation
  imports QueryState Store
begin

text \<open>
  Moving between the pages: the routes and the tab history of \<^verbatim>\<open>router.tsx\<close>, the tabs
  of \<^verbatim>\<open>App.tsx\<close>, the selections of \<^verbatim>\<open>hooks/use-signal-route.ts\<close>, the
  identity of a span link of \<^verbatim>\<open>lib/span-link-selection.ts\<close> with its dialog, the window
  controls of \<^verbatim>\<open>components/common/event-window-controls.tsx\<close> and the theme switch of
  \<^verbatim>\<open>components/layout/header.tsx\<close>. The router library matches a location against the
  route tree and runs \<open>beforeLoad\<close> of the matched routes from the outermost to the innermost;
  a navigation is the page it leads to.
\<close>

section \<open>Span links\<close>

record span_link =
  sl_sourceTraceId :: string
  sl_sourceSpanId :: string
  sl_ordinal :: nat

text \<open>The match of \<open>0|[1-9]\d*\<close>.\<close>

definition ordinal_text :: "string \<Rightarrow> bool" where
  "ordinal_text w \<longleftrightarrow>
     w \<noteq> [] \<and> list_all digit_char w \<and> (hd w \<noteq> CHR ''0'' \<or> length w = 1)"

definition parseSpanLink :: "json option \<Rightarrow> span_link option" where
  "parseSpanLink v =
     (case v of
        Some (JStr s) \<Rightarrow>
          (case split_char (CHR ''/'') s of
             [a, b, w] \<Rightarrow>
               if a \<noteq> [] \<and> b \<noteq> [] \<and> ordinal_text w \<and> nat_of_text 0 w \<le> 2147483647
               then Some \<lparr>sl_sourceTraceId = a, sl_sourceSpanId = b, sl_ordinal = nat_of_text 0 w\<rparr>
               else None
           | _ \<Rightarrow> None)
      | _ \<Rightarrow> None)"

definition spanLinkSelection :: "span_link \<Rightarrow> string" where
  "spanLinkSelection link =
     sl_sourceTraceId link @ ''/'' @ sl_sourceSpanId link @ ''/'' @ nat_text (sl_ordinal link)"

section \<open>Pages\<close>

datatype location =
    At_home
  | At_traces
  | At_trace string
  | At_span string string
  | At_logs
  | At_log string
  | At_metrics
  | At_metric string string

fun location_signal :: "location \<Rightarrow> signal" where
  "location_signal At_home = Traces"
| "location_signal At_traces = Traces"
| "location_signal (At_trace _) = Traces"
| "location_signal (At_span _ _) = Traces"
| "location_signal At_logs = Logs"
| "location_signal (At_log _) = Logs"
| "location_signal At_metrics = Metrics"
| "location_signal (At_metric _ _) = Metrics"

datatype span_tab = Tab_links | Tab_referenced_by

record page_search =
  pq_signal :: signal_search
  pq_spanTab :: "span_tab option"
  pq_link :: "string option"

record page =
  pg_location :: location
  pg_search :: page_search

definition empty_signal_search :: signal_search where
  "empty_signal_search =
     \<lparr>ss_q = None, ss_range = None, ss_from = None, ss_to = None, ss_filter = None, ss_disabled_filter = None\<rparr>"

definition empty_search :: page_search where
  "empty_search = \<lparr>pq_signal = empty_signal_search, pq_spanTab = None, pq_link = None\<rparr>"

text \<open>The search of a span page, of the raw entries of the address.\<close>

definition span_tab_of :: "json option \<Rightarrow> span_tab option" where
  "span_tab_of v =
     (if v = Some (JStr ''links'') then Some Tab_links
      else if v = Some (JStr ''referenced-by'') then Some Tab_referenced_by
      else None)"

definition validateSpanSearch :: "(number \<Rightarrow> string) \<Rightarrow> raw_search \<Rightarrow> span_tab option \<times> string option" where
  "validateSpanSearch num_text search =
     (let link = Option.bind (map_of search ''link'') id
      in (span_tab_of (Option.bind (map_of search ''spanTab'') id),
          if parseSpanLink link \<noteq> None then map_option (js_String num_text) link else None))"

section \<open>Tab history\<close>

record tab_history =
  th_destinations :: "(signal \<times> page) list"
  th_eventSearch :: page_search

definition new_history :: tab_history where
  "new_history = \<lparr>th_destinations = [], th_eventSearch = empty_search\<rparr>"

definition remember :: "signal \<Rightarrow> page \<Rightarrow> tab_history \<Rightarrow> tab_history" where
  "remember sig destination h =
     (let h1 = h\<lparr>th_destinations := AList.update sig destination (th_destinations h)\<rparr>
      in if sig \<noteq> Metrics then h1\<lparr>th_eventSearch := pg_search destination\<rparr> else h1)"

datatype route =
    Home_route
  | Traces_route
  | Trace_route
  | Span_route
  | Logs_route
  | Log_route
  | Metrics_route
  | Metric_route

text \<open>The matched routes of a location, below the root.\<close>

fun route_matches :: "location \<Rightarrow> route list" where
  "route_matches At_home = [Home_route]"
| "route_matches At_traces = [Traces_route]"
| "route_matches (At_trace _) = [Traces_route, Trace_route]"
| "route_matches (At_span _ _) = [Traces_route, Trace_route, Span_route]"
| "route_matches At_logs = [Logs_route]"
| "route_matches (At_log _) = [Logs_route, Log_route]"
| "route_matches At_metrics = [Metrics_route]"
| "route_matches (At_metric _ _) = [Metrics_route, Metric_route]"

text \<open>The parameters of the matched location.\<close>

fun trace_param :: "location \<Rightarrow> string" where
  "trace_param (At_trace t) = t"
| "trace_param (At_span t _) = t"
| "trace_param _ = []"

fun beforeLoad :: "bool \<Rightarrow> page \<Rightarrow> route \<Rightarrow> tab_history \<Rightarrow> tab_history" where
  "beforeLoad preload p Home_route h =
     (if \<not> preload then remember Traces \<lparr>pg_location = At_home, pg_search = pg_search p\<rparr> h else h)"
| "beforeLoad preload p Traces_route h =
     (if \<not> preload \<and> last (route_matches (pg_location p)) = Traces_route
      then remember Traces \<lparr>pg_location = At_traces, pg_search = pg_search p\<rparr> h else h)"
| "beforeLoad preload p Trace_route h =
     (if \<not> preload \<and> last (route_matches (pg_location p)) = Trace_route
      then remember Traces \<lparr>pg_location = At_trace (trace_param (pg_location p)), pg_search = pg_search p\<rparr> h else h)"
| "beforeLoad preload p Span_route h =
     (if \<not> preload then remember Traces p h else h)"
| "beforeLoad preload p Logs_route h =
     (if \<not> preload \<and> last (route_matches (pg_location p)) = Logs_route
      then remember Logs \<lparr>pg_location = At_logs, pg_search = pg_search p\<rparr> h else h)"
| "beforeLoad preload p Log_route h =
     (if \<not> preload then remember Logs p h else h)"
| "beforeLoad preload p Metrics_route h =
     (if \<not> preload \<and> last (route_matches (pg_location p)) = Metrics_route
      then remember Metrics \<lparr>pg_location = At_metrics, pg_search = pg_search p\<rparr> h else h)"
| "beforeLoad preload p Metric_route h =
     (if \<not> preload then remember Metrics p h else h)"

definition load_page :: "bool \<times> page \<Rightarrow> tab_history \<Rightarrow> tab_history" where
  "load_page v h = (case v of (preload, p) \<Rightarrow> fold (beforeLoad preload p) (route_matches (pg_location p)) h)"

text \<open>The loader of a trace page asks for the trace unless the store has it.\<close>

definition trace_prefetched :: "store \<Rightarrow> string \<Rightarrow> bool" where
  "trace_prefetched st traceId \<longleftrightarrow> \<not> (\<exists>t \<in> set (st_traces st). tr_traceId t = traceId)"

section \<open>Tabs\<close>

fun tab_location :: "signal \<Rightarrow> location" where
  "tab_location Traces = At_traces"
| "tab_location Logs = At_logs"
| "tab_location Metrics = At_metrics"

definition setActiveTab :: "temporal \<Rightarrow> signal \<Rightarrow> tab_history \<Rightarrow> page" where
  "setActiveTab T tab h =
     (let destination =
            (case map_of (th_destinations h) tab of
               None \<Rightarrow> \<lparr>pg_location = tab_location tab, pg_search = empty_search\<rparr>
             | Some d \<Rightarrow> d)
      in if tab = Metrics then destination
         else destination\<lparr>pg_search := (pg_search destination)\<lparr>pq_signal :=
           eventWindowSearch (eventWindowFromSearch T (pq_signal (th_eventSearch h)))
             (pq_signal (pg_search destination))\<rparr>\<rparr>)"

text \<open>
  The callback of the live feed when the trace of the open page is evicted: the page that is
  shown leads to the list, unless a link is open.
\<close>

definition on_trace_removed :: "string \<Rightarrow> page \<Rightarrow> page" where
  "on_trace_removed traceId p =
     (if \<not> truthy (pq_link (pg_search p)) \<and> pg_location p = At_trace traceId
      then p\<lparr>pg_location := At_traces\<rparr> else p)"

section \<open>Selections\<close>

definition leave_span :: "page_search \<Rightarrow> page_search" where
  "leave_span s = s\<lparr>pq_spanTab := None, pq_link := None\<rparr>"

fun page_trace_id :: "location \<Rightarrow> string option" where
  "page_trace_id (At_trace t) = Some t"
| "page_trace_id (At_span t _) = Some t"
| "page_trace_id _ = None"

fun page_span_id :: "location \<Rightarrow> string option" where
  "page_span_id (At_span _ s) = Some s"
| "page_span_id _ = None"

definition selected_trace :: "store \<Rightarrow> page \<Rightarrow> trace option" where
  "selected_trace st p = find (\<lambda>t. Some (tr_traceId t) = page_trace_id (pg_location p)) (st_traces st)"

definition selectSpan :: "string option \<Rightarrow> span_tab option \<Rightarrow> page \<Rightarrow> page" where
  "selectSpan spanId spanTab p =
     (if \<not> truthy (page_trace_id (pg_location p)) then p
      else
        let traceId = the (page_trace_id (pg_location p))
        in if truthy spanId
           then \<lparr>pg_location = At_span traceId (the spanId),
                 pg_search = (pg_search p)\<lparr>pq_link := None,
                   pq_spanTab := (case spanTab of None \<Rightarrow> pq_spanTab (pg_search p) | Some t \<Rightarrow> Some t)\<rparr>\<rparr>
           else \<lparr>pg_location = At_trace traceId, pg_search = leave_span (pg_search p)\<rparr>)"

definition selectTrace :: "trace option \<Rightarrow> page \<Rightarrow> page" where
  "selectTrace t p =
     \<lparr>pg_location = (case t of None \<Rightarrow> At_traces | Some t \<Rightarrow> At_trace (tr_traceId t)),
      pg_search = leave_span (pg_search p)\<rparr>"

fun page_metric :: "location \<Rightarrow> (string \<times> string) option" where
  "page_metric (At_metric s n) = Some (s, n)"
| "page_metric _ = None"

definition selected_metric :: "store \<Rightarrow> page \<Rightarrow> metric option" where
  "selected_metric st p =
     find (\<lambda>m. Some (mt_serviceName m, mt_name m) = page_metric (pg_location p)) (st_metrics st)"

definition selectMetric :: "metric option \<Rightarrow> page \<Rightarrow> page" where
  "selectMetric m p =
     p\<lparr>pg_location := (case m of None \<Rightarrow> At_metrics | Some m \<Rightarrow> At_metric (mt_serviceName m) (mt_name m))\<rparr>"

fun page_log :: "location \<Rightarrow> string option" where
  "page_log (At_log l) = Some l"
| "page_log _ = None"

definition selected_log :: "store \<Rightarrow> page \<Rightarrow> log option" where
  "selected_log st p = find (\<lambda>l. Some (lg_id l) = page_log (pg_location p)) (st_logs st)"

definition selectLog :: "log option \<Rightarrow> page \<Rightarrow> page" where
  "selectLog l p = p\<lparr>pg_location := (case l of None \<Rightarrow> At_logs | Some l \<Rightarrow> At_log (lg_id l))\<rparr>"

definition showSurroundingLogs :: "event_window \<Rightarrow> page \<Rightarrow> page" where
  "showSurroundingLogs w p =
     p\<lparr>pg_search := empty_search\<lparr>pq_signal := eventWindowSearch w empty_signal_search\<rparr>\<rparr>"

definition navigateToTrace :: "temporal \<Rightarrow> string \<Rightarrow> tab_history \<Rightarrow> page \<Rightarrow> page" where
  "navigateToTrace T traceId h p =
     (let previous = (case map_of (th_destinations h) Traces of None \<Rightarrow> empty_search | Some d \<Rightarrow> pg_search d)
      in \<lparr>pg_location = At_trace traceId,
          pg_search = previous\<lparr>pq_signal :=
            eventWindowSearch (eventWindowFromSearch T (pq_signal (pg_search p))) (pq_signal previous)\<rparr>\<rparr>)"

definition navigateToLogs :: "temporal \<Rightarrow> string \<Rightarrow> string \<Rightarrow> tab_history \<Rightarrow> page \<Rightarrow> page" where
  "navigateToLogs T uuid traceId h p =
     (let previous = (case map_of (th_destinations h) Logs of None \<Rightarrow> empty_search | Some d \<Rightarrow> pg_search d)
      in \<lparr>pg_location = At_logs,
          pg_search = previous\<lparr>pq_signal :=
            logs_of_trace T uuid traceId (pq_signal previous) (pq_signal (pg_search p))\<rparr>\<rparr>)"

section \<open>The dialog of a link\<close>

definition shown_link :: "page \<Rightarrow> span_link option" where
  "shown_link p = parseSpanLink (map_option JStr (pq_link (pg_search p)))"

definition close_link :: "page \<Rightarrow> page" where
  "close_link p = p\<lparr>pg_search := (pg_search p)\<lparr>pq_link := None\<rparr>\<rparr>"

record link_endpoint =
  le_name :: string
  le_service :: string
  le_target :: "(string \<times> string) option"
  le_traceText :: string
  le_spanText :: string

text \<open>An end of the link: the span it names, where the server knows it.\<close>

definition link_endpoint ::
    "(string \<times> string \<times> string \<times> string) option \<Rightarrow> string \<Rightarrow> string \<Rightarrow> link_endpoint" where
  "link_endpoint spn traceId spanId =
     (let or_empty = (\<lambda>s. if s = [] then ''(empty)'' else s)
      in case spn of
           None \<Rightarrow>
             \<lparr>le_name = ''Span not available'', le_service = ''Span details unavailable'', le_target = None,
              le_traceText = or_empty traceId, le_spanText = or_empty spanId\<rparr>
         | Some (tId, sId, name, serviceName) \<Rightarrow>
             \<lparr>le_name = name, le_service = (if serviceName = [] then ''Unknown service'' else serviceName),
              le_target = Some (tId, sId), le_traceText = or_empty traceId, le_spanText = or_empty spanId\<rparr>)"

section \<open>Window controls\<close>

record window_controls =
  wc_range :: "chart_range option"
  wc_previousDisabled :: bool
  wc_nextDisabled :: bool
  wc_isLive :: bool

text \<open>\<open>None\<close> is an exception of the range computation.\<close>

definition window_controls :: "temporal \<Rightarrow> event_window \<Rightarrow> window_controls option" where
  "window_controls T w =
     map_option (\<lambda>range.
       let canMove = (range \<noteq> Some RAll); isLive = (case w of Live _ \<Rightarrow> True | Fixed _ _ \<Rightarrow> False)
       in \<lparr>wc_range = range, wc_previousDisabled = (\<not> canMove), wc_nextDisabled = (isLive \<or> \<not> canMove),
           wc_isLive = isLive\<rparr>)
       (eventWindowRange T w)"

datatype window_action = Previous_window | Next_window | Choose_range chart_range | Go_live

fun apply_window_action :: "temporal \<Rightarrow> int \<Rightarrow> window_action \<Rightarrow> event_window \<Rightarrow> event_window option" where
  "apply_window_action T now Previous_window w = shiftEventWindow T now w (- 1)"
| "apply_window_action T now Next_window w = shiftEventWindow T now w 1"
| "apply_window_action T now (Choose_range r) w = Some (Live r)"
| "apply_window_action T now Go_live w =
     map_option (\<lambda>range. case range of None \<Rightarrow> DEFAULT_EVENT_TIME_WINDOW | Some r \<Rightarrow> Live r)
       (eventWindowRange T w)"

definition set_window :: "event_window \<Rightarrow> page \<Rightarrow> page" where
  "set_window w p = p\<lparr>pg_search := (pg_search p)\<lparr>pq_signal := eventWindowSearch w (pq_signal (pg_search p))\<rparr>\<rparr>"

section \<open>Header\<close>

datatype theme = Light_theme | Dark_theme | System_theme

definition themeOrder :: "theme list" where
  "themeOrder = [System_theme, Light_theme, Dark_theme]"

definition next_theme :: "theme \<Rightarrow> theme" where
  "next_theme t =
     themeOrder ! ((case find_index (\<lambda>x. x = t) themeOrder of None \<Rightarrow> 0 | Some i \<Rightarrow> i + 1) mod length themeOrder)"

definition is_dark :: "theme \<Rightarrow> bool \<Rightarrow> bool" where
  "is_dark t systemDark \<longleftrightarrow> t = Dark_theme \<or> t = System_theme \<and> systemDark"

definition endpointFor :: "string \<Rightarrow> string \<Rightarrow> string option" where
  "endpointFor bindAddr browserHost =
     (let parts = split_char (CHR '':'') bindAddr;
          port = (if length parts < 2 then [] else last parts)
      in if port = [] then None else Some (browserHost @ '':'' @ port))"

section \<open>Decimal ordinals\<close>

lemma char_of_48: "char_of (48 :: nat) = CHR ''0''"
  by code_simp

lemma split_char_free: "x \<in> set (split_char c w) \<Longrightarrow> c \<notin> set x"
proof (induction w arbitrary: x)
  case (Cons y w)
  then show ?case by (cases "split_char c w") (auto split: if_splits)
qed simp

lemma ordinal_text_nat: "ordinal_text (nat_text n)"
proof -
  have "hd (nat_text n) \<noteq> CHR ''0'' \<or> length (nat_text n) = 1"
  proof (induction n rule: nat_text.induct)
    case (1 n)
    show ?case
    proof (cases "n < 10")
      case False
      then have "nat_text n = nat_text (n div 10) @ [char_of (48 + n mod 10)]" by (simp add: nat_text.simps [of n])
      moreover have "hd (nat_text (n div 10)) \<noteq> CHR ''0''"
      proof
        assume z: "hd (nat_text (n div 10)) = CHR ''0''"
        then have "length (nat_text (n div 10)) = 1" using 1 [OF False] by blast
        then have "nat_text (n div 10) = ''0''" using z by (cases "nat_text (n div 10)") auto
        also have "''0'' = nat_text 0" by (simp add: nat_text.simps char_of_48)
        finally show False using False by simp
      qed
      ultimately show ?thesis by simp
    qed (simp add: nat_text.simps [of n])
  qed
  then show ?thesis by (simp add: ordinal_text_def nat_text_digits)
qed

lemma digit_char_read: "digit_char c \<Longrightarrow> char_of (48 + (char_code c - 48)) = c"
  using char_of_code [of c] by (simp add: digit_char_def)

lemma ordinal_text_read: "ordinal_text w \<Longrightarrow> nat_text (nat_of_text 0 w) = w"
proof (induction w rule: rev_induct)
  case (snoc c u)
  let ?d = "char_code c - 48"
  have c: "digit_char c" using snoc.prems by (simp add: ordinal_text_def)
  then have "?d < 10" unfolding digit_char_def by linarith
  note d = this digit_char_read [OF c]
  show ?case
  proof (cases "u = []")
    case True
    then show ?thesis using d by (simp add: nat_text.simps [of ?d])
  next
    case False
    then have hd: "hd u \<noteq> CHR ''0''" using snoc.prems by (auto simp: ordinal_text_def)
    then have u: "nat_text (nat_of_text 0 u) = u"
      using snoc False by (auto simp: ordinal_text_def)
    have "nat_of_text 0 u \<noteq> 0"
    proof
      assume "nat_of_text 0 u = 0"
      with u have "u = nat_text 0" by simp
      with hd show False by (simp add: nat_text.simps char_of_48)
    qed
    then show ?thesis using u d
      by (subst nat_text.simps) (simp add: nat_of_text_append)
  qed
qed (simp add: ordinal_text_def)

section \<open>History\<close>

lemma load_page: "load_page (preload, p) h =
    (if preload then h else remember (location_signal (pg_location p)) p h)"
  by (cases p; cases "pg_location p") (simp_all add: load_page_def)

lemma load_page_destination:
  "map_of (th_destinations (load_page v h)) sig =
     (if \<not> fst v \<and> location_signal (pg_location (snd v)) = sig then Some (snd v)
      else map_of (th_destinations h) sig)"
  by (cases v) (auto simp: load_page remember_def Let_def update_conv')

lemma load_page_search:
  "th_eventSearch (load_page v h) =
     (if \<not> fst v \<and> location_signal (pg_location (snd v)) \<noteq> Metrics then pg_search (snd v)
      else th_eventSearch h)"
  by (cases v) (auto simp: load_page remember_def Let_def)

text \<open>The pages that were visited, not merely preloaded, that satisfy a predicate.\<close>

definition visits :: "(signal \<Rightarrow> bool) \<Rightarrow> (bool \<times> page) list \<Rightarrow> page list" where
  "visits P vs = map snd (filter (\<lambda>v. \<not> fst v \<and> P (location_signal (pg_location (snd v)))) vs)"

definition last_visit :: "(signal \<Rightarrow> bool) \<Rightarrow> (bool \<times> page) list \<Rightarrow> page option" where
  "last_visit P vs = (if visits P vs = [] then None else Some (last (visits P vs)))"

lemma last_visit_snoc:
  "last_visit P (vs @ [v]) =
     (if \<not> fst v \<and> P (location_signal (pg_location (snd v))) then Some (snd v) else last_visit P vs)"
  by (simp add: last_visit_def visits_def)

lemma history_destination:
  "map_of (th_destinations (fold load_page vs new_history)) sig = last_visit (\<lambda>s. s = sig) vs"
  by (induction vs rule: rev_induct)
    (simp_all add: load_page_destination last_visit_snoc, simp add: new_history_def last_visit_def visits_def)

lemma history_search:
  "th_eventSearch (fold load_page vs new_history) =
     (case last_visit (\<lambda>s. s \<noteq> Metrics) vs of None \<Rightarrow> empty_search | Some p \<Rightarrow> pg_search p)"
  by (induction vs rule: rev_induct)
    (simp_all add: load_page_search last_visit_snoc, simp add: new_history_def last_visit_def visits_def)

lemma last_visit_signal: "last_visit P vs = Some p \<Longrightarrow> P (location_signal (pg_location p))"
proof -
  assume a: "last_visit P vs = Some p"
  then have "p \<in> set (visits P vs)" by (auto simp: last_visit_def split: if_splits)
  then show ?thesis by (auto simp: visits_def)
qed

lemma tab_location_signal [simp]: "location_signal (tab_location tab) = tab"
  by (cases tab) simp_all

text \<open>A window that was read from an address reads back from the address it is written to.\<close>

lemma window_rewritten:
  assumes "temporal_laws T" and "\<forall>n. inst_show T n \<noteq> []"
  shows "eventWindowFromSearch T (eventWindowSearch (eventWindowFromSearch T a) b) = eventWindowFromSearch T a"
proof -
  have live: "eventWindowFromSearch T (eventWindowSearch (Live r) b) = Live r" for r
    by (simp add: eventWindowFromSearch_def eventWindowSearch_def truthy_def)
  have fixed: "eventWindowFromSearch T (eventWindowSearch (Fixed (inst_show T m) (inst_show T n)) b) =
      Fixed (inst_show T m) (inst_show T n)" if "m < n" "valid_instant m" "valid_instant n" for m n
    using assms that by (simp add: eventWindowFromSearch_def eventWindowSearch_def truthy_def parse_show)
  have "(\<exists>r. eventWindowFromSearch T a = Live r) \<or>
      (\<exists>m n. eventWindowFromSearch T a = Fixed (inst_show T m) (inst_show T n) \<and> m < n \<and> valid_instant m \<and> valid_instant n)"
    using parse_valid [OF assms(1)]
    by (auto simp: eventWindowFromSearch_def Let_def split: option.split)
  then show ?thesis using live fixed by auto
qed

section \<open>Properties\<close>

text \<open>C16: The text of a span link in the address stands for one link: it parses exactly when it is the text of a link
  with non-empty ids free of slashes and an ordinal below 2 to the 31, and then to that link.\<close>

theorem span_link_round_trip:
  "parseSpanLink (Some (JStr w)) = Some l \<longleftrightarrow>
     w = spanLinkSelection l \<and> sl_sourceTraceId l \<noteq> [] \<and> sl_sourceSpanId l \<noteq> [] \<and>
     CHR ''/'' \<notin> set (sl_sourceTraceId l) \<and> CHR ''/'' \<notin> set (sl_sourceSpanId l) \<and>
     sl_ordinal l \<le> 2147483647"
proof
  assume p: "parseSpanLink (Some (JStr w)) = Some l"
  then obtain a b o' where sp: "split_char (CHR ''/'') w = [a, b, o']"
      and ok: "a \<noteq> []" "b \<noteq> []" "ordinal_text o'" "nat_of_text 0 o' \<le> 2147483647"
      and l: "l = \<lparr>sl_sourceTraceId = a, sl_sourceSpanId = b, sl_ordinal = nat_of_text 0 o'\<rparr>"
    by (auto simp: parseSpanLink_def split: list.splits if_splits)
  have "w = join ''/'' [a, b, o']" using join_split [of "CHR ''/''" w] sp by simp
  moreover have "CHR ''/'' \<notin> set a" "CHR ''/'' \<notin> set b"
    using split_char_free [of _ "CHR ''/''" w] sp by simp_all
  ultimately show "w = spanLinkSelection l \<and> sl_sourceTraceId l \<noteq> [] \<and> sl_sourceSpanId l \<noteq> [] \<and>
     CHR ''/'' \<notin> set (sl_sourceTraceId l) \<and> CHR ''/'' \<notin> set (sl_sourceSpanId l) \<and> sl_ordinal l \<le> 2147483647"
    using ok by (simp add: l spanLinkSelection_def ordinal_text_read)
next
  assume r: "w = spanLinkSelection l \<and> sl_sourceTraceId l \<noteq> [] \<and> sl_sourceSpanId l \<noteq> [] \<and>
     CHR ''/'' \<notin> set (sl_sourceTraceId l) \<and> CHR ''/'' \<notin> set (sl_sourceSpanId l) \<and> sl_ordinal l \<le> 2147483647"
  have "CHR ''/'' \<notin> set (nat_text (sl_ordinal l))"
    using nat_text_digits [of "sl_ordinal l"] by (auto simp: list_all_iff digit_char_def char_code_def)
  with r have "split_char (CHR ''/'') w = [sl_sourceTraceId l, sl_sourceSpanId l, nat_text (sl_ordinal l)]"
    by (simp add: spanLinkSelection_def split_char_append split_char_single)
  then show "parseSpanLink (Some (JStr w)) = Some l"
    using r by (simp add: parseSpanLink_def ordinal_text_nat)
qed

text \<open>C15: After any pages were opened or preloaded, pressing a tab leads to the page of that signal visited
  last, or to its list, with that page's text and filters; the tabs of events carry the time window of the event page
  visited last, the metrics keep their own. Preloading a page changes nothing.\<close>

theorem tabs_return:
  assumes "temporal_laws T" and "\<forall>n. inst_show T n \<noteq> []"
  shows "let h = fold load_page vs new_history; p = setActiveTab T tab h;
             before = (case last_visit (\<lambda>s. s = tab) vs of
               None \<Rightarrow> \<lparr>pg_location = tab_location tab, pg_search = empty_search\<rparr> | Some d \<Rightarrow> d);
             event = (case last_visit (\<lambda>s. s \<noteq> Metrics) vs of None \<Rightarrow> empty_search | Some d \<Rightarrow> pg_search d)
    in location_signal (pg_location p) = tab \<and> pg_location p = pg_location before \<and>
       ss_q (pq_signal (pg_search p)) = ss_q (pq_signal (pg_search before)) \<and>
       ss_filter (pq_signal (pg_search p)) = ss_filter (pq_signal (pg_search before)) \<and>
       ss_disabled_filter (pq_signal (pg_search p)) = ss_disabled_filter (pq_signal (pg_search before)) \<and>
       eventWindowFromSearch T (pq_signal (pg_search p)) =
         eventWindowFromSearch T (pq_signal (if tab = Metrics then pg_search before else event)) \<and>
       fold load_page (filter (\<lambda>v. \<not> fst v) vs) new_history = h"
proof -
  have pre: "fold load_page (filter (\<lambda>v. \<not> fst v) ws) h = fold load_page ws h" for ws h
    by (induction ws arbitrary: h) (auto simp: load_page)
  have keep: "ss_q (eventWindowSearch w s) = ss_q s" "ss_filter (eventWindowSearch w s) = ss_filter s"
    "ss_disabled_filter (eventWindowSearch w s) = ss_disabled_filter s" for w s
    by (simp_all add: eventWindowSearch_def split: event_window.split)
  show ?thesis
    unfolding Let_def setActiveTab_def history_destination history_search pre
    by (auto simp: keep window_rewritten [OF assms] split: option.split dest: last_visit_signal)
qed

theorem tabs_return_witness:
  "location_signal (pg_location (setActiveTab decimal_temporal Logs
     (fold load_page [(False, \<lparr>pg_location = At_log ''l'', pg_search = empty_search\<rparr>),
       (False, \<lparr>pg_location = At_metrics, pg_search = empty_search\<rparr>),
       (True, \<lparr>pg_location = At_logs, pg_search = empty_search\<rparr>)] new_history))) = Logs"
proof -
  have "\<forall>n. inst_show decimal_temporal n \<noteq> []" by (simp add: decimal_temporal_def int_text_def)
  from tabs_return [OF decimal_temporal_laws this] show ?thesis unfolding Let_def by blast
qed

end
