(* ===== verification/Loading.thy ===== *)
theory Loading
  imports TraceStore MetricStore Navigation
begin

text \<open>
  What the tab fetches besides the list pages: the first load of \<^verbatim>\<open>hooks/use-initial-load.ts\<close>,
  the trace of a shared address of \<^verbatim>\<open>hooks/use-trace-by-id.ts\<close>, the spans of the open
  trace of \<^verbatim>\<open>hooks/use-trace-spans.ts\<close>, the metric search of
  \<^verbatim>\<open>hooks/use-metric-list-search.ts\<close> and the rows of
  \<^verbatim>\<open>hooks/use-trace-list-page.ts\<close>. The query library runs the requests: the state of a
  query is an argument of the render that sees it, an effect is an update of the store, and \<open>None\<close>
  in its place is an exception of the instant parser.
\<close>

section \<open>Fetched traces\<close>

text \<open>
  A trace as the server answers it: the durations are milliseconds, a span comes with its duration
  beside it, and the search values are absent.
\<close>

record trace_answer = trace_summary +
  ta_spans :: "(span_wire \<times> number) list"

definition fetched_root :: "trace_root \<Rightarrow> trace_root" where
  "fetched_root r = r\<lparr>rt_duration := num_mul (rt_duration r) MS_TO_NS\<rparr>"

definition fetched_wire :: "trace_answer \<Rightarrow> span list \<Rightarrow> trace_wire" where
  "fetched_wire a spans =
     trace_summary.extend
       ((trace_summary.truncate a)
          \<lparr>tr_duration := num_mul (tr_duration a) MS_TO_NS,
           tr_rootSpan := map_option fetched_root (tr_rootSpan a),
           tr_searchValues := None\<rparr>)
       (trace_wire.fields (map span_wire.truncate spans))"

definition fetched_spans :: "instant_parser \<Rightarrow> trace_answer \<Rightarrow> span list option" where
  "fetched_spans parse a = map_opt (\<lambda>(s, durationMs). toSpan parse s durationMs) (ta_spans a)"

definition by_id_toTraceData :: "instant_parser \<Rightarrow> trace_answer \<Rightarrow> trace option" where
  "by_id_toTraceData parse a =
     Option.bind (fetched_spans parse a) (\<lambda>spans. normalizeTrace parse (fetched_wire a spans))"

definition page_toTraceData :: "instant_parser \<Rightarrow> trace_answer \<Rightarrow> trace option" where
  "page_toTraceData parse a = normalizeTrace parse (fetched_wire a [])"

section \<open>A trace by its id\<close>

text \<open>The data of the query: \<open>None\<close> before an answer, \<open>Some None\<close> where the server knows no such trace.\<close>

record trace_query =
  tq_data :: "trace_answer option option"
  tq_isError :: bool
  tq_isFetching :: bool

datatype by_id_status_kind = Idle | Loading_trace | Not_found | Load_error

definition by_id_enabled :: "string option \<Rightarrow> trace option \<Rightarrow> bool" where
  "by_id_enabled traceId t \<longleftrightarrow> truthy traceId \<and> t = None"

definition by_id_status :: "string option \<Rightarrow> trace option \<Rightarrow> trace_query \<Rightarrow> by_id_status_kind" where
  "by_id_status traceId t q =
     (if \<not> truthy traceId \<or> t \<noteq> None then Idle
      else if tq_isFetching q then Loading_trace
      else if tq_isError q then Load_error
      else if tq_data q = Some None then Not_found
      else Loading_trace)"

definition by_id_effect :: "instant_parser \<Rightarrow> trace option \<Rightarrow> trace_query \<Rightarrow> store \<Rightarrow> store option" where
  "by_id_effect parse t q st =
     (case tq_data q of
        Some (Some a) \<Rightarrow>
          if t = None \<and> \<not> tq_isFetching q
          then map_option (\<lambda>fetched. cacheTrace fetched st) (by_id_toTraceData parse a)
          else Some st
      | _ \<Rightarrow> Some st)"

section \<open>The spans of the open trace\<close>

text \<open>\<open>Some None\<close> is an answer without the trace, which clears its spans.\<close>

definition spans_effect ::
    "instant_parser \<Rightarrow> (span list \<Rightarrow> span list \<Rightarrow> span list) \<Rightarrow> string option \<Rightarrow> bool \<Rightarrow>
     (span_wire \<times> number) list option option \<Rightarrow> store \<Rightarrow> store option" where
  "spans_effect parse red traceId isFetching result st =
     (case result of
        None \<Rightarrow> Some st
      | Some answer \<Rightarrow>
          if isFetching \<or> \<not> truthy traceId then Some st
          else map_option (\<lambda>spans. replaceTraceSpans red (the traceId) spans st)
                 (case answer of None \<Rightarrow> Some []
                  | Some spans \<Rightarrow> map_opt (\<lambda>(s, durationMs). toSpan parse s durationMs) spans))"

section \<open>First load\<close>

record initial_data =
  id_totals :: signal_totals
  id_renderWindowMax :: int
  id_metrics :: "metric_head list"

definition summary_metric :: "instant_parser \<Rightarrow> metric_head \<Rightarrow> metric option" where
  "summary_metric parse m = normalizeMetric parse (metric_head.extend m (metric_wire.fields []))"

record tab_state =
  tb_initialized :: bool
  tb_store :: store

definition initial_effect :: "instant_parser \<Rightarrow> initial_data option \<Rightarrow> tab_state \<Rightarrow> tab_state option" where
  "initial_effect parse data tb =
     (case data of
        None \<Rightarrow> Some tb
      | Some d \<Rightarrow>
          if tb_initialized tb then Some tb
          else
            map_option (\<lambda>ms.
              \<lparr>tb_initialized = True,
               tb_store =
                 setMetrics ms ((setTotalCounts (id_totals d) (tb_store tb))
                   \<lparr>st_renderWindowMax := id_renderWindowMax d\<rparr>)\<rparr>)
              (map_opt (summary_metric parse) (id_metrics d)))"

text \<open>A tab: renders that run the effect, between deliveries that change the store.\<close>

datatype tab_event = Run_effect "initial_data option" | Change_store "store \<Rightarrow> store"

fun tab_step :: "instant_parser \<Rightarrow> tab_event \<Rightarrow> tab_state \<Rightarrow> tab_state option" where
  "tab_step parse (Run_effect data) tb = initial_effect parse data tb"
| "tab_step parse (Change_store f) tb = Some (tb\<lparr>tb_store := f (tb_store tb)\<rparr>)"

fun tab_run :: "instant_parser \<Rightarrow> tab_event list \<Rightarrow> tab_state \<Rightarrow> tab_state option" where
  "tab_run parse [] tb = Some tb"
| "tab_run parse (e # es) tb = Option.bind (tab_step parse e tb) (tab_run parse es)"

section \<open>Metric search\<close>

record metric_search_view =
  ms_isSearching :: bool
  ms_isError :: bool

definition metric_search_state :: "string \<Rightarrow> bool \<Rightarrow> bool \<Rightarrow> metric_search_view" where
  "metric_search_state search isFetching isError =
     \<lparr>ms_isSearching = (search \<noteq> [] \<and> isFetching), ms_isError = (search \<noteq> [] \<and> isError)\<rparr>"

definition metric_search_effect ::
    "instant_parser \<Rightarrow> string \<Rightarrow> metric_head list option \<Rightarrow> store \<Rightarrow> store option" where
  "metric_search_effect parse search items st =
     (case items of
        None \<Rightarrow> Some st
      | Some ms \<Rightarrow>
          if search = [] then Some st
          else map_option (\<lambda>ms. st\<lparr>st_metricSearchResult := \<lparr>msr_search = search, msr_items = ms\<rparr>\<rparr>)
                 (map_opt (summary_metric parse) ms))"

section \<open>Trace pages\<close>

definition trace_page_ids :: "store \<Rightarrow> string set" where
  "trace_page_ids st = tr_traceId ` set (st_traces st)"

definition loads_beyond_window :: "string \<Rightarrow> bool" where
  "loads_beyond_window search \<longleftrightarrow> trim search = []"

section \<open>Lemmas\<close>

lemma toSpan_normal: "toSpan parse rest ms = Some s \<Longrightarrow> normalizeSpan parse (span_wire.truncate s) = Some s"
  by (auto simp: toSpan_def normalizeSpan_def span_wire.defs span.defs split: option.splits)

lemma map_opt_normal:
  "map_opt (\<lambda>(s, ms). toSpan parse s ms) xs = Some spans \<Longrightarrow>
     map_opt (normalizeSpan parse) (map span_wire.truncate spans) = Some spans"
  by (induction xs arbitrary: spans) (auto simp: toSpan_normal split: option.splits)

lemma fetched_wire_simps [simp]:
  "trw_spans (fetched_wire a spans) = map span_wire.truncate spans"
  "tr_startTime (fetched_wire a spans) = tr_startTime a"
  "trace_summary.truncate (fetched_wire a spans) =
     (trace_summary.truncate a)
       \<lparr>tr_duration := num_mul (tr_duration a) MS_TO_NS,
        tr_rootSpan := map_option fetched_root (tr_rootSpan a), tr_searchValues := None\<rparr>"
  by (simp_all add: fetched_wire_def trace_summary.defs trace_wire.defs)

lemma by_id_trace:
  assumes "by_id_toTraceData parse a = Some t"
  obtains spans n where "fetched_spans parse a = Some spans" "parse (tr_startTime a) = Some n"
    "t = trace_summary.extend ((trace_summary.truncate a)
       \<lparr>tr_duration := num_mul (tr_duration a) MS_TO_NS,
        tr_rootSpan := map_option fetched_root (tr_rootSpan a), tr_searchValues := None\<rparr>) (trace.fields spans n)"
proof -
  obtain spans where s: "fetched_spans parse a = Some spans" "normalizeTrace parse (fetched_wire a spans) = Some t"
    using assms by (auto simp: by_id_toTraceData_def bind_eq_Some_conv)
  then have "map_opt (normalizeSpan parse) (map span_wire.truncate spans) = Some spans"
    by (intro map_opt_normal) (simp add: fetched_spans_def)
  with s(2) obtain n where "parse (tr_startTime a) = Some n"
    "t = trace_summary.extend ((trace_summary.truncate a)
       \<lparr>tr_duration := num_mul (tr_duration a) MS_TO_NS,
        tr_rootSpan := map_option fetched_root (tr_rootSpan a), tr_searchValues := None\<rparr>) (trace.fields spans n)"
    by (auto simp: normalizeTrace_def split: option.splits)
  with s(1) that show ?thesis by blast
qed

lemma by_id_trace_id: "by_id_toTraceData parse a = Some t \<Longrightarrow> tr_traceId t = tr_traceId a"
  by (erule by_id_trace) (simp add: trace_summary.defs trace.defs)

lemma cacheTrace_absent:
  assumes "tr_traceId t \<notin> tr_traceId ` set (st_traces st)" and "1 \<le> cap_traceCap (st_bufferCaps st)"
  shows "set (st_traces (cacheTrace t st)) \<subseteq> insert t (set (st_traces st))"
proof -
  have "find_index (\<lambda>item. tr_traceId item = tr_traceId t) (st_traces st) = None"
    using assms(1) by (simp add: find_index_key_None)
  then show ?thesis
    by (auto simp: cacheTrace_def Let_def newestTraceStartFirst_def js_slice_def dest!: in_set_takeD in_set_dropD)
qed

lemma cached_alone:
  assumes "trace_store_ok st" and "1 \<le> cap_traceCap (st_bufferCaps st)"
    and "tr_traceId t \<notin> tr_traceId ` set (st_traces st)"
  shows "t \<in> set (st_traces (cacheTrace t st)) \<and>
    (\<forall>x \<in> set (st_traces (cacheTrace t st)). tr_traceId x = tr_traceId t \<longrightarrow> x = t)"
proof -
  have "lookup_by tr_traceId (st_traces (cacheTrace t st)) (tr_traceId t) \<noteq> None"
    using cacheTrace_kept [OF assms(1,2)] by blast
  then obtain x where x: "x \<in> set (st_traces (cacheTrace t st))" "tr_traceId x = tr_traceId t"
    by (auto dest: lookup_by_SomeD)
  have sub: "set (st_traces (cacheTrace t st)) \<subseteq> insert t (set (st_traces st))"
    using cacheTrace_absent [OF assms(3,2)] .
  then have only: "\<forall>x \<in> set (st_traces (cacheTrace t st)). tr_traceId x = tr_traceId t \<longrightarrow> x = t"
    using assms(3) by (metis image_eqI insertE subsetD)
  then have "x = t" using x by blast
  with x(1) only show ?thesis by blast
qed

lemma find_unique:
  assumes "x \<in> set xs" "P x" "\<And>y. y \<in> set xs \<Longrightarrow> P y \<Longrightarrow> y = x"
  shows "find P xs = Some x"
proof (cases "find P xs")
  case None
  then show ?thesis using assms(1,2) by (simp add: find_None_iff)
next
  case (Some y)
  then have "y \<in> set xs" "P y" by (auto simp: find_Some_iff)
  then show ?thesis using Some assms(3) by simp
qed

lemma deep_link_effect:
  assumes "trace_store_ok st" and "1 \<le> cap_traceCap (st_bufferCaps st)"
    and "page_trace_id (pg_location p) = Some (tr_traceId a)" and "selected_trace st p = None"
    and "by_id_toTraceData parse a = Some t" and "tq_data q = Some (Some a)" and "\<not> tq_isFetching q"
  shows "\<exists>st'. by_id_effect parse (selected_trace st p) q st = Some st' \<and>
    selected_trace st' p = Some t \<and> trace_store_ok st' \<and>
    by_id_status (page_trace_id (pg_location p)) (selected_trace st' p) q = Idle \<and>
    by_id_effect parse (selected_trace st' p) q st' = Some st'"
proof -
  let ?st' = "cacheTrace t st"
  have i: "tr_traceId t = tr_traceId a" using assms(5) by (rule by_id_trace_id)
  have "tr_traceId t \<notin> tr_traceId ` set (st_traces st)"
    using assms(3,4) i by (auto simp: selected_trace_def find_None_iff)
  from cached_alone [OF assms(1,2) this] have sel: "selected_trace ?st' p = Some t"
    using assms(3) i unfolding selected_trace_def by (intro find_unique) auto
  moreover have "by_id_effect parse (selected_trace st p) q st = Some ?st'"
    using assms(4-7) by (simp add: by_id_effect_def)
  moreover have "trace_store_ok ?st'" using cacheTrace_kept [OF assms(1,2)] by blast
  moreover have "by_id_effect parse (Some t) q ?st' = Some ?st'"
    using assms(6) by (simp add: by_id_effect_def)
  ultimately show ?thesis by (simp add: by_id_status_def)
qed

section \<open>Properties\<close>

text \<open>C10: A shared address of a trace that no list page holds resolves: once the query for it has its
  answer, the effect puts that trace into the buffer, even when the buffer is full of newer rows, the
  page then shows it, and the effect does not run again; the buffer stays sorted, free of duplicates
  and within its cap.\<close>

theorem deep_link_resolves:
  assumes "trace_store_ok st" and "1 \<le> cap_traceCap (st_bufferCaps st)"
    and "page_trace_id (pg_location p) = Some (tr_traceId a)" and "selected_trace st p = None"
    and "by_id_toTraceData parse a = Some t" and "tq_data q = Some (Some a)" and "\<not> tq_isFetching q"
  shows "\<exists>st'. by_id_effect parse (selected_trace st p) q st = Some st' \<and>
    selected_trace st' p = Some t \<and> trace_store_ok st' \<and>
    by_id_status (page_trace_id (pg_location p)) (selected_trace st' p) q = Idle \<and>
    by_id_effect parse (selected_trace st' p) q st' = Some st'"
  using assms by (rule deep_link_effect)

definition answer_of :: "string \<Rightarrow> trace_answer" where
  "answer_of i =
     \<lparr>tr_linkCount = 0, tr_traceId = i, tr_rootSpan = None, tr_serviceName = ''svc'',
      tr_searchValues = None, tr_spanCount = 1, tr_startTime = ''7'', tr_duration = 2, ta_spans = []\<rparr>"

theorem deep_link_resolves_witness:
  "\<exists>st'. by_id_effect (\<lambda>_. Some 1) None
       \<lparr>tq_data = Some (Some (answer_of ''old'')), tq_isError = False, tq_isFetching = False\<rparr>
       (trace_store_with 1 [mk_trace ''a'' 5 1 1]) = Some st' \<and>
     selected_trace st' \<lparr>pg_location = At_trace ''old'', pg_search = empty_search\<rparr> \<noteq> None"
proof -
  let ?st = "trace_store_with 1 [mk_trace ''a'' 5 1 1]"
  let ?p = "\<lparr>pg_location = At_trace ''old'', pg_search = empty_search\<rparr>"
  have ok: "trace_store_ok ?st" "1 \<le> cap_traceCap (st_bufferCaps ?st)" by (simp_all add: trace_witness_defs)
  let ?q = "\<lparr>tq_data = Some (Some (answer_of ''old'')), tq_isError = False, tq_isFetching = False\<rparr>"
  have sel: "selected_trace ?st ?p = None" by (simp add: selected_trace_def trace_witness_defs)
  have pid: "page_trace_id (pg_location ?p) = Some (tr_traceId (answer_of ''old''))"
    by (simp add: answer_of_def)
  obtain t where t: "by_id_toTraceData (\<lambda>_. Some 1) (answer_of ''old'') = Some t"
    by (simp add: by_id_toTraceData_def fetched_spans_def answer_of_def normalizeTrace_def)
  obtain st' where "by_id_effect (\<lambda>_. Some 1) (selected_trace ?st ?p) ?q ?st = Some st'" "selected_trace st' ?p = Some t"
    using deep_link_resolves [OF ok pid sel t, of ?q] by auto
  then show ?thesis unfolding sel by auto
qed

text \<open>A trace fetched by its id has the spans as they were mapped, although they are normalised a second
  time, and is the trace a list page gives but for the spans: summary, converted durations and start
  agree, so that merging one over the other changes none of them.\<close>

theorem fetched_traces_agree:
  assumes "by_id_toTraceData parse a = Some t"
  shows "fetched_spans parse a = Some (tr_spans t) \<and> page_toTraceData parse a = Some (t\<lparr>tr_spans := []\<rparr>) \<and>
    tr_duration t = num_mul (tr_duration a) MS_TO_NS"
proof -
  obtain spans n where f: "fetched_spans parse a = Some spans" "parse (tr_startTime a) = Some n"
    "t = trace_summary.extend ((trace_summary.truncate a)
       \<lparr>tr_duration := num_mul (tr_duration a) MS_TO_NS,
        tr_rootSpan := map_option fetched_root (tr_rootSpan a), tr_searchValues := None\<rparr>) (trace.fields spans n)"
    using by_id_trace [OF assms] .
  then show ?thesis
    by (simp add: page_toTraceData_def normalizeTrace_def) (simp add: trace_summary.defs trace.defs)
qed

theorem fetched_traces_agree_witness:
  "\<exists>t. by_id_toTraceData (\<lambda>_. Some 1) (answer_of ''x'') = Some t \<and> tr_duration t = num_mul 2 MS_TO_NS"
proof -
  obtain t where "by_id_toTraceData (\<lambda>_. Some 1) (answer_of ''x'') = Some t"
    by (simp add: by_id_toTraceData_def fetched_spans_def answer_of_def normalizeTrace_def)
  moreover from fetched_traces_agree [OF this] have "tr_duration t = num_mul 2 MS_TO_NS" by (simp add: answer_of_def)
  ultimately show ?thesis by blast
qed

text \<open>The first load happens once: after it, whatever the cached answer of the query is when the
  component mounts again, the store holds exactly what the deliveries made of it.\<close>

fun store_changes :: "tab_event list \<Rightarrow> store \<Rightarrow> store" where
  "store_changes [] st = st"
| "store_changes (Run_effect _ # es) st = store_changes es st"
| "store_changes (Change_store f # es) st = store_changes es (f st)"

theorem initial_load_once:
  assumes "tb_initialized tb"
  shows "tab_run parse es tb = Some (tb\<lparr>tb_store := store_changes es (tb_store tb)\<rparr>)"
  using assms
proof (induction es arbitrary: tb)
  case (Cons e es)
  then show ?case by (cases e) (simp_all add: initial_effect_def split: option.split)
qed simp

theorem initial_load_once_witness:
  "tab_run (\<lambda>_. None) [Change_store (setMetrics []), Run_effect None] \<lparr>tb_initialized = True, tb_store = initial_store\<rparr> =
     Some \<lparr>tb_initialized = True, tb_store = setMetrics [] initial_store\<rparr>"
  using initial_load_once [of "\<lparr>tb_initialized = True, tb_store = initial_store\<rparr>"] by simp

text \<open>What is delivered before the first load is counted on top of the totals the server answers, which
  may count it too, and the points it brought are gone from the buffer.\<close>

theorem early_deliveries_kept_in_count:
  assumes "initial_effect parse (Some d) \<lparr>tb_initialized = False, tb_store = st\<rparr> = Some tb"
  shows "metricCount (tb_store tb) = tot_metricCount (id_totals d) + st_newMetricCount st \<and>
    traceCount (tb_store tb) = max 0 (tot_traceCount (id_totals d) + st_newTraceCount st) \<and>
    logCount (tb_store tb) = tot_logCount (id_totals d) + st_newLogCount st \<and>
    length (st_metrics (tb_store tb)) = length (id_metrics d) \<and>
    list_all (\<lambda>m. mt_dataPoints m = []) (st_metrics (tb_store tb))"
proof -
  obtain ms where ms: "map_opt (summary_metric parse) (id_metrics d) = Some ms"
      "tb = \<lparr>tb_initialized = True, tb_store =
         setMetrics ms ((setTotalCounts (id_totals d) st)\<lparr>st_renderWindowMax := id_renderWindowMax d\<rparr>)\<rparr>"
    using assms by (auto simp: initial_effect_def)
  have "length ms = length xs \<and> list_all (\<lambda>m. mt_dataPoints m = []) ms"
    if "map_opt (summary_metric parse) xs = Some ms" for xs ms
    using that
    by (induction xs arbitrary: ms)
      (auto simp: summary_metric_def normalizeMetric_def metric_head.defs metric_wire.defs metric.defs split: option.splits)
  with ms(1) show ?thesis
    by (simp add: ms(2) setMetrics_def setTotalCounts_def metricCount_def traceCount_def logCount_def)
qed

theorem early_deliveries_kept_in_count_witness:
  "let m = mk_metric ''m'' [mk_point ''p'' 5 1];
       d = \<lparr>id_totals = \<lparr>tot_traceCount = 0, tot_metricCount = 1, tot_logCount = 0\<rparr>, id_renderWindowMax = 500,
            id_metrics = [metric_head.truncate m]\<rparr>
   in \<exists>tb. initial_effect (\<lambda>_. None) (Some d) \<lparr>tb_initialized = False, tb_store = addMetrics [m] initial_store\<rparr> = Some tb \<and>
      metricCount (tb_store tb) = 2 \<and> length (st_metrics (tb_store tb)) = 1"
proof -
  let ?m = "mk_metric ''m'' [mk_point ''p'' 5 1]"
  let ?d = "\<lparr>id_totals = \<lparr>tot_traceCount = 0, tot_metricCount = 1, tot_logCount = 0\<rparr>, id_renderWindowMax = 500,
            id_metrics = [metric_head.truncate ?m]\<rparr>"
  let ?tb = "\<lparr>tb_initialized = False, tb_store = addMetrics [?m] initial_store\<rparr>"
  have "initial_effect (\<lambda>_. None) (Some ?d) ?tb \<noteq> None"
    by (simp add: initial_effect_def summary_metric_def normalizeMetric_def metric_head.defs metric_wire.defs)
  then obtain tb where tb: "initial_effect (\<lambda>_. None) (Some ?d) ?tb = Some tb" by blast
  moreover have "st_newMetricCount (addMetrics [?m] initial_store) = 1" by code_simp
  ultimately have "metricCount (tb_store tb) = 2 \<and> length (st_metrics (tb_store tb)) = 1"
    using early_deliveries_kept_in_count [OF tb] by simp
  with tb show ?thesis unfolding Let_def by blast
qed

end
