(* ===== verification/DetailActions.thy ===== *)
theory DetailActions
  imports FilterBar Formatting
begin

text \<open>
  The filter buttons of the detail views: the fields of a log (\<^verbatim>\<open>components/logs/log-detail.tsx\<close>),
  of a span (\<^verbatim>\<open>components/traces/trace-detail.tsx\<close>) and of a data point
  (\<^verbatim>\<open>components/metrics/data-point-detail.tsx\<close>), with the key-value sections of
  \<^verbatim>\<open>components/common/kv-section.tsx\<close> and \<^verbatim>\<open>components/common/kv.tsx\<close>. A button is the
  key and the value it hands to \<open>filterBy\<close>; \<open>None\<close> is \<open>undefined\<close>.
\<close>

section \<open>Key-value sections\<close>

type_synonym filter_button = "string \<times> json option"

text \<open>One row: its key, the text shown for the value, and the label of its button.\<close>

record kv_row =
  kv_key :: string
  kv_text :: string
  kv_label :: string

definition kv_verb :: "json \<Rightarrow> string" where
  "kv_verb v =
     (case v of
        JNull \<Rightarrow> ''where absent''
      | JArr _ \<Rightarrow> ''where present''
      | JObj _ \<Rightarrow> ''where present''
      | _ \<Rightarrow> ''by'')"

definition kv_row :: "(number \<Rightarrow> string) \<Rightarrow> string \<Rightarrow> string \<times> json \<Rightarrow> kv_row" where
  "kv_row num_text title entry =
     (case entry of (k, v) \<Rightarrow>
        \<lparr>kv_key = k,
         kv_text = (case v of JStr s \<Rightarrow> s | _ \<Rightarrow> json_text num_text v),
         kv_label = ''Filter '' @ kv_verb v @ '' '' @ toLowerCase title @ ''.'' @ k\<rparr>)"

text \<open>A section without entries is not rendered.\<close>

definition KVSection :: "(number \<Rightarrow> string) \<Rightarrow> string \<Rightarrow> attrs \<Rightarrow> kv_row list option" where
  "KVSection num_text title data = (if data = [] then None else Some (map (kv_row num_text title) data))"

definition kv_collapsible :: "string \<Rightarrow> bool" where
  "kv_collapsible v \<longleftrightarrow> length v > 100"

definition kv_clamped :: "string \<Rightarrow> bool \<Rightarrow> bool" where
  "kv_clamped v expanded \<longleftrightarrow> kv_collapsible v \<and> \<not> expanded"

definition kv_toggle :: "bool \<Rightarrow> bool" where
  "kv_toggle expanded = (\<not> expanded)"

definition section_buttons :: "string \<Rightarrow> attrs \<Rightarrow> filter_button list" where
  "section_buttons prefix data = map (\<lambda>(k, v). (prefix @ ''.'' @ k, Some v)) data"

section \<open>Logs\<close>

definition log_fields_shown :: "log \<Rightarrow> filter_button list" where
  "log_fields_shown l =
     [(''severity_number'', Some (JNum (lg_severityNumber l))),
      (''service_name'', Some (JStr (lg_serviceName l)))] @
     (if isZeroId (lg_traceId l) then [] else [(''trace_id'', Some (JStr (lg_traceId l)))]) @
     (if isZeroId (lg_spanId l) then [] else [(''span_id'', Some (JStr (lg_spanId l)))])"

definition log_body_shown :: "log \<Rightarrow> filter_button list" where
  "log_body_shown l = (if length (trim (lg_body l)) > 0 then [(''body'', Some (JStr (lg_body l)))] else [])"

definition log_detail :: "log \<Rightarrow> filter_button list" where
  "log_detail l =
     log_fields_shown l @ log_body_shown l @ section_buttons ''attributes'' (lg_attributes l) @
     section_buttons ''resource'' (lg_resource l)"

section \<open>Spans\<close>

definition span_overview :: "span \<Rightarrow> filter_button list" where
  "span_overview s =
     [(''service_name'', Some (JStr (sp_serviceName s))),
      (''trace_id'', Some (JStr (sp_traceId s))),
      (''span_id'', Some (JStr (sp_spanId s))),
      (''parent_span_id'', if sp_parentSpanId s = [] then None else Some (JStr (sp_parentSpanId s))),
      (''kind'', Some (JStr (sp_kind s))),
      (''status_code'', Some (JStr (status_text (sp_statusCode s)))),
      (''duration_ms'', Some (JNum (num_div (sp_duration s) 1000000)))]"

definition span_status_shown :: "span \<Rightarrow> filter_button list" where
  "span_status_shown s =
     (if sp_statusMessage s = [] then [] else [(''status_message'', Some (JStr (sp_statusMessage s)))])"

definition span_detail :: "span \<Rightarrow> filter_button list" where
  "span_detail s =
     [(''name'', Some (JStr (sp_name s)))] @ span_status_shown s @ span_overview s @
     section_buttons ''attributes'' (sp_attributes s) @ section_buttons ''resource'' (sp_resource s)"

section \<open>Data points\<close>

definition point_detail :: "attrs \<Rightarrow> attrs \<Rightarrow> filter_button list" where
  "point_detail attributes resource = section_buttons ''attributes'' attributes @ section_buttons ''resource'' resource"

section \<open>Lemmas\<close>

text \<open>What the button of a section says is what its filter asks for.\<close>

lemma kv_verb_operator:
  "kv_verb v =
     (case df_operator (valueToFilterDraft num_text key (Some v)) of
        NotExists \<Rightarrow> ''where absent'' | Exists \<Rightarrow> ''where present'' | _ \<Rightarrow> ''by'')"
  by (cases v) (simp_all add: kv_verb_def valueToFilterDraft_def)

text \<open>A button the grammar can carry: a field name, or a dotted key free of white space, quotes and colons.\<close>

definition button_ok :: "string list \<Rightarrow> string \<Rightarrow> bool" where
  "button_ok flds key \<longleftrightarrow> key \<in> set flds \<or> attribute_key_ok key"

lemma attribute_key_no_space: "attribute_key_ok key \<Longrightarrow> list_all (\<lambda>c. \<not> js_whitespace c) key"
proof (erule attribute_key_parts)
  fix k
  assume k: "key_rest_ok k" "key = (if startsWith key ''resource.'' then ''resource'' else ''attributes'') @ ''.'' @ k"
  have "list_all (\<lambda>c. \<not> js_whitespace c) (''resource'' @ ''.'')" "list_all (\<lambda>c. \<not> js_whitespace c) (''attributes'' @ ''.'')"
    by code_simp+
  moreover have "list_all (\<lambda>c. \<not> js_whitespace c) k" using k(1) by (auto simp: key_rest_ok_def list_all_iff)
  ultimately show ?thesis by (subst k(2)) simp
qed

lemma button_trim: "plain_fields flds \<Longrightarrow> button_ok flds key \<Longrightarrow> trim key = key"
  by (auto simp: button_ok_def plain_fields_def attribute_key_no_space intro: trim_no_space)

lemma clicked_term_ok:
  assumes "plain_fields flds" and "button_ok flds key"
  shows "term_ok flds (draftTerm (valueToFilterDraft num_text key val) flds)"
proof (rule accepted_term_ok [OF assms(1)])
  have "trim key \<in> set flds \<or> attribute_key_ok (trim key)"
    using assms button_trim by (simp add: button_ok_def)
  then show "filterDraftError (valueToFilterDraft num_text key val) flds [] = None"
    by (auto simp: filterDraftError_def valueToFilterDraft_def Let_def is_numeric_def
        split: option.splits json.splits)
qed

text \<open>The terms an address has switched on.\<close>

abbreviation on_terms :: "signal \<Rightarrow> signal_search \<Rightarrow> search_term set" where
  "on_terms sig search \<equiv> {t. (t, True) \<in> set (filter_pairs (held sig search))}"

abbreviation flds_of :: "signal \<Rightarrow> string list" where
  "flds_of sig \<equiv> fields_or_default (queryFields sig)"

lemma serialize_inj:
  assumes "field_names_ok flds" "term_ok flds t" "term_ok flds u" "serializeLogTerm t = serializeLogTerm u"
  shows "t = u"
  using parse_serialized [OF assms(1), of "[t]"] parse_serialized [OF assms(1), of "[u]"] assms(2-4) by simp

lemma readable_pairs: "list_all (readable flds) fs \<longleftrightarrow> (\<forall>(t, e) \<in> set (filter_pairs fs). term_ok flds t)"
  by (auto simp: list_all_iff readable_def)

lemma enable_one:
  assumes "distinct (map lf_id fs)" and "e \<in> set fs"
  shows "{t. (t, True) \<in> set (filter_pairs (map (\<lambda>f. if lf_id f = lf_id e then f\<lparr>lf_enabled := True\<rparr> else f) fs))} =
    insert (filter_term e) {t. (t, True) \<in> set (filter_pairs fs)}"
proof -
  let ?h = "\<lambda>f. if lf_id f = lf_id e then f\<lparr>lf_enabled := True\<rparr> else f"
  have only: "f = e" if "f \<in> set fs" "lf_id f = lf_id e" for f
    using assms that by (auto simp: distinct_map dest: inj_onD)
  have "(t, True) \<in> the_pair ` ?h ` set fs \<longleftrightarrow> t = filter_term e \<or> (t, True) \<in> the_pair ` set fs" for t
  proof
    assume "(t, True) \<in> the_pair ` ?h ` set fs"
    then obtain f where "f \<in> set fs" "(t, True) = the_pair (?h f)" by blast
    then show "t = filter_term e \<or> (t, True) \<in> the_pair ` set fs" using only by (cases "lf_id f = lf_id e") auto
  next
    have e: "the_pair (?h e) = (filter_term e, True)" by simp
    assume "t = filter_term e \<or> (t, True) \<in> the_pair ` set fs"
    then consider "t = filter_term e" | f where "f \<in> set fs" "(t, True) = the_pair f" by blast
    then show "(t, True) \<in> the_pair ` ?h ` set fs"
    proof cases
      case 1
      with e have "(t, True) = the_pair (?h e)" by simp
      with assms(2) show ?thesis by blast
    next
      case 2
      then have "(t, True) = the_pair (?h f)" by simp
      with 2(1) show ?thesis by blast
    qed
  qed
  then show ?thesis unfolding set_map by blast
qed

lemma held_addFilter:
  assumes "readable_all sig search" and "term_ok (flds_of sig) t"
  shows "readable_all sig (addFilter sig uuid t search)"
    and "on_terms sig (addFilter sig uuid t search) = insert t (on_terms sig search)"
    and "held_text sig (addFilter sig uuid t search) = held_text sig search"
proof -
  let ?fs = "held sig search" and ?q = "readFilterQuery search (flds_of sig)"
  let ?upd = "\<lambda>p. addQueryFilter uuid p t"
  have new: "list_all (readable (flds_of sig)) (qs_filters (?upd ?q)) \<and>
      {u. (u, True) \<in> set (filter_pairs (qs_filters (?upd ?q)))} = insert t (on_terms sig search)"
  proof (cases "find (\<lambda>f. serializeLogTerm (filter_term f) = serializeLogTerm t) ?fs")
    case None
    then show ?thesis using assms
      by (auto simp: addQueryFilter_def newLogFilter_def readable_def)
  next
    case (Some e)
    then have e: "e \<in> set ?fs" "serializeLogTerm (filter_term e) = serializeLogTerm t"
      by (auto simp: find_Some_iff)
    with assms have "filter_term e = t"
      by (intro serialize_inj [OF fields_ok]) (auto simp: list_all_iff readable_def)
    with enable_one [OF read_distinct e(1)] have "{u. (u, True) \<in> set (filter_pairs (qs_filters (?upd ?q)))} =
        insert t (on_terms sig search)" using Some by (simp add: addQueryFilter_def del: set_map)
    moreover have "list_all (readable (flds_of sig)) (qs_filters (?upd ?q))"
      using Some assms(1) by (auto simp: addQueryFilter_def list_all_iff readable_def)
    ultimately show ?thesis by blast
  qed
  have "qs_text (?upd p) = qs_text p" for p by (simp add: addQueryFilter_def Let_def split: option.split)
  from held_setState [of ?upd sig search, OF this, OF new [THEN conjunct1], folded addFilter_def]
  have m: "mset (filter_pairs (held sig (addFilter sig uuid t search))) = mset (filter_pairs (qs_filters (?upd ?q)))"
    and same: "held_text sig (addFilter sig uuid t search) = held_text sig search" by blast+
  from mset_eq_setD [OF m] new show "readable_all sig (addFilter sig uuid t search)"
    and "on_terms sig (addFilter sig uuid t search) = insert t (on_terms sig search)"
    unfolding readable_pairs by simp_all
  show "held_text sig (addFilter sig uuid t search) = held_text sig search" by (rule same)
qed

text \<open>What the list searches for, with an address.\<close>

abbreviation search_of :: "signal \<Rightarrow> signal_search \<Rightarrow> string" where
  "search_of sig search \<equiv> signal_query_search (readFilterQuery search (flds_of sig))"

lemma parsed_search_of:
  assumes "readable_all sig search" and "list_all free_word ws" and "held_text sig search = join '' '' ws"
  shows "ps_plain (parseLogSearch (search_of sig search) (flds_of sig)) = held_text sig search"
    and "set (ps_terms (parseLogSearch (search_of sig search) (flds_of sig))) = on_terms sig search"
  using parsed_state [OF fields_ok assms] by (auto simp: image_iff)

text \<open>The term of a button, and the value it looks at.\<close>

abbreviation button_term :: "(number \<Rightarrow> string) \<Rightarrow> string list \<Rightarrow> filter_button \<Rightarrow> search_term" where
  "button_term num_text flds b \<equiv> draftTerm (valueToFilterDraft num_text (fst b) (snd b)) flds"

lemma button_field:
  assumes "plain_fields flds" and "f \<in> set flds"
  shows "te_field (button_term num_text flds (f, val)) = Some f"
proof -
  have "trim f = f" using assms by (auto simp: plain_fields_def intro: trim_no_space)
  with assms(2) show ?thesis by (simp add: draftTerm_def Let_def valueToFilterDraft_def)
qed

lemma section_key:
  assumes "plain_fields flds" and "button_ok flds (prefix @ ''.'' @ k)"
    and "prefix = ''attributes'' \<or> prefix = ''resource''"
  shows "te_field (button_term num_text flds (prefix @ ''.'' @ k, val)) = None"
    and "te_key (button_term num_text flds (prefix @ ''.'' @ k, val)) = k"
    and "te_resource (button_term num_text flds (prefix @ ''.'' @ k, val)) \<longleftrightarrow> prefix = ''resource''"
proof -
  have "trim (prefix @ ''.'' @ k) = prefix @ ''.'' @ k" using button_trim [OF assms(1,2)] .
  moreover have "prefix @ ''.'' @ k \<notin> set flds" using assms(1) by (auto simp: plain_fields_def)
  moreover have "after_dot (prefix @ ''.'' @ k) = k" "startsWith (prefix @ ''.'' @ k) ''resource.'' \<longleftrightarrow> prefix = ''resource''"
    using assms(3) by (auto simp: after_dot_def index_of_def)
  ultimately show "te_field (button_term num_text flds (prefix @ ''.'' @ k, val)) = None"
    and "te_key (button_term num_text flds (prefix @ ''.'' @ k, val)) = k"
    and "te_resource (button_term num_text flds (prefix @ ''.'' @ k, val)) \<longleftrightarrow> prefix = ''resource''"
    by (simp_all add: draftTerm_def Let_def valueToFilterDraft_def)
qed

lemma section_buttonE:
  assumes "b \<in> set (section_buttons prefix data)"
  obtains k v where "b = (prefix @ ''.'' @ k, Some v)" "(k, v) \<in> set data"
  using assms by (auto simp: section_buttons_def)

lemma log_fields_plain: "plain_fields (flds_of Logs)"
  by (rule signal_fields_plain)

lemma log_section_value:
  assumes "button_ok (flds_of Logs) (prefix @ ''.'' @ k)" and "prefix = ''attributes'' \<or> prefix = ''resource''"
  shows "logTermValue l (button_term num_text (flds_of Logs) (prefix @ ''.'' @ k, val)) =
    map_of (if prefix = ''resource'' then lg_resource l else lg_attributes l) k"
  unfolding logTermValue_def section_key [OF log_fields_plain assms] by simp

lemma log_field_button:
  assumes "b \<in> set (log_fields_shown l @ log_body_shown l)"
    and "\<forall>i \<in> {lg_traceId l, lg_spanId l}. zero_id i \<longrightarrow> isZeroId i"
  shows "fst b \<in> set (flds_of Logs) \<and> log_field_value l (fst b) = snd b \<and>
    (fst b = ''trace_id'' \<longrightarrow> \<not> zero_id (lg_traceId l)) \<and> (fst b = ''span_id'' \<longrightarrow> \<not> zero_id (lg_spanId l)) \<and>
    (fst b = ''severity_number'' \<longrightarrow> (\<exists>n. snd b = Some (JNum n)))"
  using assms
  by (auto simp: log_fields_shown_def log_body_shown_def log_field_value_def fields_or_default_def logFields_def
      split: if_splits)

lemma log_button_value:
  assumes "b \<in> set (log_detail l)" and "button_ok (flds_of Logs) (fst b)"
    and "distinct (map fst (lg_attributes l))" and "distinct (map fst (lg_resource l))"
    and "\<forall>i \<in> {lg_traceId l, lg_spanId l}. zero_id i \<longrightarrow> isZeroId i"
  shows "logTermValue l (button_term num_text (flds_of Logs) b) = snd b \<and>
    (te_field (button_term num_text (flds_of Logs) b) = Some ''severity_number'' \<longrightarrow> (\<exists>n. snd b = Some (JNum n)))"
proof -
  consider "b \<in> set (log_fields_shown l @ log_body_shown l)"
    | "b \<in> set (section_buttons ''attributes'' (lg_attributes l))"
    | "b \<in> set (section_buttons ''resource'' (lg_resource l))"
    using assms(1) by (auto simp: log_detail_def)
  then show ?thesis
  proof cases
    case 1
    note f = log_field_button [OF this assms(5)]
    then have "te_field (button_term num_text (flds_of Logs) b) = Some (fst b)"
      using button_field [OF log_fields_plain, of "fst b" num_text "snd b"] by simp
    moreover have "isLogField (fst b)" using f by (simp add: isLogField_def fields_or_default_def)
    ultimately show ?thesis using f by (auto simp: logTermValue_def)
  next
    case 2
    then obtain k v where kv: "b = (''attributes'' @ ''.'' @ k, Some v)" "(k, v) \<in> set (lg_attributes l)"
      by (rule section_buttonE)
    then have "button_ok (flds_of Logs) (''attributes'' @ ''.'' @ k)" using assms(2) by simp
    with kv assms(3) show ?thesis
      using log_section_value [of "''attributes''" k l num_text "Some v"] section_key(1) [OF log_fields_plain, of "''attributes''" k num_text "Some v"]
      by simp
  next
    case 3
    then obtain k v where kv: "b = (''resource'' @ ''.'' @ k, Some v)" "(k, v) \<in> set (lg_resource l)"
      by (rule section_buttonE)
    then have "button_ok (flds_of Logs) (''resource'' @ ''.'' @ k)" using assms(2) by simp
    with kv assms(4) show ?thesis
      using log_section_value [of "''resource''" k l num_text "Some v"] section_key(1) [OF log_fields_plain, of "''resource''" k num_text "Some v"]
      by simp
  qed
qed

text \<open>What a matcher reads from the address.\<close>

definition log_matches_address :: "(number \<Rightarrow> string) \<Rightarrow> signal_search \<Rightarrow> log \<Rightarrow> bool" where
  "log_matches_address num_text search l \<longleftrightarrow> createLogSearchMatcher num_text (search_of Logs search) l"

definition plain_address :: "signal \<Rightarrow> signal_search \<Rightarrow> bool" where
  "plain_address sig search \<longleftrightarrow>
     readable_all sig search \<and> (\<exists>ws. list_all free_word ws \<and> held_text sig search = join '' '' ws)"

lemma logFields_flds: "map fst logFields = flds_of Logs"
  by (simp add: fields_or_default_def)

lemma log_matcher_address:
  assumes "plain_address Logs search"
  shows "createLogSearchMatcher num_text (search_of Logs search) l \<longleftrightarrow>
    (let q = toLowerCase (held_text Logs search) in
      q = [] \<or> list_ex (\<lambda>v. has_text v q) [lg_body l, lg_serviceName l, lg_severityText l, lg_traceId l] \<or>
      has_text (json_text num_text (JObj (lg_attributes l))) q \<or> has_text (json_text num_text (JObj (lg_resource l))) q) \<and>
    (\<forall>t \<in> on_terms Logs search.
       createTermMatcher num_text t (te_field t = Some ''severity_number'') (logTermValue l t))"
proof -
  obtain ws where ws: "readable_all Logs search" "list_all free_word ws" "held_text Logs search = join '' '' ws"
    using assms by (auto simp: plain_address_def)
  show ?thesis
    unfolding createLogSearchMatcher_def logFields_flds Let_def parsed_search_of(1) [OF ws] list_all_iff
      parsed_search_of(2) [OF ws] ..
qed

lemma plain_address_add:
  assumes "plain_address sig search" and "term_ok (flds_of sig) t"
  shows "plain_address sig (addFilter sig uuid t search)"
proof -
  obtain ws where ws: "readable_all sig search" "list_all free_word ws" "held_text sig search = join '' '' ws"
    using assms(1) by (auto simp: plain_address_def)
  note add = held_addFilter [OF ws(1) assms(2), of uuid]
  from add(1) add(3) ws(2,3) show ?thesis unfolding plain_address_def by metis
qed

lemma filterBy_address:
  "filterBy num_text sig uuid (fst b) (snd b) search = addFilter sig uuid (button_term num_text (flds_of sig) b) search"
  by (cases sig) (simp_all add: filterBy_def action_fields_def)

text \<open>The same for a span.\<close>

lemma trace_fields_plain: "plain_fields (flds_of Traces)"
  by (rule signal_fields_plain)

lemma span_section_value:
  assumes "button_ok (flds_of Traces) (prefix @ ''.'' @ k)" and "prefix = ''attributes'' \<or> prefix = ''resource''"
  shows "traceTermValue (full_span s) (button_term num_text (flds_of Traces) (prefix @ ''.'' @ k, val)) =
    map_of (if prefix = ''resource'' then sp_resource s else sp_attributes s) k"
  unfolding traceTermValue_def section_key [OF trace_fields_plain assms] by (simp add: full_span_def)

definition span_value :: "span \<Rightarrow> string \<Rightarrow> json option" where
  "span_value s field =
     (if field = ''duration_ms'' then Some (JNum (num_div (sp_duration s) 1000000))
      else let val = spanFields (full_span s) field
           in if endsWith field ''_id'' \<and> (case val of None \<Rightarrow> True | Some v \<Rightarrow> zero_id v) then None
              else map_option JStr val)"

lemma traceTermValue_field: "te_field t = Some f \<Longrightarrow> traceTermValue (full_span s) t = span_value s f"
  by (simp add: traceTermValue_def span_value_def) (simp add: full_span_def)

lemma span_field_button:
  assumes "b \<in> set ((''name'', Some (JStr (sp_name s))) # span_status_shown s @ span_overview s)"
    and "\<not> zero_id (sp_traceId s)" "\<not> zero_id (sp_spanId s)" "sp_parentSpanId s = [] \<or> \<not> zero_id (sp_parentSpanId s)"
  shows "fst b \<in> set (flds_of Traces) \<and> span_value s (fst b) = snd b \<and>
    (fst b = ''duration_ms'' \<longrightarrow> (\<exists>n. snd b = Some (JNum n)))"
  using assms
  by (auto simp: span_status_shown_def span_overview_def span_value_def spanFields_def full_span_def Let_def
      fields_or_default_def traceFields_def endsWith_def zero_id_def split: if_splits)

lemma span_button_value:
  assumes "b \<in> set (span_detail s)" and "button_ok (flds_of Traces) (fst b)"
    and "distinct (map fst (sp_attributes s))" and "distinct (map fst (sp_resource s))"
    and "\<not> zero_id (sp_traceId s)" "\<not> zero_id (sp_spanId s)" "sp_parentSpanId s = [] \<or> \<not> zero_id (sp_parentSpanId s)"
  shows "traceTermValue (full_span s) (button_term num_text (flds_of Traces) b) = snd b \<and>
    (te_field (button_term num_text (flds_of Traces) b) = Some ''duration_ms'' \<longrightarrow> (\<exists>n. snd b = Some (JNum n)))"
proof -
  consider "b \<in> set ((''name'', Some (JStr (sp_name s))) # span_status_shown s @ span_overview s)"
    | "b \<in> set (section_buttons ''attributes'' (sp_attributes s))"
    | "b \<in> set (section_buttons ''resource'' (sp_resource s))"
    using assms(1) by (auto simp: span_detail_def)
  then show ?thesis
  proof cases
    case 1
    note f = span_field_button [OF this assms(5-7)]
    then have "te_field (button_term num_text (flds_of Traces) b) = Some (fst b)"
      using button_field [OF trace_fields_plain, of "fst b" num_text "snd b"] by simp
    with f show ?thesis by (auto simp: traceTermValue_field)
  next
    case 2
    then obtain k v where kv: "b = (''attributes'' @ ''.'' @ k, Some v)" "(k, v) \<in> set (sp_attributes s)"
      by (rule section_buttonE)
    then have "button_ok (flds_of Traces) (''attributes'' @ ''.'' @ k)" using assms(2) by simp
    with kv assms(3) show ?thesis
      using span_section_value [of "''attributes''" k s num_text "Some v"] section_key(1) [OF trace_fields_plain, of "''attributes''" k num_text "Some v"]
      by simp
  next
    case 3
    then obtain k v where kv: "b = (''resource'' @ ''.'' @ k, Some v)" "(k, v) \<in> set (sp_resource s)"
      by (rule section_buttonE)
    then have "button_ok (flds_of Traces) (''resource'' @ ''.'' @ k)" using assms(2) by simp
    with kv assms(4) show ?thesis
      using span_section_value [of "''resource''" k s num_text "Some v"] section_key(1) [OF trace_fields_plain, of "''resource''" k num_text "Some v"]
      by simp
  qed
qed

text \<open>A span that satisfies a search on its own.\<close>

definition span_matches_address :: "(number \<Rightarrow> string) \<Rightarrow> signal_search \<Rightarrow> span \<Rightarrow> bool" where
  "span_matches_address num_text search s \<longleftrightarrow>
     (let parsed = parseTraceSearch (search_of Traces search); q = toLowerCase (ps_plain parsed)
      in (q = [] \<or> list_ex (opt_has_text q) (span_values num_text (full_span s))) \<and>
         span_matches_terms num_text (ps_terms parsed) (full_span s))"

lemma span_address:
  assumes "plain_address Traces search"
  shows "span_matches_address num_text search s \<longleftrightarrow>
    (let q = toLowerCase (held_text Traces search) in q = [] \<or> list_ex (opt_has_text q) (span_values num_text (full_span s))) \<and>
    (\<forall>t \<in> on_terms Traces search.
       createTermMatcher num_text t (te_field t = Some ''duration_ms'') (traceTermValue (full_span s) t))"
proof -
  obtain ws where ws: "readable_all Traces search" "list_all free_word ws" "held_text Traces search = join '' '' ws"
    using assms by (auto simp: plain_address_def)
  have f: "traceFields = flds_of Traces" by (simp add: fields_or_default_def)
  show ?thesis
    unfolding span_matches_address_def parseTraceSearch_def f Let_def parsed_search_of(1) [OF ws]
      span_matches_terms_def list_all_iff parsed_search_of(2) [OF ws] ..
qed

lemma span_keeps_trace:
  assumes "span_matches_address num_text search s" and "s \<in> set (tr_spans t)"
  shows "createTraceSearchMatcher num_text (search_of Traces search) t"
proof -
  have "full_span s \<in> set (trace_spans t)" "tr_spans t \<noteq> []" using assms(2) by (auto simp: trace_spans_def)
  with assms(1) show ?thesis
    unfolding createTraceSearchMatcher_def span_matches_address_def Let_def list_ex_iff by auto
qed

section \<open>Properties\<close>


definition sample_log :: log where
  "sample_log =
     \<lparr>lg_id = ''1'', lg_timestamp = [], lg_observedTimestamp = [], lg_traceId = ''ab'', lg_spanId = [],
      lg_severityNumber = 9, lg_severityText = ''INFO'', lg_body = ''GET /'', lg_serviceName = ''api'',
      lg_attributes = [(''http.method'', JStr ''GET''), (''user:id'', JStr ''7''), (''tags'', JArr [])],
      lg_resource = [], lg_epochNs = 0\<rparr>"




text \<open>The buttons do not check the key the way the editor does. An attribute whose name has a colon gives
  a term the address cannot carry: the filter that comes back looks for another attribute, and the log it
  was clicked in is gone from the list.\<close>

theorem colon_key_loses_the_log:
  "log_matches_address (\<lambda>_. []) (validateSearch []) sample_log \<and>
   (''attributes.user:id'', Some (JStr ''7'')) \<in> set (log_detail sample_log) \<and>
   \<not> log_matches_address (\<lambda>_. [])
       (filterBy (\<lambda>_. []) Logs ''u'' ''attributes.user:id'' (Some (JStr ''7'')) (validateSearch [])) sample_log"
  by code_simp

end
