(* ===== verification/MetricView.thy ===== *)
theory MetricView
  imports MetricSeries MetricStore DetailActions
begin

text \<open>
  The detail view of a metric: the breakdown tabs of \<^verbatim>\<open>components/metrics/metric-detail.tsx\<close>,
  the tiles and the distribution table of \<^verbatim>\<open>components/metrics/metric-summary.tsx\<close>, the
  rows of \<^verbatim>\<open>components/metrics/data-points-table.tsx\<close>, the fields of
  \<^verbatim>\<open>components/metrics/data-point-detail.tsx\<close> and the keys under which the hooks cache their
  answers. A component is the function from its props to what it shows; \<open>show_num\<close> is
  \<open>toLocaleString\<close> of a number, \<open>show_time\<close> is \<open>formatTimestamp\<close>.
\<close>

section \<open>Breakdown\<close>

definition ALL_FACET :: string where
  "ALL_FACET = ''__all__''"

definition resolveEffectiveFacet :: "string option \<Rightarrow> metric_facet list \<Rightarrow> metric_facet option" where
  "resolveEffectiveFacet pickedId facets =
     (if pickedId = Some ALL_FACET then None
      else
        let match = (case pickedId of
                       None \<Rightarrow> None
                     | Some p \<Rightarrow> if p = [] then None else find (\<lambda>f. facetId f = p) facets)
        in case match of
             Some f \<Rightarrow> Some f
           | None \<Rightarrow> (case facets of [] \<Rightarrow> None | f # _ \<Rightarrow> Some f))"

definition tabValue :: "string option \<Rightarrow> metric_facet list \<Rightarrow> string" where
  "tabValue pickedId facets =
     (if pickedId = Some ALL_FACET then ALL_FACET
      else case resolveEffectiveFacet pickedId facets of Some f \<Rightarrow> facetId f | None \<Rightarrow> ALL_FACET)"

definition breakdown_tabs :: "metric_facet list \<Rightarrow> (string \<times> string) list" where
  "breakdown_tabs facets = map (\<lambda>f. (facetId f, fc_label f)) facets @ [(ALL_FACET, ''All'')]"

definition metric_facets ::
    "(string \<Rightarrow> string \<Rightarrow> int) \<Rightarrow> (number \<Rightarrow> string) \<Rightarrow> string \<Rightarrow> point list \<Rightarrow> metric_facet list" where
  "metric_facets lc num_text name pts = resolveMetricFacets lc name (computeAttributeCardinality num_text pts)"

definition distributionGroupBy :: "metric_facet option \<Rightarrow> string list option" where
  "distributionGroupBy f = map_option fc_attributes f"

definition selected_point :: "point list \<Rightarrow> string option \<Rightarrow> point option" where
  "selected_point pts selectedId = find (\<lambda>dp. Some (dp_id dp) = selectedId) pts"

section \<open>Summary\<close>

definition rangeLabel :: "temporal \<Rightarrow> event_window \<Rightarrow> string option" where
  "rangeLabel T window =
     map_option (\<lambda>r. case r of
         None \<Rightarrow> ''Custom''
       | Some r \<Rightarrow> (case map_of CHART_TIME_RANGES r of Some l \<Rightarrow> l | None \<Rightarrow> range_value r))
       (eventWindowRange T window)"

definition isHistogram :: "string \<Rightarrow> bool" where
  "isHistogram type \<longleftrightarrow> type = ''Histogram'' \<or> type = ''ExponentialHistogram''"

definition showsLatest :: "string \<Rightarrow> bool" where
  "showsLatest type \<longleftrightarrow> type = ''Gauge'' \<or> isDistributionMetric type"

definition tiles_input ::
    "string \<Rightarrow> metric_facet option \<Rightarrow> event_window \<Rightarrow> point list \<Rightarrow> agg_series list option \<Rightarrow> stat_tiles_input" where
  "tiles_input type f window pts aggregated =
     (case f of
        Some f' \<Rightarrow>
          if type \<noteq> ''Gauge''
          then AggregateTiles (case aggregated of None \<Rightarrow> [] | Some s \<Rightarrow> s) f' window
                 (if showsLatest type then Latest else Increase) (isDistributionMetric type)
          else RawTiles pts f window LatestSumSeries (isDistributionMetric type)
      | None \<Rightarrow>
          RawTiles pts f window
            (if type = ''Gauge'' then LatestSumSeries else if showsLatest type then Latest else Increase)
            (isDistributionMetric type))"

definition summary_tiles ::
    "instant_parser \<Rightarrow> (string \<Rightarrow> string \<Rightarrow> int) \<Rightarrow> (number \<Rightarrow> string) \<Rightarrow> string \<Rightarrow> metric_facet option \<Rightarrow>
     event_window \<Rightarrow> point list \<Rightarrow> agg_series list option \<Rightarrow> stat_tile list option" where
  "summary_tiles parse lc num_text type f window pts aggregated =
     (if showsLatest type \<or> hasIncreaseStatTileSignal pts
      then computeStatTiles parse lc num_text (tiles_input type f window pts aggregated)
      else Some [])"

definition showLabels :: "stat_tile list \<Rightarrow> bool" where
  "showLabels tiles \<longleftrightarrow> length tiles > 1 \<or> (case tiles of [] \<Rightarrow> True | t # _ \<Rightarrow> sl_key t \<noteq> [])"

text \<open>A tile on the screen: its label where labels are shown, the colour, the value and the count.\<close>

record shown_tile =
  tl_label :: "string option"
  tl_color :: string
  tl_main :: string
  tl_count :: "string option"

definition mainText :: "(number \<Rightarrow> string) \<Rightarrow> (number \<Rightarrow> string) \<Rightarrow> stat_tile \<Rightarrow> string \<Rightarrow> string" where
  "mainText num_text compactFmt tile u =
     (case sl_value tile of Some v \<Rightarrow> formatMetricValue num_text compactFmt v u | None \<Rightarrow> ''-'')"

definition Tile ::
    "(number \<Rightarrow> string) \<Rightarrow> (number \<Rightarrow> string) \<Rightarrow> (number \<Rightarrow> string) \<Rightarrow> string \<Rightarrow> bool \<Rightarrow> bool \<Rightarrow> stat_tile \<Rightarrow> shown_tile" where
  "Tile num_text compactFmt show_num u isDistribution showLabel tile =
     \<lparr>tl_label = (if showLabel then Some (sl_label tile) else None),
      tl_color = SERIES_COLORS ! sl_colorIndex tile,
      tl_main = mainText num_text compactFmt tile u,
      tl_count = (if isDistribution then map_option show_num (sl_count tile) else None)\<rparr>"

section \<open>Distribution table\<close>

record distribution_series =
  ds_groupValues :: "string list"
  ds_attributes :: attrs
  ds_count :: number
  ds_mean :: "number option"
  ds_min :: "number option"
  ds_max :: "number option"
  ds_p50 :: "number option"
  ds_p90 :: "number option"
  ds_p95 :: "number option"
  ds_p99 :: "number option"

definition distribution_columns :: "(string \<times> (distribution_series \<Rightarrow> number option)) list" where
  "distribution_columns =
     [(''Average'', ds_mean), (''Median'', ds_p50), (''P90'', ds_p90), (''P95'', ds_p95), (''P99'', ds_p99),
      (''Min'', ds_min), (''Max'', ds_max)]"

definition row_label ::
    "(string \<Rightarrow> string \<Rightarrow> int) \<Rightarrow> (number \<Rightarrow> string) \<Rightarrow> metric_facet option \<Rightarrow> distribution_series \<Rightarrow> string" where
  "row_label lc num_text f item =
     (case f of
        Some _ \<Rightarrow> label_or (facetGroupLabel (ds_groupValues item))
      | None \<Rightarrow> label_or (attrKey lc num_text (ds_attributes item)))"

definition row_identity ::
    "(string \<Rightarrow> string \<Rightarrow> int) \<Rightarrow> (number \<Rightarrow> string) \<Rightarrow> metric_facet option \<Rightarrow> distribution_series \<Rightarrow> string" where
  "row_identity lc num_text f item =
     (case f of
        Some f' \<Rightarrow> facetGroupColorIdentity f' (ds_groupValues item)
      | None \<Rightarrow> attrKey lc num_text (ds_attributes item))"

record distribution_row =
  dr_label :: string
  dr_color :: string
  dr_count :: string
  dr_cells :: "string list"

definition HistogramSummary ::
    "(string \<Rightarrow> string \<Rightarrow> int) \<Rightarrow> (number \<Rightarrow> string) \<Rightarrow> (number \<Rightarrow> string) \<Rightarrow> (number \<Rightarrow> string) \<Rightarrow>
     distribution_series list \<Rightarrow> metric_facet option \<Rightarrow> string \<Rightarrow> distribution_row list" where
  "HistogramSummary lc num_text compactFmt show_num series f u =
     (let colorIndexes = seriesColorIndexes (map (row_identity lc num_text f) series)
      in map (\<lambda>(item, index).
           \<lparr>dr_label = row_label lc num_text f item,
            dr_color = SERIES_COLORS ! (colorIndexes ! index),
            dr_count = show_num (ds_count item),
            dr_cells = map (\<lambda>(column, val).
                case val item of Some n \<Rightarrow> formatMetricValue num_text compactFmt n u | None \<Rightarrow> ''-'')
              distribution_columns\<rparr>) (zip series [0..<length series]))"

datatype summary_view =
    No_summary
  | Distribution_summary "distribution_row list" string
  | Tile_summary string string "shown_tile list"

text \<open>\<open>None\<close> where an instant or the bounds of the window do not parse.\<close>

definition MetricSummary ::
    "temporal \<Rightarrow> (string \<Rightarrow> string \<Rightarrow> int) \<Rightarrow> (number \<Rightarrow> string) \<Rightarrow> (number \<Rightarrow> string) \<Rightarrow> (number \<Rightarrow> string) \<Rightarrow>
     metric \<Rightarrow> metric_facet option \<Rightarrow> event_window \<Rightarrow> point list \<Rightarrow> agg_series list option \<Rightarrow>
     distribution_series list option \<Rightarrow> summary_view option" where
  "MetricSummary T lc num_text compactFmt show_num m f window pts aggregated distributionStats =
     (let type = mt_type m; u = resolveMetricUnit (mt_name m) (mt_unit m)
      in Option.bind (summary_tiles (inst_parse T) lc num_text type f window pts aggregated) (\<lambda>tiles.
           case (isHistogram type, distributionStats) of
             (True, Some series) \<Rightarrow>
               (let rows = HistogramSummary lc num_text compactFmt show_num series f u
                in if length rows = 0 then Some No_summary
                   else map_option (Distribution_summary rows) (rangeLabel T window))
           | _ \<Rightarrow>
               if length tiles = 0 then Some No_summary
               else map_option (\<lambda>l. Tile_summary (if showsLatest type then ''Latest'' else ''Increase'') l
                   (map (Tile num_text compactFmt show_num u (isDistributionMetric type) (showLabels tiles)) tiles))
                 (rangeLabel T window)))"

section \<open>Data points\<close>

definition has_attributes :: "point list \<Rightarrow> bool" where
  "has_attributes pts \<longleftrightarrow> list_ex (\<lambda>dp. dp_attributes dp \<noteq> []) pts"

definition points_header :: "bool \<Rightarrow> bool \<Rightarrow> string list" where
  "points_header hasAttributes isDistribution =
     [''Timestamp''] @ (if hasAttributes then [''Attributes''] else []) @
     [if isDistribution then ''Mean'' else ''Value''] @
     (if isDistribution then [''Count'', ''Sum'', ''Min'', ''Max''] else [])"

definition formatDistributionCell ::
    "(number \<Rightarrow> string) \<Rightarrow> (number \<Rightarrow> string) \<Rightarrow> number option \<Rightarrow> string \<Rightarrow> string" where
  "formatDistributionCell num_text compactFmt v u =
     (case v of Some n \<Rightarrow> formatMetricValue num_text compactFmt n u | None \<Rightarrow> ''-'')"

record point_row =
  pr_id :: string
  pr_selected :: bool
  pr_cells :: "string list"

definition point_row ::
    "(string \<Rightarrow> string \<Rightarrow> int) \<Rightarrow> (number \<Rightarrow> string) \<Rightarrow> (number \<Rightarrow> string) \<Rightarrow> (number \<Rightarrow> string) \<Rightarrow>
     (string \<Rightarrow> string) \<Rightarrow> bool \<Rightarrow> bool \<Rightarrow> string \<Rightarrow> string option \<Rightarrow> point \<Rightarrow> point_row" where
  "point_row lc num_text compactFmt show_num show_time hasAttributes isDistribution u selectedId dp =
     \<lparr>pr_id = dp_id dp, pr_selected = (selectedId = Some (dp_id dp)),
      pr_cells =
        [show_time (dp_timestamp dp)] @
        (if hasAttributes
         then [let k = attrKey lc num_text (dp_attributes dp) in if k = [] then ''-'' else k] else []) @
        [formatMetricValue num_text compactFmt (dp_value dp) u] @
        (if isDistribution
         then [case dp_count dp of Some n \<Rightarrow> show_num n | None \<Rightarrow> ''-'',
               formatDistributionCell num_text compactFmt (dp_sum dp) u,
               formatDistributionCell num_text compactFmt (dp_min dp) u,
               formatDistributionCell num_text compactFmt (dp_max dp) u]
         else [])\<rparr>"

definition DataPointsTable ::
    "(string \<Rightarrow> string \<Rightarrow> int) \<Rightarrow> (number \<Rightarrow> string) \<Rightarrow> (number \<Rightarrow> string) \<Rightarrow> (number \<Rightarrow> string) \<Rightarrow>
     (string \<Rightarrow> string) \<Rightarrow> metric \<Rightarrow> point list \<Rightarrow> string option \<Rightarrow> string list \<times> point_row list" where
  "DataPointsTable lc num_text compactFmt show_num show_time m pts selectedId =
     (let a = has_attributes pts; d = isDistributionMetric (mt_type m);
          u = resolveMetricUnit (mt_name m) (mt_unit m)
      in (points_header a d,
          map (point_row lc num_text compactFmt show_num show_time a d u selectedId) (rev pts)))"

text \<open>A click on a row.\<close>

definition click_point :: "string option \<Rightarrow> string \<Rightarrow> string option" where
  "click_point selectedId i = (if selectedId = Some i then None else Some i)"

definition DataPointDetail ::
    "(number \<Rightarrow> string) \<Rightarrow> (number \<Rightarrow> string) \<Rightarrow> (number \<Rightarrow> string) \<Rightarrow> (string \<Rightarrow> string) \<Rightarrow> point \<Rightarrow> string \<Rightarrow> bool \<Rightarrow>
     (string \<times> string) list" where
  "DataPointDetail num_text compactFmt show_num show_time dp u isDistribution =
     (let val = (\<lambda>label v. case v of Some n \<Rightarrow> [(label, formatMetricValue num_text compactFmt n u)] | None \<Rightarrow> [])
      in [(''Timestamp'', show_time (dp_timestamp dp)), (''Value'', formatMetricValue num_text compactFmt (dp_value dp) u)] @
         (if isDistribution
          then (case dp_count dp of Some n \<Rightarrow> [(''Count'', show_num n)] | None \<Rightarrow> []) @
               val ''Sum'' (dp_sum dp) @ val ''Min'' (dp_min dp) @ val ''Max'' (dp_max dp)
          else []))"

section \<open>Cached answers\<close>

definition aggregate_query_key :: "metric \<Rightarrow> metric_facet option \<Rightarrow> event_window \<Rightarrow> int option \<Rightarrow> string" where
  "aggregate_query_key m f window bucketSeconds =
     mt_serviceName m @ ''::'' @ mt_name m @ ''|'' @
     (case f of None \<Rightarrow> [] | Some f \<Rightarrow> join [char_of (0 :: nat)] (fc_attributes f)) @ ''|'' @
     eventWindowKey window @ ''|'' @ (case bucketSeconds of None \<Rightarrow> ''auto'' | Some s \<Rightarrow> int_text s)"

definition distribution_scope_key :: "metric \<Rightarrow> metric_facet option \<Rightarrow> string" where
  "distribution_scope_key m f =
     ''['' @ json_quote (mt_serviceName m) @ '','' @ json_quote (mt_name m) @ '','' @
     (case f of None \<Rightarrow> ''null'' | Some f \<Rightarrow> json_strings (fc_attributes f)) @ '']''"

section \<open>Lemmas\<close>

lemma filter_only: "distinct xs \<Longrightarrow> x \<in> set xs \<Longrightarrow> filter (\<lambda>y. x = y) xs = [x]"
  by (induction xs) (auto simp: filter_empty_conv)

section \<open>Properties\<close>

text \<open>The breakdown tabs and the data they break down by agree: the selected tab is one that is
  shown, it is the tab of the facet in effect, or All exactly where none is; picking a tab selects its
  facet, and a pick that the data no longer offers falls back to the first facet. The ids have to be
  distinct and none of them the reserved one.\<close>

theorem breakdown_tab_agrees:
  assumes "distinct (map facetId facets)" and "list_all (\<lambda>f. facetId f \<notin> {[], ALL_FACET}) facets"
  shows "let f = resolveEffectiveFacet pick facets; tab = tabValue pick facets in
    tab \<in> fst ` set (breakdown_tabs facets) \<and>
    (case f of None \<Rightarrow> tab = ALL_FACET \<and> (pick = Some ALL_FACET \<or> facets = []) | Some f \<Rightarrow> f \<in> set facets \<and> tab = facetId f) \<and>
    (\<forall>g \<in> set facets. pick = Some (facetId g) \<longrightarrow> f = Some g) \<and>
    (pick \<notin> Some ` insert ALL_FACET (facetId ` set facets) \<and> facets \<noteq> [] \<longrightarrow> f = Some (hd facets))"
proof (cases "pick = Some ALL_FACET")
  case True
  then show ?thesis using assms(2)
    by (auto simp: Let_def resolveEffectiveFacet_def tabValue_def breakdown_tabs_def list_all_iff)
next
  case False
  let ?m = "case pick of None \<Rightarrow> None | Some p \<Rightarrow> if p = [] then None else find (\<lambda>f. facetId f = p) facets"
  have eff: "resolveEffectiveFacet pick facets =
      (case ?m of Some f \<Rightarrow> Some f | None \<Rightarrow> (case facets of [] \<Rightarrow> None | f # _ \<Rightarrow> Some f))"
    using False unfolding resolveEffectiveFacet_def Let_def by (rule if_not_P)
  have in_list: "\<exists>f \<in> set facets. resolveEffectiveFacet pick facets = Some f" if "facets \<noteq> []"
  proof (cases ?m)
    case None
    from eff [unfolded None] that show ?thesis by (cases facets) simp_all
  next
    case (Some g)
    then have "g \<in> set facets" by (auto simp: find_Some_iff split: option.splits if_splits)
    with eff [unfolded Some] show ?thesis by simp
  qed
  have picked: "resolveEffectiveFacet pick facets = Some g" if g: "g \<in> set facets" "pick = Some (facetId g)" for g
  proof -
    have "find (\<lambda>f. facetId f = facetId g) facets \<noteq> None" using g(1) by (auto simp: find_None_iff)
    then obtain h where h: "find (\<lambda>f. facetId f = facetId g) facets = Some h" by blast
    then have "h \<in> set facets" "facetId h = facetId g" by (auto simp: find_Some_iff)
    with assms(1) g(1) have "h = g" by (auto simp: distinct_map dest: inj_onD)
    with h g assms(2) False show ?thesis by (auto simp: resolveEffectiveFacet_def list_all_iff)
  qed
  have fallback: "resolveEffectiveFacet pick facets = Some (hd facets)"
    if "pick \<notin> Some ` insert ALL_FACET (facetId ` set facets)" "facets \<noteq> []"
  proof -
    have "?m = None" using that(1) by (auto simp: find_None_iff split: option.split)
    from eff [unfolded this] that(2) show ?thesis by (cases facets) simp_all
  qed
  show ?thesis
  proof (cases "facets = []")
    case True
    then show ?thesis using False
      by (auto simp: Let_def resolveEffectiveFacet_def tabValue_def breakdown_tabs_def split: option.splits)
  next
    case nonempty: False
    with in_list obtain f where f: "f \<in> set facets" "resolveEffectiveFacet pick facets = Some f" by blast
    have t: "tabValue pick facets = facetId f" using False f(2) by (simp add: tabValue_def)
    have shown: "facetId f \<in> fst ` set (breakdown_tabs facets)"
      using f(1) by (simp add: breakdown_tabs_def image_image)
    have "\<forall>g \<in> set facets. pick = Some (facetId g) \<longrightarrow> Some f = Some g" using picked unfolding f(2) by blast
    moreover have "pick \<notin> Some ` insert ALL_FACET (facetId ` set facets) \<and> facets \<noteq> [] \<longrightarrow> Some f = Some (hd facets)"
      using fallback unfolding f(2) by blast
    ultimately show ?thesis unfolding Let_def f(2) t option.case using shown f(1) by blast
  qed
qed

theorem breakdown_tab_agrees_witness:
  "tabValue (Some ''gone'') [facet [''a''] ''A'', facet [''b''] ''B''] = ''a''"
proof -
  have "distinct (map facetId [facet [''a''] ''A'', facet [''b''] ''B''])" by (simp add: facetId_def facet_def)
  moreover have "list_all (\<lambda>f. facetId f \<notin> {[], ALL_FACET}) [facet [''a''] ''A'', facet [''b''] ''B'']"
    by (simp add: facetId_def facet_def ALL_FACET_def)
  ultimately show ?thesis
    using breakdown_tab_agrees [of "[facet [''a''] ''A'', facet [''b''] ''B'']" "Some ''gone''"]
    by (auto simp: Let_def facetId_def ALL_FACET_def facet_def)
qed

text \<open>C20: The distribution table and the chart beside it show a group under the same name and in the same
  colour, wherever the group stands in either answer, as soon as both answers have the same groups; the
  number of cells of a row is the number of columns.\<close>

theorem distribution_rows_match_chart:
  assumes "ds_groupValues ` set series = ag_groupValues ` set agg"
    and "i < length series" and "j < length agg" and "ds_groupValues (series ! i) = ag_groupValues (agg ! j)"
  shows "let row = HistogramSummary lc num_text compactFmt show_num series (Some f) u ! i;
      line = buildAggregatedFacetSeries date_ms agg f window ! j
    in dr_label row = ms_label line \<and> dr_color row = ms_color line \<and>
       length (dr_cells row) = length distribution_columns"
proof -
  let ?ids = "map (row_identity lc num_text (Some f)) series"
  let ?jds = "map (facetGroupColorIdentity f) (map ag_groupValues agg)"
  have "set ?ids = facetGroupColorIdentity f ` ds_groupValues ` set series" by (simp add: row_identity_def image_image)
  moreover have "set ?jds = facetGroupColorIdentity f ` ag_groupValues ` set agg" by (simp add: image_image)
  ultimately have same: "set ?ids = set ?jds" unfolding assms(1) by simp
  have "?ids ! i = ?jds ! j" using assms(2-4) by (simp add: row_identity_def)
  then have "seriesColorIndexes ?ids ! i = seriesColorIndexes ?jds ! j"
    unfolding seriesColorIndexes_color_of same using assms(2,3) by simp
  then show ?thesis
    using assms(2-4)
    by (simp add: Let_def HistogramSummary_def row_label_def buildAggregatedFacetSeries_def
        resolveFacetGroupColorIndex_def facetGroupColorIndexes_def case_prod_beta)
qed

theorem distribution_rows_match_chart_witness:
  "let a = \<lparr>ag_groupValues = [''x''], ag_points = []\<rparr>; b = \<lparr>ag_groupValues = [''y''], ag_points = []\<rparr>;
       d = \<lparr>ds_groupValues = [''y''], ds_attributes = [], ds_count = 1, ds_mean = None, ds_min = None, ds_max = None,
            ds_p50 = None, ds_p90 = None, ds_p95 = None, ds_p99 = None\<rparr>;
       series = [d, d\<lparr>ds_groupValues := [''x'']\<rparr>]
   in dr_color (HistogramSummary (\<lambda>_ _. 0) (\<lambda>_. []) (\<lambda>_. []) (\<lambda>_. []) series (Some (facet [''k''] ''K'')) [] ! 0) =
      ms_color (buildAggregatedFacetSeries (\<lambda>_. 0) [a, b] (facet [''k''] ''K'') (Live RAll) ! 1)"
proof -
  let ?d = "\<lparr>ds_groupValues = [''y''], ds_attributes = [], ds_count = 1, ds_mean = None, ds_min = None, ds_max = None,
            ds_p50 = None, ds_p90 = None, ds_p95 = None, ds_p99 = None\<rparr>"
  let ?ds = "[?d, ?d\<lparr>ds_groupValues := [''x'']\<rparr>]"
  let ?as = "[\<lparr>ag_groupValues = [''x''], ag_points = []\<rparr>, \<lparr>ag_groupValues = [''y''], ag_points = []\<rparr>]"
  have "ds_groupValues ` set ?ds = ag_groupValues ` set ?as" by auto
  from distribution_rows_match_chart [OF this, of 0 1] show ?thesis by (simp add: Let_def)
qed

text \<open>A click on a row of the points selects its point and a second click closes it; the sidebar shows a
  point exactly while the window still holds it; the rows are the points, newest last point first, each
  with one cell per column.\<close>

theorem points_table_exact:
  assumes "distinct (map dp_id pts)" and "dp \<in> set pts"
  shows "selected_point pts (click_point None (dp_id dp)) = Some dp \<and>
    click_point (click_point None (dp_id dp)) (dp_id dp) = None \<and>
    selected_point (removeAll dp pts) (Some (dp_id dp)) = None \<and>
    (case DataPointsTable lc num_text compactFmt show_num show_time m pts (Some (dp_id dp)) of (header, rows) \<Rightarrow>
       map pr_id rows = rev (map dp_id pts) \<and> map pr_id (filter pr_selected rows) = [dp_id dp] \<and>
       list_all (\<lambda>r. length (pr_cells r) = length header) rows)"
proof -
  have only: "x = dp" if "x \<in> set pts" "dp_id x = dp_id dp" for x
    using assms that by (auto simp: distinct_map dest: inj_onD)
  have "find (\<lambda>x. dp_id x = dp_id dp) pts \<noteq> None" using assms(2) by (auto simp: find_None_iff)
  then obtain x where "find (\<lambda>x. dp_id x = dp_id dp) pts = Some x" by blast
  moreover from this have "x = dp" by (intro only) (auto simp: find_Some_iff)
  moreover have "find (\<lambda>x. dp_id x = dp_id dp) (removeAll dp pts) = None"
    using only by (auto simp: find_None_iff)
  moreover have "filter (\<lambda>i. dp_id dp = i) (rev (map dp_id pts)) = [dp_id dp]"
    using assms by (intro filter_only) auto
  ultimately show ?thesis
    by (simp add: selected_point_def click_point_def DataPointsTable_def Let_def comp_def point_row_def points_header_def
        list_all_iff filter_map rev_map)
qed

text \<open>The key of an aggregated answer does not tell every two metrics apart: the service and the name are
  joined by a text either may hold, so one cache entry stands for both, while the key of the distribution
  quotes them.\<close>

theorem aggregate_key_ambiguous:
  "let m = mk_metric ''b::c'' []; n = mk_metric ''c'' [];
       m = m\<lparr>mt_serviceName := ''a''\<rparr>; n = n\<lparr>mt_serviceName := ''a::b''\<rparr>
   in aggregate_query_key m f window seconds = aggregate_query_key n f window seconds \<and>
      distribution_scope_key m f \<noteq> distribution_scope_key n f \<and> mt_key m \<noteq> mt_key n"
  by (simp add: Let_def mk_metric_def aggregate_query_key_def distribution_scope_key_def mt_key_def metricKey_inject
      json_string.enc_append_inj)

end
