(* ===== verification/Screens.thy ===== *)
theory Screens
  imports Loading ListFilters RenderWindow MetricView
begin

text \<open>
  What the three tabs show: \<^verbatim>\<open>components/traces/trace-list.tsx\<close>,
  \<^verbatim>\<open>components/logs/log-list.tsx\<close>, \<^verbatim>\<open>components/metrics/metric-list.tsx\<close>, the head of
  \<^verbatim>\<open>components/traces/trace-detail.tsx\<close> and the rows below the lists. A screen is a value of a
  datatype with the texts of its cells (an ellipsis as three dots); styles and layout are left out. \<open>show_num\<close> is
  \<open>toLocaleString\<close>, \<open>show_time\<close> is \<open>formatTimestamp\<close>.
\<close>

section \<open>Rows below and above a list\<close>

text \<open>The button that loads more, if it is shown: its text and whether it is disabled.\<close>

definition LoadMoreRow :: "bool \<Rightarrow> bool \<Rightarrow> (string \<times> bool) option" where
  "LoadMoreRow visible loadingMore =
     (if \<not> visible then None
      else Some (if loadingMore then ''Loading...'' else ''Load more'', loadingMore))"

definition BackToLatestRow :: "(number \<Rightarrow> string) \<Rightarrow> int \<Rightarrow> string \<Rightarrow> string option" where
  "BackToLatestRow show_num hidden label =
     (if hidden \<le> 0 then None else Some (show_num (of_int hidden) @ '' '' @ label))"

definition or_dash :: "string \<Rightarrow> string" where
  "or_dash s = (if s = [] then ''-'' else s)"

section \<open>Traces\<close>

definition has_traces :: "store \<Rightarrow> bool" where
  "has_traces st \<longleftrightarrow> traceCount st > 0 \<or> length (st_traces st) > 0"

text \<open>The rows are kept while a trace is selected; a change of the selection or of the search takes them
  from the store again.\<close>

record 'a row_memo =
  rm_selected :: "string option"
  rm_search :: string
  rm_frozen :: "'a list"

definition memo_rows :: "string option \<Rightarrow> string \<Rightarrow> 'a list \<Rightarrow> 'a row_memo \<Rightarrow> 'a row_memo" where
  "memo_rows selectedId search current m =
     (if selectedId = rm_selected m \<and> search = rm_search m then m
      else \<lparr>rm_selected = selectedId, rm_search = search, rm_frozen = current\<rparr>)"

definition displayed_rows :: "'a list \<Rightarrow> 'a row_memo \<Rightarrow> 'a list" where
  "displayed_rows current m = (if truthy (rm_selected m) then rm_frozen m else current)"

definition trace_name :: "trace \<Rightarrow> string" where
  "trace_name t =
     (case tr_rootSpan t of
        Some r \<Rightarrow> rt_name r
      | None \<Rightarrow> (case tr_spans t of s # _ \<Rightarrow> sp_name s | [] \<Rightarrow> ''-''))"

definition trace_status :: "trace \<Rightarrow> span_status" where
  "trace_status t = (case tr_rootSpan t of Some r \<Rightarrow> rt_statusCode r | None \<Rightarrow> Unset)"

definition TraceRow :: "(number \<Rightarrow> string) \<Rightarrow> (string \<Rightarrow> string) \<Rightarrow> trace \<Rightarrow> string list \<times> tone" where
  "TraceRow num_text show_time t =
     ([or_dash (tr_serviceName t), trace_name t, shortId (tr_traceId t) 16, int_text (tr_spanCount t),
       formatDuration num_text (tr_duration t), show_time (tr_startTime t), status_text (trace_status t)],
      traceStatusTone (trace_status t))"

datatype load_button = Retry_button | Back_button
datatype load_title = Loading_title | Not_retained_title | Unable_title

definition TraceLoadState :: "by_id_status_kind \<Rightarrow> load_title \<times> load_button list" where
  "TraceLoadState status =
     (let unavailable = (status = Not_found)
      in if status = Loading_trace then (Loading_title, [])
         else (if unavailable then Not_retained_title else Unable_title,
               (if \<not> unavailable then [Retry_button] else []) @ [Back_button]))"

datatype 'a list_screen =
    Detail_screen 'a
  | Load_screen load_title "load_button list"
  | Empty_screen
  | Matches_screen bool "'a list"

text \<open>\<open>Matches_screen\<close> has the toolbar, the bar of the filters where there are filters, and the rows.\<close>

definition trace_screen ::
    "string option \<Rightarrow> trace option \<Rightarrow> by_id_status_kind \<Rightarrow> bool \<Rightarrow> string \<Rightarrow> query_state \<Rightarrow> trace list \<Rightarrow> trace list_screen" where
  "trace_screen selectedId selected status hasTraces search state rows =
     (case selected of
        Some t \<Rightarrow> Detail_screen t
      | None \<Rightarrow>
          if truthy selectedId then (case TraceLoadState status of (title, buttons) \<Rightarrow> Load_screen title buttons)
          else if \<not> hasTraces \<and> search = [] then Empty_screen
          else Matches_screen (length (qs_filters state) > 0) rows)"

section \<open>Trace detail\<close>

record trace_head =
  hd_name :: string
  hd_service :: "string option"
  hd_shortId :: string
  hd_error :: bool
  hd_spans :: int
  hd_services :: nat
  hd_duration :: string

definition trace_head :: "(number \<Rightarrow> string) \<Rightarrow> trace \<Rightarrow> trace_head" where
  "trace_head num_text t =
     \<lparr>hd_name = trace_name t,
      hd_service = (if tr_serviceName t = [] then None else Some (tr_serviceName t)),
      hd_shortId = shortId (tr_traceId t) 16,
      hd_error = list_ex (\<lambda>s. sp_statusCode s = Error) (tr_spans t),
      hd_spans = tr_spanCount t,
      hd_services = card (set (map sp_serviceName (tr_spans t))),
      hd_duration = formatDuration num_text (tr_duration t)\<rparr>"

definition download_name :: "trace \<Rightarrow> string" where
  "download_name t = ''trace-'' @ js_slice 0 8 (tr_traceId t) @ ''.json''"

definition selected_span :: "trace \<Rightarrow> string option \<Rightarrow> span option" where
  "selected_span t selectedId = find (\<lambda>s. Some (sp_spanId s) = selectedId) (tr_spans t)"

definition change_span_tab :: "string \<Rightarrow> page_search \<Rightarrow> page_search" where
  "change_span_tab val previous = previous\<lparr>pq_link := None, pq_spanTab := span_tab_of (Some (JStr val))\<rparr>"

section \<open>Logs\<close>

definition log_screen :: "store \<Rightarrow> string \<Rightarrow> query_state \<Rightarrow> log list \<Rightarrow> log list_screen" where
  "log_screen st search state rows =
     (if logCount st = 0 \<and> length (st_logs st) = 0 \<and> search = [] \<and> length (qs_filters state) = 0 then Empty_screen
      else Matches_screen (length (qs_filters state) > 0) rows)"

definition LogRow :: "(string \<Rightarrow> string) \<Rightarrow> log \<Rightarrow> string list \<times> tone \<times> string option" where
  "LogRow show_time l =
     ([show_time (lg_timestamp l), if lg_severityText l = [] then ''UNSET'' else lg_severityText l,
       or_dash (lg_serviceName l), lg_body l],
      severityTone (Some (lg_severityText l)) (Some (lg_severityNumber l)),
      if \<not> isZeroId (lg_traceId l) then Some (shortId (lg_traceId l) 8) else None)"

definition click_log :: "log option \<Rightarrow> log \<Rightarrow> log option" where
  "click_log selected l = (if map_option lg_id selected = Some (lg_id l) then None else Some l)"

section \<open>Metrics\<close>

definition metricRowId :: "metric \<Rightarrow> string" where
  "metricRowId m = mt_serviceName m @ ''-'' @ mt_name m"

definition sorted_metrics :: "(string \<Rightarrow> string \<Rightarrow> int) \<Rightarrow> metric list \<Rightarrow> metric list" where
  "sorted_metrics lc ms = sort_by (\<lambda>a b. lc (mt_name a) (mt_name b)) ms"

definition metric_detail_key :: "metric \<Rightarrow> string" where
  "metric_detail_key m = mt_name m"

definition metric_screen ::
    "store \<Rightarrow> metric option \<Rightarrow> string \<Rightarrow> query_state \<Rightarrow> metric list \<Rightarrow> metric list_screen" where
  "metric_screen st selected search state rows =
     (case selected of
        Some m \<Rightarrow> Detail_screen m
      | None \<Rightarrow>
          if length (st_metrics st) = 0 \<and> search = [] \<and> length (qs_filters state) = 0 then Empty_screen
          else Matches_screen (length (qs_filters state) > 0) rows)"

datatype search_note = Searching_note | Search_failed_note | No_matches_note

definition metric_notes :: "metric_search_view \<Rightarrow> metric list \<Rightarrow> search_note list" where
  "metric_notes request rows =
     (if ms_isSearching request then [Searching_note]
      else if ms_isError request then [Search_failed_note] else []) @
     (if length rows = 0 \<and> \<not> ms_isSearching request \<and> \<not> ms_isError request then [No_matches_note] else [])"

definition MetricRow :: "(number \<Rightarrow> string) \<Rightarrow> (string \<Rightarrow> string) \<Rightarrow> metric \<Rightarrow> string list" where
  "MetricRow show_num show_ago m =
     [or_dash (mt_serviceName m), mt_name m, or_dash (mt_description m), mt_type m,
      or_dash (resolveMetricUnit (mt_name m) (mt_unit m)), int_text (mt_pointCount m),
      case mt_latestValue m of Some v \<Rightarrow> show_num v | None \<Rightarrow> ''-'', show_ago (mt_receivedAt m)]"

section \<open>Lemmas\<close>

lemma sub_half: "0 < w \<Longrightarrow> safe_int w \<Longrightarrow>
    num_sub (of_int w) (of_int (w div 2)) = of_int (w - w div 2) \<and> \<lfloor>num_div (of_int w) 2\<rfloor> = w div 2"
proof -
  assume w: "0 < w" "safe_int w"
  have "safe_int (w - w div 2)" using w by (auto simp: safe_int_def)
  then have "num_sub (of_int w) (of_int (w div 2)) = of_int (w - w div 2)" by (simp add: num_sub_def flip: of_int_diff)
  moreover have "w div 2 < 2 ^ (53 - 1)" using w by (simp add: safe_int_def)
  then have "\<lfloor>num_div (of_int w) 2\<rfloor> = w div 2"
    using floor_fl_div [of w 2 1] w(1) by (simp add: num_div_def)
  ultimately show ?thesis by blast
qed

text \<open>The window around an instant holds it, and is as wide as the window it was made from.\<close>

lemma window_around:
  assumes T: "temporal_laws T" and w: "eventWindowWidthMs T source = Some (of_int w)" "0 < w" "safe_int w"
    and c: "inst_parse T stamp = Some c" and n: "valid_instant now" and "c \<noteq> now"
    and W: "eventWindowAround T now stamp source = Some W"
  shows "\<exists>m. W = Fixed (inst_show T m) (inst_show T (m + w * 1000000)) \<and> m \<le> c \<and> c < m + w * 1000000 \<and>
    valid_instant m \<and> valid_instant (m + w * 1000000)"
proof -
  define b where "b = w div 2"
  define d where "d = w - b"
  have half: "num_sub (of_int w) (of_int b) = of_int d" "\<lfloor>num_div (of_int w) 2\<rfloor> = b"
    using sub_half [OF w(2,3)] by (simp_all add: b_def d_def)
  have pos: "0 \<le> b" "0 < d" "w = b + d" using w(2) by (auto simp: b_def d_def)
  consider m where "W = Fixed (inst_show T m) (inst_show T now)" "m = now - w * 1000000" "valid_instant m" "c < now" "now < c + d * 1000000"
    | "W = Fixed (inst_show T (c - b * 1000000)) (inst_show T (c + d * 1000000))"
      "valid_instant (c - b * 1000000)" "valid_instant (c + d * 1000000)"
    using W w(1) c half \<open>c \<noteq> now\<close>
    by (auto simp: eventWindowAround_def inst_add_ms_int inst_add_ms_neg_int bind_eq_Some_conv Let_def
        simp del: eventWindowWidthMs.simps split: if_splits event_window.splits)
  then show ?thesis
  proof cases
    case (1 m)
    then have "m + w * 1000000 = now" "m \<le> c" using pos by (simp_all add: algebra_simps)
    with 1(1,3,4) n show ?thesis by (intro exI [of _ m]) simp
  next
    case 2
    have e: "c - b * 1000000 + w * 1000000 = c + d * 1000000" by (simp add: pos(3) algebra_simps)
    show ?thesis by (rule exI [of _ "c - b * 1000000"], unfold e) (use 2 pos in simp)
  qed
qed

section \<open>Properties\<close>


definition surrounding_log :: log where
  "surrounding_log = sample_log\<lparr>lg_timestamp := ''5'', lg_epochNs := 5\<rparr>"


text \<open>While the trace of a shared address loads, the tab never says that it is gone or failed: with the answer
  at hand and the store not yet updated it shows the loading state, after the effect the trace; a trace the
  server does not know is said to be no longer retained, without a retry, and an error offers one.\<close>

theorem shared_trace_screens:
  assumes "trace_store_ok st" and "1 \<le> cap_traceCap (st_bufferCaps st)"
    and "page_trace_id (pg_location p) = Some (tr_traceId a)" and "selected_trace st p = None"
    and "by_id_toTraceData parse a = Some t" and "tq_data q = Some (Some a)" and "\<not> tq_isFetching q" and "\<not> tq_isError q"
    and "tr_traceId a \<noteq> []"
  shows "let screen = (\<lambda>st q. trace_screen (page_trace_id (pg_location p)) (selected_trace st p)
      (by_id_status (page_trace_id (pg_location p)) (selected_trace st p) q) (has_traces st) search state rows)
    in screen st q = Load_screen Loading_title [] \<and>
       (\<exists>st'. by_id_effect parse (selected_trace st p) q st = Some st' \<and> screen st' q = Detail_screen t) \<and>
       screen st (q\<lparr>tq_data := Some None\<rparr>) = Load_screen Not_retained_title [Back_button] \<and>
       screen st (q\<lparr>tq_isError := True\<rparr>) = Load_screen Unable_title [Retry_button, Back_button]"
proof -
  obtain st' where "by_id_effect parse (selected_trace st p) q st = Some st'" "selected_trace st' p = Some t"
    using deep_link_effect [OF assms(1-7)] by blast
  then show ?thesis
    using assms(3,4,6-9) by (simp add: Let_def trace_screen_def by_id_status_def truthy_def TraceLoadState_def)
qed

text \<open>With no telemetry at all, a filter that is switched off keeps the toolbar and its bar on the logs and
  metrics tabs, and is out of reach on the traces tab, which shows the empty state.\<close>

theorem trace_tab_hides_disabled_filter:
  assumes "qs_text state = []" and "filter lf_enabled (qs_filters state) = []" and "qs_filters state \<noteq> []"
  shows "trace_screen None None status False (signal_query_search state) state rows = Empty_screen \<and>
    log_screen initial_store (signal_query_search state) state logs = Matches_screen True logs \<and>
    metric_screen initial_store None (signal_query_search state) state ms = Matches_screen True ms"
  using assms by (simp add: trace_screen_def log_screen_def metric_screen_def signal_query_search_def truthy_def)

text \<open>The id of a metric's row joins service and name with a dash either may hold, so two metrics share a
  row key and a place in the window of mounted rows; and the detail view of two metrics of one name in two
  services has one key, so that picking the other one does not reset its breakdown.\<close>

theorem metric_row_ids_ambiguous:
  "let m = (mk_metric ''b-c'' [])\<lparr>mt_serviceName := ''a''\<rparr>; n = (mk_metric ''c'' [])\<lparr>mt_serviceName := ''a-b''\<rparr>;
       k = (mk_metric ''c'' [])\<lparr>mt_serviceName := ''a''\<rparr>
   in metricRowId m = metricRowId n \<and> mt_key m \<noteq> mt_key n \<and>
      metric_detail_key n = metric_detail_key k \<and> mt_key n \<noteq> mt_key k"
  by (simp add: Let_def mk_metric_def metricRowId_def metric_detail_key_def mt_key_def metricKey_inject)

end
