(* ===== verification/SpanLinks.thy ===== *)
theory SpanLinks
  imports ListPaging Screens
begin

text \<open>
  The links of a span: the pages of \<^verbatim>\<open>hooks/use-span-links.ts\<close>, the list of
  \<^verbatim>\<open>components/traces/span-links.tsx\<close> and the information of one link in
  \<^verbatim>\<open>components/traces/span-link-dialog.tsx\<close>. Which live messages refresh them is in
  \<open>LiveRefetch\<close>. The query library loads the pages in order, each with the parameter the last one
  gives.
\<close>

section \<open>Pages\<close>

record link_end =
  ln_traceId :: string
  ln_spanId :: string
  ln_name :: string
  ln_serviceName :: string

record link_row =
  lk_ordinal :: nat
  lk_traceId :: string
  lk_spanId :: string
  lk_sourceTraceId :: string
  lk_sourceSpanId :: string
  lk_targetStatus :: string
  lk_target :: "link_end option"
  lk_source :: "link_end option"

record link_connection =
  lc_items :: "link_row list"
  lc_hasNextPage :: bool
  lc_endCursor :: "string option"

record link_page = link_connection +
  lc_available :: bool

text \<open>The answer: \<open>None\<close> where the trace or the span is gone, otherwise the outgoing and the incoming
  connection, of which the request asks for one.\<close>

definition link_page_of :: "bool \<Rightarrow> (link_connection \<times> link_connection) option \<Rightarrow> link_page" where
  "link_page_of incoming answer =
     (case answer of
        None \<Rightarrow> \<lparr>lc_items = [], lc_hasNextPage = False, lc_endCursor = None, lc_available = False\<rparr>
      | Some (links, incomingLinks) \<Rightarrow>
          link_connection.extend (if incoming then incomingLinks else links) (link_page.fields True))"

definition next_link_param :: "link_page \<Rightarrow> string option" where
  "next_link_param page = (if lc_hasNextPage page then lc_endCursor page else None)"

fun load_link_pages :: "nat \<Rightarrow> (string option \<Rightarrow> link_page) \<Rightarrow> string option \<Rightarrow> link_page list" where
  "load_link_pages 0 fetch param = []"
| "load_link_pages (Suc n) fetch param =
     (let page = fetch param
      in page # (case next_link_param page of None \<Rightarrow> [] | Some c \<Rightarrow> load_link_pages n fetch (Some c)))"

definition link_rows :: "link_page list \<Rightarrow> link_row list" where
  "link_rows pages = concat (map lc_items pages)"

definition link_target_ids :: "bool \<Rightarrow> link_page list \<Rightarrow> string list" where
  "link_target_ids incoming pages =
     map (\<lambda>l. if incoming then lk_sourceTraceId l else lk_traceId l) (link_rows pages)"

section \<open>The list\<close>

record link_query =
  lq_pages :: "link_page list option"
  lq_isPending :: bool
  lq_isError :: bool
  lq_isFetchingNextPage :: bool

definition more_links :: "link_query \<Rightarrow> bool" where
  "more_links q =
     (case lq_pages q of None \<Rightarrow> False | Some pages \<Rightarrow> pages \<noteq> [] \<and> next_link_param (last pages) \<noteq> None)"

record link_item =
  li_title :: string
  li_service :: "string option"
  li_target :: "(string \<times> string) option"
  li_selection :: string
  li_number :: nat
  li_traceText :: string
  li_spanText :: string

definition SpanLinkItem :: "bool \<Rightarrow> link_row \<Rightarrow> link_item" where
  "SpanLinkItem incoming l =
     (let other = (if incoming then lk_source l else lk_target l);
          traceId = (if incoming then lk_sourceTraceId l else lk_traceId l);
          spanId = (if incoming then lk_sourceSpanId l else lk_spanId l)
      in \<lparr>li_title =
            (case other of
               Some s \<Rightarrow> ln_name s
             | None \<Rightarrow>
                 if \<not> incoming \<and> lk_targetStatus l = ''INVALID_CONTEXT'' then ''Invalid span context''
                 else ''Span not available''),
          li_service = map_option (\<lambda>s. if ln_serviceName s = [] then ''Unknown service'' else ln_serviceName s) other,
          li_target = map_option (\<lambda>_. (traceId, spanId)) other,
          li_selection = spanLinkSelection
            \<lparr>sl_sourceTraceId = lk_sourceTraceId l, sl_sourceSpanId = lk_sourceSpanId l, sl_ordinal = lk_ordinal l\<rparr>,
          li_number = lk_ordinal l + 1,
          li_traceText = (if traceId = [] then ''(empty)'' else shortId traceId 16),
          li_spanText = (if spanId = [] then ''(empty)'' else shortId spanId 16)\<rparr>)"

text \<open>Opening a listed link: the page of the other span, or the dialog of the link.\<close>

definition follow_link :: "string \<times> string \<Rightarrow> page \<Rightarrow> page" where
  "follow_link target p =
     \<lparr>pg_location = At_span (fst target) (snd target),
      pg_search = (pg_search p)\<lparr>pq_spanTab := None, pq_link := None\<rparr>\<rparr>"

definition open_link :: "string \<Rightarrow> page \<Rightarrow> page" where
  "open_link selection p = p\<lparr>pg_search := (pg_search p)\<lparr>pq_link := Some selection\<rparr>\<rparr>"

datatype links_note = Dropped_note int | Pending_note | Failed_note | No_incoming_note | No_links_note

datatype links_view = Span_gone | Links_shown "links_note list" "link_item list" "(string \<times> bool) option"

definition SpanLinks_view :: "span \<Rightarrow> bool \<Rightarrow> link_query \<Rightarrow> links_view" where
  "SpanLinks_view s incoming q =
     (let items = (case lq_pages q of None \<Rightarrow> [] | Some pages \<Rightarrow> link_rows pages)
      in if (case lq_pages q of Some (page # _) \<Rightarrow> \<not> lc_available page | _ \<Rightarrow> False) then Span_gone
         else
           Links_shown
             ((if sp_droppedLinksCount s > 0 \<and> \<not> incoming then [Dropped_note (sp_droppedLinksCount s)] else []) @
              (if lq_isPending q then [Pending_note] else []) @
              (if lq_isError q then [Failed_note] else []) @
              (if \<not> lq_isPending q \<and> \<not> lq_isError q \<and> length items = 0
               then [if incoming then No_incoming_note else No_links_note] else []))
             (map (SpanLinkItem incoming) items)
             (LoadMoreRow (more_links q \<and> \<not> lq_isError q) (lq_isFetchingNextPage q)))"

section \<open>One link\<close>

fun spaces :: "nat \<Rightarrow> string" where
  "spaces 0 = []"
| "spaces (Suc n) = CHR '' '' # spaces n"

text \<open>\<open>JSON.stringify(value, null, 2)\<close> at a depth of indentation.\<close>

fun json_pretty :: "(number \<Rightarrow> string) \<Rightarrow> nat \<Rightarrow> json \<Rightarrow> string" where
  "json_pretty num_text d (JArr vs) =
     (if vs = [] then ''[]''
      else ''['' @ [CHR 0x0A] @
        join ('','' @ [CHR 0x0A]) (map (\<lambda>v. spaces (d + 2) @ json_pretty num_text (d + 2) v) vs) @
        [CHR 0x0A] @ spaces d @ '']'')"
| "json_pretty num_text d (JObj kvs) =
     (if kvs = [] then ''{}''
      else ''{'' @ [CHR 0x0A] @
        join ('','' @ [CHR 0x0A])
          (map (\<lambda>(k, v). spaces (d + 2) @ json_quote k @ '': '' @ json_pretty num_text (d + 2) v) kvs) @
        [CHR 0x0A] @ spaces d @ ''}'')"
| "json_pretty num_text d v = json_text num_text v"

definition attribute_text :: "(number \<Rightarrow> string) \<Rightarrow> json \<Rightarrow> string" where
  "attribute_text num_text v =
     (case v of JStr s \<Rightarrow> (if s = [] then ''(empty)'' else s) | _ \<Rightarrow> json_pretty num_text 0 v)"

record link_data =
  ld_source :: "link_end option"
  ld_sourceTraceId :: string
  ld_sourceSpanId :: string
  ld_target :: "link_end option"
  ld_traceId :: string
  ld_spanId :: string
  ld_traceState :: "string option"
  ld_flags :: "number option"
  ld_droppedAttributesCount :: number
  ld_attributes :: attrs

definition link_context :: "(number \<Rightarrow> string) \<Rightarrow> link_data \<Rightarrow> (string \<times> string) list" where
  "link_context num_text l =
     [(''Trace state'', attribute_text num_text (JStr (case ld_traceState l of Some s \<Rightarrow> s | None \<Rightarrow> ''Unknown''))),
      (''Flags'', attribute_text num_text (case ld_flags l of Some n \<Rightarrow> JNum n | None \<Rightarrow> JStr ''Unknown'')),
      (''Dropped attributes'', attribute_text num_text (JNum (ld_droppedAttributesCount l)))]"

definition link_attributes :: "(number \<Rightarrow> string) \<Rightarrow> link_data \<Rightarrow> (string \<times> string) list option" where
  "link_attributes num_text l =
     (if length (ld_attributes l) = 0 then None
      else Some (map (\<lambda>(k, v). (k, attribute_text num_text v)) (ld_attributes l)))"

record endpoint =
  ep_label :: string
  ep_title :: string
  ep_service :: string
  ep_page :: "page \<Rightarrow> page option"
  ep_trace :: string
  ep_span :: string

definition Endpoint :: "string \<Rightarrow> link_end option \<Rightarrow> string \<Rightarrow> string \<Rightarrow> endpoint" where
  "Endpoint label other traceId spanId =
     \<lparr>ep_label = label,
      ep_title = (case other of Some s \<Rightarrow> ln_name s | None \<Rightarrow> ''Span not available''),
      ep_service =
        (case other of
           Some s \<Rightarrow> (if ln_serviceName s = [] then ''Unknown service'' else ln_serviceName s)
         | None \<Rightarrow> ''Span details unavailable''),
      ep_page = (\<lambda>p. map_option (\<lambda>s. follow_link (ln_traceId s, ln_spanId s) p) other),
      ep_trace = (if traceId = [] then ''(empty)'' else traceId),
      ep_span = (if spanId = [] then ''(empty)'' else spanId)\<rparr>"

definition link_endpoints :: "link_data \<Rightarrow> endpoint list" where
  "link_endpoints l =
     [Endpoint ''Source span'' (ld_source l) (ld_sourceTraceId l) (ld_sourceSpanId l),
      Endpoint ''Referenced span'' (ld_target l) (ld_traceId l) (ld_spanId l)]"

datatype dialog_part = Dialog_pending | Dialog_failed | Dialog_gone | Dialog_link

definition link_dialog :: "bool \<Rightarrow> bool \<Rightarrow> bool \<Rightarrow> link_data option \<Rightarrow> dialog_part list" where
  "link_dialog isPending isError isSuccess link =
     (if isPending then [Dialog_pending] else []) @ (if isError then [Dialog_failed] else []) @
     (if isSuccess \<and> link = None then [Dialog_gone] else []) @ (if link \<noteq> None then [Dialog_link] else [])"

section \<open>Lemmas\<close>

text \<open>What the server promises of a connection: pages of twenty behind a cursor.\<close>

definition link_server :: "(link_row \<Rightarrow> string) \<Rightarrow> link_row list \<Rightarrow> string option \<Rightarrow> link_page" where
  "link_server cursor rows after =
     (let rest = after_cursor cursor after rows
      in \<lparr>lc_items = take 20 rest, lc_hasNextPage = (length rest > 20),
          lc_endCursor = (if rest = [] then None else Some (cursor (last (take 20 rest)))), lc_available = True\<rparr>)"

lemma after_last:
  assumes "distinct (map cursor xs)" and "k < length xs"
  shows "after_cursor cursor (Some (cursor (xs ! k))) xs = drop (Suc k) xs"
  using assms
proof (induction xs arbitrary: k)
  case (Cons x xs)
  then show ?case by (cases k) (auto simp: after_cursor_def)
qed simp


text \<open>A cursor names one row: after the last row of a page come the rows behind it.\<close>

lemma link_server_next:
  assumes "distinct (map cursor rows)" and "k + 20 < length rows"
    and "after_cursor cursor param rows = drop k rows"
  shows "next_link_param (link_server cursor rows param) = Some (cursor (rows ! (k + 19)))"
    and "after_cursor cursor (Some (cursor (rows ! (k + 19)))) rows = drop (k + 20) rows"
proof -
  have "last (take 20 (drop k rows)) = rows ! (k + 19)"
    using assms(2) by (simp add: last_conv_nth)
  then show "next_link_param (link_server cursor rows param) = Some (cursor (rows ! (k + 19)))"
    using assms(2,3) by (simp add: next_link_param_def link_server_def Let_def)
  show "after_cursor cursor (Some (cursor (rows ! (k + 19)))) rows = drop (k + 20) rows"
    using after_last [OF assms(1), of "k + 19"] assms(2) by (simp add: add.commute)
qed

lemma link_server_items: "lc_items (link_server cursor rows param) = take 20 (after_cursor cursor param rows)"
  by (simp add: link_server_def Let_def)

lemma link_rows_simps [simp]:
  "link_rows [] = []"
  "link_rows (page # pages) = lc_items page @ link_rows pages"
  by (simp_all add: link_rows_def)

lemma load_link_pages_nonempty: "0 < n \<Longrightarrow> load_link_pages n fetch param \<noteq> []"
  by (cases n) (simp_all add: Let_def)

lemma link_pages_from:
  assumes "distinct (map cursor rows)" and "after_cursor cursor param rows = drop k rows"
    and "length rows \<le> k + 20 * n" and "0 < n"
  shows "link_rows (load_link_pages n (link_server cursor rows) param) = drop k rows \<and>
    next_link_param (last (load_link_pages n (link_server cursor rows) param)) = None"
  using assms(2-)
proof (induction n arbitrary: k param)
  case (Suc n)
  show ?case
  proof (cases "k + 20 < length rows")
    case True
    note next_page = link_server_next [OF assms(1) True Suc.prems(1)]
    have n: "0 < n" using True Suc.prems(2) by (cases n) auto
    have "take 20 (drop k rows) @ drop (k + 20) rows = drop k rows"
      by (metis append_take_drop_id drop_drop add.commute)
    then show ?thesis
      using Suc.IH [OF next_page(2)] Suc.prems(1,2) n next_page(1) load_link_pages_nonempty [OF n]
      by (simp add: Let_def link_server_items)
  next
    case False
    then have "next_link_param (link_server cursor rows param) = None"
      using Suc.prems(1) by (auto simp: next_link_param_def link_server_def Let_def)
    then show ?thesis
      using False Suc.prems(1) by (simp add: Let_def link_server_items)
  qed
qed simp

text \<open>
  Loading page after page lists every link of the span, each once and in the order of the server, and
  the list then offers no further page: twenty links per page are enough pages.
\<close>

lemma span_links_complete:
  assumes "distinct (map cursor rows)" and "length rows \<le> 20 * n" and "0 < n"
  shows "link_rows (load_link_pages n (link_server cursor rows) None) = rows \<and>
    \<not> more_links
      \<lparr>lq_pages = Some (load_link_pages n (link_server cursor rows) None), lq_isPending = False,
       lq_isError = False, lq_isFetchingNextPage = fetching\<rparr>"
  using link_pages_from [of cursor rows None 0 n] assms
  by (simp add: after_cursor_def more_links_def)

lemma span_links_complete_instance:
  "length (link_rows
     (load_link_pages 2
       (link_server lk_targetStatus
         (map (\<lambda>i. \<lparr>lk_ordinal = i, lk_traceId = ''a'', lk_spanId = ''b'', lk_sourceTraceId = ''c'',
            lk_sourceSpanId = ''d'', lk_targetStatus = replicate i CHR ''x'', lk_target = None,
            lk_source = None\<rparr>) [0..<23])) None)) = 23"
  by (subst span_links_complete [THEN conjunct1]) (simp_all add: distinct_map inj_on_def comp_def)

text \<open>Every link of the list and both ends of the dialog lead to a page that shows no link any more.\<close>

lemma followed_link_closes_dialog:
  "pq_link (pg_search (follow_link target p)) = None"
  "pg_location (follow_link (traceId, spanId) p) = At_span traceId spanId"
  by (simp_all add: follow_link_def)

end
