(* ===== verification/Spec2Isabelle.thy ===== *)
theory Spec2Isabelle
  imports WsManager LiveSearch ListPaging LiveRefetch ChartView WaterfallView Interaction SpanLinks
begin

text \<open>
  Verification of the web front end of otelop, an OpenTelemetry viewer. The back end stores traces,
  metrics and logs; the browser application under \<^verbatim>\<open>frontend/src\<close> loads pages of them
  over GraphQL, receives live deliveries over one WebSocket, keeps bounded buffers, and filters, searches
  and draws what the buffers hold. The development models that application: its state and every
  operation on it, from the source.

  \<^bold>\<open>How the parts interact.\<close> A frame of the socket goes from the manager
  (\<open>WsManager\<close>) to the feed of the application (\<open>LiveFeed\<close>), which queues messages and
  flushes them as batched writes to the store (\<open>TraceStore\<close>, \<open>MetricStore\<close>). The list
  hooks page through the server (\<open>ListPaging\<close>) and write their pages into the same store
  (\<open>ListSession\<close>). The derived lists (\<open>ListFilters\<close>) combine the buffers with the time
  window (\<open>TimeWindow\<close>) and the search grammar (\<open>SearchSyntax\<close>, \<open>TraceSearch\<close>);
  \<open>LiveSearch\<close> asks the server about live traces the browser cannot decide. The query of a
  list lives in the address (\<open>RouteSearch\<close>, \<open>QueryState\<close>) and is edited through drafts
  (\<open>LogFilter\<close>). \<open>RenderWindow\<close> mounts a bounded run of rows. The details are the
  span tree (\<open>SpanTree\<close>) and the metric views (\<open>MetricCatalog\<close>, \<open>SeriesColors\<close>,
  \<open>MetricSeries\<close>, \<open>MetricChart\<close>), kept current by \<open>LiveRefetch\<close>. What a tab shows
  of all this is in \<open>Screens\<close>, \<open>MetricView\<close> and \<open>Waterfall\<close>; \<open>Navigation\<close>
  says how addresses, tabs and selections lead from one to another, \<open>Loading\<close> what is fetched beside
  the lists, \<open>FilterBar\<close> and \<open>DetailActions\<close> how filters come about, and \<open>Interaction\<close>
  how the controls behave.

  \<^bold>\<open>Theories and sources.\<close>
  \<^item> \<open>Prelude\<close>, \<open>JsNumber\<close>, \<open>JsRounding\<close>, \<open>JsText\<close>,
    \<open>JsonText\<close>: arrays, maps, sorting, doubles, strings and JSON text of the language; the locales
    \<open>keyed_buffer\<close>, \<open>absorbing_buffer\<close>, \<open>step_machine\<close> and \<open>prefix_codec\<close>.
  \<^item> \<open>Telemetry\<close>: \<^verbatim>\<open>types/telemetry.ts\<close>, \<^verbatim>\<open>lib/normalize.ts\<close>,
    \<^verbatim>\<open>lib/span-mapping.ts\<close>. \<open>TimeWindow\<close>: \<^verbatim>\<open>lib/chart-time-range.ts\<close>,
    \<^verbatim>\<open>lib/event-time-window.ts\<close>.
  \<^item> \<open>Store\<close>, \<open>TraceStore\<close>, \<open>MetricStore\<close>, \<open>ListSession\<close>:
    \<^verbatim>\<open>stores/telemetry.ts\<close>, \<^verbatim>\<open>lib/metric-key.ts\<close>. The atoms are one record,
    a write atom is a function on it. The batched writes, which keep an index beside the array, are
    proved equal to inserting one record after the other into a keyed buffer; a list page is proved to
    leave the page, the live rows that arrived meanwhile and nothing else.
  \<^item> \<open>WsManager\<close>: \<^verbatim>\<open>lib/websocket-manager.ts\<close>, with the sockets and timers of the
    browser. Events may come in any order; the invariant gives at most one connection, no lost
    subscriber, the back-off schedule and the harmlessness of events of discarded sockets.
  \<^item> \<open>LiveFeed\<close>: \<^verbatim>\<open>hooks/use-websocket.ts\<close>. Delivery order across batched flushes,
    and what an exception inside a flush does.
  \<^item> \<open>ListFilters\<close>: \<^verbatim>\<open>stores/filters.ts\<close>. \<open>LiveSearch\<close>:
    \<^verbatim>\<open>hooks/use-live-trace-search.ts\<close> as an inductive step relation. \<open>ListPaging\<close>:
    \<^verbatim>\<open>hooks/use-signal-list-page.ts\<close>, \<^verbatim>\<open>hooks/use-trace-list-page.ts\<close>,
    \<^verbatim>\<open>hooks/use-log-list-page.ts\<close>, against a contract of the server. \<open>RenderWindow\<close>:
    \<^verbatim>\<open>hooks/use-render-window.ts\<close>, \<^verbatim>\<open>hooks/use-load-older-rows.ts\<close>,
    \<^verbatim>\<open>hooks/use-stable-array.ts\<close>.
  \<^item> \<open>SearchSyntax\<close>: \<^verbatim>\<open>lib/log-search.ts\<close>, \<^verbatim>\<open>lib/metric-search.ts\<close>.
    \<open>TraceSearch\<close>: \<^verbatim>\<open>lib/trace-search.ts\<close>. \<open>LogFilter\<close>:
    \<^verbatim>\<open>lib/log-filter.ts\<close>. \<open>RouteSearch\<close>: \<^verbatim>\<open>lib/route-search.ts\<close>.
    \<open>QueryState\<close>: \<^verbatim>\<open>lib/log-query-state.ts\<close> and the query actions of
    \<^verbatim>\<open>hooks/use-signal-route.ts\<close>. The lemmas are round trips between terms, drafts, addresses
    and search strings, and what a match means.
  \<^item> \<open>SpanTree\<close>: \<^verbatim>\<open>components/traces/span-tree.ts\<close>,
    \<^verbatim>\<open>components/traces/trace-timeline.ts\<close>. The recursion takes fuel; the number of spans
    plus one is enough when the ids are distinct and not empty, which is proved.
  \<^item> \<open>MetricCatalog\<close>: \<^verbatim>\<open>lib/metric-catalog.ts\<close>. \<open>SeriesColors\<close>:
    \<^verbatim>\<open>lib/metric-series-colors.ts\<close>. \<open>MetricSeries\<close>:
    \<^verbatim>\<open>lib/metric-stats.ts\<close>, \<^verbatim>\<open>lib/metric-chart-series.ts\<close>.
    \<open>MetricChart\<close> and \<open>ChartView\<close>: \<^verbatim>\<open>components/metrics/metric-chart.tsx\<close>. \<open>LiveRefetch\<close>:
    the range, aggregate and distribution hooks and the invalidation of queries by live messages.
  \<^item> \<open>Formatting\<close>: \<^verbatim>\<open>lib/format.ts\<close>, \<^verbatim>\<open>lib/format-metric.ts\<close>,
    \<^verbatim>\<open>lib/tones.ts\<close>. The texts read back as the value within one unit of the last place.
  \<^item> \<open>Navigation\<close>: \<^verbatim>\<open>router.tsx\<close>, \<^verbatim>\<open>App.tsx\<close>,
    \<^verbatim>\<open>hooks/use-signal-route.ts\<close>, \<^verbatim>\<open>lib/span-link-selection.ts\<close>, the link dialog, the
    time window controls and the theme switch. Tabs lead back to what was visited last.
  \<^item> \<open>Loading\<close>: \<^verbatim>\<open>hooks/use-initial-load.ts\<close>, \<^verbatim>\<open>hooks/use-trace-by-id.ts\<close>,
    \<^verbatim>\<open>hooks/use-trace-spans.ts\<close>, \<^verbatim>\<open>hooks/use-metric-list-search.ts\<close>. A shared address
    of a trace resolves whatever the buffer holds.
  \<^item> \<open>FilterBar\<close>: \<^verbatim>\<open>components/filters/signal-filter-bar.tsx\<close> with its suggestions;
    \<open>DetailActions\<close>: the filter buttons of \<^verbatim>\<open>components/logs/log-detail.tsx\<close>,
    \<^verbatim>\<open>components/traces/trace-detail.tsx\<close> and \<^verbatim>\<open>components/common/kv-section.tsx\<close>. A
    button changes the one filter it stands beside; a record stays listed when filtered by a value of its own.
  \<^item> \<open>Waterfall\<close> and \<open>WaterfallView\<close>: \<^verbatim>\<open>components/traces/span-waterfall.tsx\<close>,
    \<^verbatim>\<open>components/traces/trace-overview.tsx\<close>,
    \<^verbatim>\<open>components/traces/use-trace-range-selection.ts\<close>. \<open>MetricView\<close>:
    \<^verbatim>\<open>components/metrics/metric-detail.tsx\<close>, \<^verbatim>\<open>components/metrics/metric-summary.tsx\<close>,
    \<^verbatim>\<open>components/metrics/data-points-table.tsx\<close>. \<open>Screens\<close>: the three lists with their rows.
    \<open>SpanLinks\<close>: \<^verbatim>\<open>components/traces/span-links.tsx\<close>,
    \<^verbatim>\<open>components/traces/span-link-dialog.tsx\<close>,
    \<^verbatim>\<open>hooks/use-span-links.ts\<close>; loading page after page lists every link once.
    \<open>Interaction\<close>: the search box, page shortcuts, copy buttons and one request of
    \<^verbatim>\<open>lib/graphql.ts\<close>, as machines.

  \<^bold>\<open>Parameters.\<close> Code that is not in the repository is an argument: \<open>temporal\<close>
  (parsing and printing of instants; its laws are \<open>temporal_laws\<close>, with the instance
  \<open>decimal_temporal\<close>), the \<open>Date\<close> parser and printer, \<open>localeCompare\<close>, the text
  of numbers, \<open>URLSearchParams\<close>, the structural sharing of the query library, the answers of
  the server. A hypothesis on one of them is named where it is used and has an instance in a witness.

  \<^bold>\<open>Bounds.\<close> Strings are lists of Latin-1 characters. A number is the rational a double stands
  for, rounded by \<open>fl\<close> wherever the code's arithmetic may round; infinities and NaN are outside
  the model. Big integers are \<open>int\<close>. An exception is \<open>None\<close> or a value of an outcome type.

  \<^bold>\<open>Not modelled.\<close> The layout and styles of what the components render and the user interface
  primitives under \<^verbatim>\<open>components/ui\<close>, which wrap a component library and hold no state of the
  program; the router, query and drawing libraries; the generated GraphQL documents; the back end, which is
  not part of the application.
\<close>

end
